(* ===== verification/Prelude.thy ===== *)
theory Prelude
  imports Complex_Main "HOL-Library.Multiset" "HOL-Library.Sublist"
begin

text \<open>
  Shared vocabulary of the development: the results of fallible Rust code, the bounds of the
  machine integers it uses, the string operations of the Rust standard library that the sources
  call (\<open>contains\<close>, \<open>trim\<close>, \<open>split\<close>, \<open>splitn\<close>, \<open>parse::<usize>\<close>, \<open>to_lowercase\<close>, the decimal
  \<open>Display\<close> of integers), and generic facts about lists that several components use.

  A Rust \<open>String\<close> is the list of its UTF-8 bytes, so \<open>len()\<close> is \<open>length\<close> and \<open>chars().count()\<close>
  counts the bytes that do not continue a code point. \<open>trim\<close> and \<open>to_lowercase\<close> are the ASCII
  part of the Unicode operations.
\<close>

section \<open>Collections of facts\<close>

named_theorems float_simps \<open>evaluation of the floating-point operations on finite arguments\<close>
named_theorems pack_simps \<open>facts about the chunks the bin-packer returns\<close>
named_theorems step_defs \<open>definitions unfolded in the step proofs of the worker and the pool\<close>

named_theorems result_iff \<open>when a fallible operation succeeds\<close>

section \<open>Results\<close>

type_synonym ('e, 'a) result = "'e + 'a"

fun rbind :: "('e, 'a) result \<Rightarrow> ('a \<Rightarrow> ('e, 'b) result) \<Rightarrow> ('e, 'b) result" where
  "rbind (Inl e) f = Inl e"
| "rbind (Inr x) f = f x"

fun map_err :: "('e \<Rightarrow> 'f) \<Rightarrow> ('e, 'a) result \<Rightarrow> ('f, 'a) result" where
  "map_err g (Inl e) = Inl (g e)"
| "map_err g (Inr x) = Inr x"

fun is_err :: "('e, 'a) result \<Rightarrow> bool" where
  "is_err (Inl e) = True"
| "is_err (Inr x) = False"

lemma rbind_Inr_iff [result_iff]: "rbind r f = Inr y \<longleftrightarrow> (\<exists>x. r = Inr x \<and> f x = Inr y)"
  by (cases r) auto

lemma rbind_Inl_iff: "rbind r f = Inl e \<longleftrightarrow> r = Inl e \<or> (\<exists>x. r = Inr x \<and> f x = Inl e)"
  by (cases r) auto

lemma map_err_Inr_iff [simp, result_iff]: "map_err g r = Inr x \<longleftrightarrow> r = Inr x"
  by (cases r) auto

lemma map_err_Inl_iff: "map_err g r = Inl f \<longleftrightarrow> (\<exists>e. r = Inl e \<and> f = g e)"
  by (cases r) auto

lemma is_err_map_err [simp]: "is_err (map_err g r) = is_err r"
  by (cases r) auto

lemma is_err_iff: "is_err r \<longleftrightarrow> (\<exists>e. r = Inl e)"
  by (cases r) auto

lemma rbind_assoc: "rbind (rbind r f) g = rbind r (\<lambda>x. rbind (f x) g)"
  by (cases r) auto

section \<open>Machine integers\<close>

text \<open>
  Counts and lengths are natural numbers; where the code saturates, checks or wraps, the bound is
  written out. The targets of the server are 64-bit, so \<open>usize\<close> and \<open>u64\<close> share a bound.
\<close>

definition usize_max :: nat where "usize_max = 2 ^ 64 - 1"

definition isize_max :: nat where "isize_max = 2 ^ 63 - 1"

definition u32_max :: nat where "u32_max = 2 ^ 32 - 1"

definition u128_max :: nat where "u128_max = 2 ^ 128 - 1"

definition sat_add :: "nat \<Rightarrow> nat \<Rightarrow> nat \<Rightarrow> nat" where
  "sat_add bound a b = min bound (a + b)"

definition sat_mul :: "nat \<Rightarrow> nat \<Rightarrow> nat \<Rightarrow> nat" where
  "sat_mul bound a b = min bound (a * b)"

lemma sat_add_le_bound [simp]: "sat_add bound a b \<le> bound"
  by (simp add: sat_add_def)

lemma sat_add_le_add: "sat_add bound a b \<le> a + b"
  by (simp add: sat_add_def)

lemma sat_add_mono: "a \<le> a' \<Longrightarrow> b \<le> b' \<Longrightarrow> sat_add bound a b \<le> sat_add bound a' b'"
  by (simp add: sat_add_def)

lemma sat_add_exact: "a + b \<le> bound \<Longrightarrow> sat_add bound a b = a + b"
  by (simp add: sat_add_def)

section \<open>Lists\<close>

lemma sum_list_map_le:
  "(\<And>x. x \<in> set xs \<Longrightarrow> f x \<le> (g x :: nat)) \<Longrightarrow> sum_list (map f xs) \<le> sum_list (map g xs)"
  by (induction xs) (auto intro: add_mono)

lemma distinct_concatD:
  "distinct (concat xss) \<Longrightarrow> xs \<in> set xss \<Longrightarrow> distinct xs"
  by (induction xss) auto

lemma mset_eq_upt_distinct:
  assumes "mset xs = mset [0..<n]"
  shows "distinct xs" and "set xs = {0..<n}"
proof -
  show "distinct xs" using assms by (metis distinct_upt mset_eq_imp_distinct_iff)
  show "set xs = {0..<n}" using assms by (metis mset_eq_setD set_upt)
qed

text \<open>\<open>iter().max()\<close> on a list of numbers: \<open>None\<close> when the list is empty.\<close>

definition list_max :: "nat list \<Rightarrow> nat option" where
  "list_max xs = (if xs = [] then None else Some (fold max (tl xs) (hd xs)))"

lemma fold_max_ge_init: "(m::nat) \<le> fold max xs m"
  by (induction xs arbitrary: m) (auto intro: le_trans [OF max.cobounded2])

lemma fold_max_ge: "x \<in> set xs \<Longrightarrow> (x::nat) \<le> fold max xs m"
  by (induction xs arbitrary: m) (auto intro: le_trans [OF max.cobounded1 fold_max_ge_init])

lemma fold_max_in: "fold max xs (m::nat) \<in> insert m (set xs)"
proof (induction xs arbitrary: m)
  case (Cons a xs)
  have "fold max xs (max a m) \<in> insert (max a m) (set xs)" by (rule Cons.IH)
  then show ?case by (cases "a \<le> m") (auto simp: max_absorb1 max_absorb2)
qed simp

lemma list_max_Nil [simp]: "list_max [] = None"
  by (simp add: list_max_def)

lemma list_max_None [simp]: "list_max xs = None \<longleftrightarrow> xs = []"
  by (simp add: list_max_def)

lemma list_max_Some:
  assumes "list_max xs = Some m"
  shows "m \<in> set xs" and "\<And>x. x \<in> set xs \<Longrightarrow> x \<le> m"
proof -
  from assms have ne: "xs \<noteq> []" and m: "m = fold max (tl xs) (hd xs)"
    by (auto simp: list_max_def split: if_splits)
  then obtain y ys where xs: "xs = y # ys" by (cases xs) auto
  show "m \<in> set xs" using fold_max_in [of ys y] by (simp add: m xs)
  show "\<And>x. x \<in> set xs \<Longrightarrow> x \<le> m"
    using fold_max_ge_init [of y ys] fold_max_ge [of _ ys y] by (auto simp: m xs)
qed

lemma list_max_eq_Max: "xs \<noteq> [] \<Longrightarrow> list_max xs = Some (Max (set xs))"
  using list_max_Some [of xs] by (cases "list_max xs") (auto intro!: Max_eqI [symmetric])

lemma foldl_max_Max: "foldl max m xs = Max (insert m (set xs))" for m :: nat
proof (induction xs arbitrary: m)
  case (Cons x xs)
  then show ?case by (cases "xs = []") (simp_all add: ac_simps)
qed simp

definition list_min :: "nat list \<Rightarrow> nat option" where
  "list_min xs = (if xs = [] then None else Some (fold min (tl xs) (hd xs)))"

lemma fold_min_le_init: "fold min xs (m::nat) \<le> m"
  by (induction xs arbitrary: m) (auto intro: le_trans [OF _ min.cobounded2])

lemma fold_min_le: "x \<in> set xs \<Longrightarrow> fold min xs (m::nat) \<le> x"
  by (induction xs arbitrary: m) (auto intro: le_trans [OF fold_min_le_init min.cobounded1])

lemma fold_min_in: "fold min xs (m::nat) \<in> insert m (set xs)"
proof (induction xs arbitrary: m)
  case (Cons a xs)
  have "fold min xs (min a m) \<in> insert (min a m) (set xs)" by (rule Cons.IH)
  then show ?case by (cases "a \<le> m") (auto simp: min_absorb1 min_absorb2)
qed simp

lemma list_min_eq_Min:
  assumes "xs \<noteq> []"
  shows "list_min xs = Some (Min (set xs))"
proof -
  from assms obtain y ys where xs: "xs = y # ys" by (cases xs) auto
  have "fold min ys y \<in> set xs" using fold_min_in [of ys y] by (simp add: xs)
  moreover have "\<forall>x\<in>set xs. fold min ys y \<le> x"
    using fold_min_le_init [of ys y] fold_min_le [of _ ys y] by (auto simp: xs)
  ultimately have "Min (set xs) = fold min ys y" by (intro Min_eqI) auto
  then show ?thesis by (simp add: list_min_def xs)
qed

section \<open>Strings\<close>

text \<open>\<open>str::chars().count()\<close>: the bytes \<open>0b10xxxxxx\<close> continue a code point.\<close>

definition is_continuation_byte :: "char \<Rightarrow> bool" where
  "is_continuation_byte c \<longleftrightarrow> of_char c div 64 = (2 :: nat)"

definition char_count :: "string \<Rightarrow> nat" where
  "char_count s = length (filter (\<lambda>c. \<not> is_continuation_byte c) s)"

lemma char_count_le_length: "char_count s \<le> length s"
  by (simp add: char_count_def)

text \<open>\<open>str::contains\<close>, \<open>starts_with\<close>, \<open>ends_with\<close> on byte strings.\<close>

definition str_contains :: "string \<Rightarrow> string \<Rightarrow> bool" where
  "str_contains s pat = sublist pat s"

definition str_starts_with :: "string \<Rightarrow> string \<Rightarrow> bool" where
  "str_starts_with s pat = prefix pat s"

definition str_ends_with :: "string \<Rightarrow> string \<Rightarrow> bool" where
  "str_ends_with s pat = suffix pat s"

lemma sublist_split_at:
  assumes "c \<notin> set pat"
  shows "sublist pat (xs @ c # ys) \<longleftrightarrow> sublist pat xs \<or> sublist pat ys"
proof
  assume "sublist pat (xs @ c # ys)"
  then consider "sublist pat xs" | "sublist pat (c # ys)"
    | p q where "pat = p @ q" "suffix p xs" "prefix q (c # ys)"
    by (auto simp: sublist_append)
  then show "sublist pat xs \<or> sublist pat ys"
  proof cases
    case 2
    then show ?thesis using assms by (auto simp: sublist_Cons_right prefix_Cons)
  next
    case 3
    then have "q = []" using assms by (auto simp: prefix_Cons)
    then show ?thesis using 3 by auto
  qed simp
next
  assume "sublist pat xs \<or> sublist pat ys"
  then show "sublist pat (xs @ c # ys)"
    by (auto simp: sublist_append sublist_Cons_right)
qed

lemma sublist_split_block:
  assumes "set ds \<inter> set pat = {}" and "ds \<noteq> []"
  shows "sublist pat (xs @ ds @ ys) \<longleftrightarrow> sublist pat xs \<or> sublist pat ys \<or> pat = []"
  using assms
proof (induction ds arbitrary: xs)
  case (Cons d ds)
  then have d: "d \<notin> set pat" by auto
  show ?case
  proof (cases "ds = []")
    case True
    then show ?thesis using sublist_split_at [OF d, of xs ys] by auto
  next
    case False
    then have "sublist pat ([] @ ds @ ys) \<longleftrightarrow> sublist pat [] \<or> sublist pat ys \<or> pat = []"
      using Cons by (intro Cons.IH) auto
    then show ?thesis using sublist_split_at [OF d, of xs "ds @ ys"] by auto
  qed
qed simp

subsection \<open>Whitespace, case, splitting\<close>

definition is_ws :: "char \<Rightarrow> bool" where
  "is_ws c \<longleftrightarrow> (of_char c :: nat) \<in> {9, 10, 11, 12, 13, 32}"

definition trim :: "string \<Rightarrow> string" where
  "trim s = rev (dropWhile is_ws (rev (dropWhile is_ws s)))"

definition lower_char :: "char \<Rightarrow> char" where
  "lower_char c = (let n = of_char c :: nat in if 65 \<le> n \<and> n \<le> 90 then char_of (n + 32) else c)"

definition to_lowercase :: "string \<Rightarrow> string" where
  "to_lowercase s = map lower_char s"

text \<open>\<open>str::split(c)\<close>: always at least one piece; \<open>str::splitn(2, c)\<close>: split at the first \<open>c\<close>.\<close>

fun split_on :: "char \<Rightarrow> string \<Rightarrow> string list" where
  "split_on c [] = [[]]"
| "split_on c (x # xs) =
     (if x = c then [] # split_on c xs
      else (case split_on c xs of [] \<Rightarrow> [[x]] | p # ps \<Rightarrow> (x # p) # ps))"

fun split_once :: "char \<Rightarrow> string \<Rightarrow> (string \<times> string) option" where
  "split_once c [] = None"
| "split_once c (x # xs) =
     (if x = c then Some ([], xs)
      else map_option (\<lambda>(l, r). (x # l, r)) (split_once c xs))"

text \<open>\<open>str::lines\<close>: no last line when the text ends in a newline, and one carriage return before it is dropped.\<close>

definition str_lines :: "string \<Rightarrow> string list" where
  "str_lines s =
     (let ls = split_on (CHR 0x0A) s;
          ls' = (if ls \<noteq> [] \<and> last ls = [] then butlast ls else ls)
      in map (\<lambda>l. if l \<noteq> [] \<and> last l = CHR 0x0D then butlast l else l) ls')"

text \<open>\<open>str::split_whitespace\<close>.\<close>

lemma dropWhile_Cons_shorter [termination_simp]:
  "dropWhile P s = c # cs \<Longrightarrow> length (dropWhile Q cs) < length s"
  using length_dropWhile_le [of P s] length_dropWhile_le [of Q cs] by simp

fun split_ws :: "string \<Rightarrow> string list" where
  "split_ws s =
     (case dropWhile is_ws s of
        [] \<Rightarrow> []
      | c # cs \<Rightarrow> (c # takeWhile (\<lambda>x. \<not> is_ws x) cs) # split_ws (dropWhile (\<lambda>x. \<not> is_ws x) cs))"

declare split_ws.simps [simp del]

lemma split_on_nonempty [simp]: "split_on c s \<noteq> []"
  by (induction s) (auto split: list.splits)

lemma split_on_no_sep: "c \<notin> set s \<Longrightarrow> split_on c s = [s]"
  by (induction s) auto

lemma split_on_append_sep: "c \<notin> set s \<Longrightarrow> split_on c (s @ c # t) = s # split_on c t"
  by (induction s) auto

lemma split_once_append_sep: "c \<notin> set s \<Longrightarrow> split_once c (s @ c # t) = Some (s, t)"
  by (induction s) auto

lemma trim_no_ws: "(\<And>c. c \<in> set s \<Longrightarrow> \<not> is_ws c) \<Longrightarrow> trim s = s"
proof -
  assume no_ws: "\<And>c. c \<in> set s \<Longrightarrow> \<not> is_ws c"
  then have "dropWhile is_ws s = s" by (cases s) auto
  moreover have "dropWhile is_ws (rev s) = rev s"
    using no_ws by (cases s rule: rev_cases) auto
  ultimately show "trim s = s" by (simp add: trim_def)
qed

subsection \<open>Decimal numbers\<close>

definition digit_val :: "char \<Rightarrow> nat option" where
  "digit_val c = (let n = of_char c :: nat in if 48 \<le> n \<and> n \<le> 57 then Some (n - 48) else None)"

definition digit_char :: "nat \<Rightarrow> char" where
  "digit_char d = char_of (48 + d mod 10)"

fun parse_digits :: "nat \<Rightarrow> string \<Rightarrow> nat option" where
  "parse_digits acc [] = Some acc"
| "parse_digits acc (c # cs) =
     (case digit_val c of None \<Rightarrow> None | Some d \<Rightarrow> parse_digits (10 * acc + d) cs)"

text \<open>
  \<open>str::parse\<close> for an unsigned type with the given maximum: an optional \<open>+\<close>, then at least one
  digit and nothing else; a value above the maximum is an error.
\<close>

definition parse_unsigned :: "nat \<Rightarrow> string \<Rightarrow> nat option" where
  "parse_unsigned bound s =
     (let ds = (if s \<noteq> [] \<and> hd s = CHR ''+'' then tl s else s)
      in if ds = [] then None
         else (case parse_digits 0 ds of
                 None \<Rightarrow> None
               | Some n \<Rightarrow> if n \<le> bound then Some n else None))"

abbreviation parse_usize :: "string \<Rightarrow> nat option" where
  "parse_usize \<equiv> parse_unsigned usize_max"

fun show_nat :: "nat \<Rightarrow> string" where
  "show_nat n = (if n < 10 then [digit_char n] else show_nat (n div 10) @ [digit_char (n mod 10)])"

declare show_nat.simps [simp del]

lemma digit_val_digit_char [simp]: "digit_val (digit_char d) = Some (d mod 10)"
proof -
  have "(48 + d mod 10) mod 256 = 48 + d mod 10" by (simp add: mod_less)
  then show ?thesis by (simp add: digit_val_def digit_char_def Let_def)
qed

lemma show_nat_nonempty [simp]: "show_nat n \<noteq> []"
  by (subst show_nat.simps) simp

lemma parse_digits_append:
  "parse_digits a (s @ t) = (case parse_digits a s of None \<Rightarrow> None | Some b \<Rightarrow> parse_digits b t)"
  by (induction s arbitrary: a) (auto split: option.splits)

lemma parse_digits_show_nat: "parse_digits 0 (show_nat n) = Some n"
proof (induction n rule: show_nat.induct)
  case (1 n)
  show ?case
  proof (cases "n < 10")
    case True
    then show ?thesis by (simp add: show_nat.simps [of n])
  next
    case False
    with 1 have "parse_digits 0 (show_nat (n div 10)) = Some (n div 10)" by simp
    with False show ?thesis by (simp add: show_nat.simps [of n] parse_digits_append)
  qed
qed

lemma set_show_nat: "c \<in> set (show_nat n) \<Longrightarrow> digit_val c \<noteq> None"
proof (induction n rule: show_nat.induct)
  case (1 n)
  then show ?case by (cases "n < 10") (auto simp: show_nat.simps [of n])
qed

lemma digit_val_plus [simp]: "digit_val CHR ''+'' = None"
  by (simp add: digit_val_def)

lemma hd_show_nat: "hd (show_nat n) \<noteq> CHR ''+''"
  using set_show_nat [of "hd (show_nat n)" n] by auto

text \<open>Printing a number and parsing it back is the identity, for every value the type holds.\<close>

lemma parse_unsigned_show_nat: "n \<le> bound \<Longrightarrow> parse_unsigned bound (show_nat n) = Some n"
  by (simp add: parse_unsigned_def hd_show_nat parse_digits_show_nat)

lemma parse_unsigned_bound: "parse_unsigned bound s = Some n \<Longrightarrow> n \<le> bound"
  by (auto simp: parse_unsigned_def Let_def split: option.splits if_splits)

lemma is_ws_not_digit: "is_ws c \<Longrightarrow> digit_val c = None"
  by (auto simp: is_ws_def digit_val_def)

end
