(* ===== verification/Rust_Float.thy ===== *)
theory Rust_Float
  imports Prelude
begin

text \<open>
  The binary floating-point numbers of Rust (\<open>f64\<close>, \<open>f32\<close>; IEEE 754 binary64 and binary32 with
  rounding to nearest, ties to even), as far as the server uses them. A value is a NaN, an
  infinity or a finite number; a finite number is held as the rational it denotes, and every
  operation rounds its exact result. The two zeros are identified: none of the modelled code
  looks at the sign of a zero. The format parameters are the precision \<open>p\<close>, the exponent \<open>emin\<close> of
  the smallest subnormal and the exponent \<open>emax\<close> of the overflow threshold.

  The library shows that rounding is exact on the integers below \<open>2 ^ p\<close>, odd and monotone; the
  cost model, the workspace budget and the least-squares fit rest on these facts through the
  locale \<open>monotone_rounding\<close>.
\<close>

section \<open>Binary logarithm of a positive rational\<close>

fun log2_nat :: "nat \<Rightarrow> nat" where
  "log2_nat n = (if n < 2 then 0 else Suc (log2_nat (n div 2)))"

declare log2_nat.simps [simp del]

lemma log2_nat_bounds: "0 < n \<Longrightarrow> 2 ^ log2_nat n \<le> n \<and> n < 2 ^ Suc (log2_nat n)"
proof (induction n rule: log2_nat.induct)
  case (1 n)
  show ?case
  proof (cases "n < 2")
    case True
    with 1 show ?thesis by (simp add: log2_nat.simps [of n])
  next
    case False
    then have "2 ^ log2_nat (n div 2) \<le> n div 2 \<and> n div 2 < 2 ^ Suc (log2_nat (n div 2))"
      using 1 by simp
    with False show ?thesis by (simp add: log2_nat.simps [of n]) linarith
  qed
qed

definition pow2 :: "int \<Rightarrow> rat" where
  "pow2 k = (if 0 \<le> k then 2 ^ nat k else 1 / 2 ^ nat (- k))"

lemma pow2_powi: "pow2 k = 2 powi k"
  unfolding pow2_def power_int_def by (simp add: inverse_eq_divide power_one_over)

lemma pow2_pos [simp]: "0 < pow2 k"
  by (simp add: pow2_powi)

lemma pow2_neq_0 [simp]: "pow2 k \<noteq> 0" and pow2_nonneg [simp]: "0 \<le> pow2 k"
  and abs_pow2 [simp]: "\<bar>pow2 k\<bar> = pow2 k"
  by (simp_all add: pow2_powi)

lemma pow2_add: "pow2 (j + k) = pow2 j * pow2 k"
  by (simp add: pow2_powi power_int_add)

lemma pow2_mono: "j \<le> k \<Longrightarrow> pow2 j \<le> pow2 k"
  by (simp add: pow2_powi power_int_increasing)

lemma pow2_one [simp]: "pow2 1 = 2"
  by (simp add: pow2_def)

lemma pow2_nat: "0 \<le> k \<Longrightarrow> pow2 k = of_int (2 ^ nat k)"
  by (simp add: pow2_def)

lemma pow2_diff_int:
  assumes "e \<le> q"
  shows "pow2 q / pow2 e = of_int (2 ^ nat (q - e))"
proof -
  have "pow2 q = pow2 (q - e) * pow2 e" by (simp flip: pow2_add)
  then show ?thesis using assms by (simp add: pow2_nat)
qed

definition ilog2 :: "rat \<Rightarrow> int" where
  "ilog2 x =
     (let (n, d) = quotient_of x;
          k = int (log2_nat (nat n)) - int (log2_nat (nat d))
      in if pow2 k \<le> x then k else k - 1)"

lemma ilog2_bounds:
  assumes "0 < x"
  shows "pow2 (ilog2 x) \<le> x" and "x < pow2 (ilog2 x + 1)"
proof -
  obtain n d where q: "quotient_of x = (n, d)" by (cases "quotient_of x")
  then have x: "x = of_int n / of_int d" and d: "0 < d"
    by (simp_all add: quotient_of_div quotient_of_denom_pos)
  from assms have n: "0 < n" using d by (simp add: x zero_less_divide_iff)
  define a where "a = log2_nat (nat n)"
  define b where "b = log2_nat (nat d)"
  define k where "k = int a - int b"
  have na: "2 ^ a \<le> nat n" "nat n < 2 ^ Suc a"
    using log2_nat_bounds [of "nat n"] n by (auto simp: a_def)
  have nb: "2 ^ b \<le> nat d" "nat d < 2 ^ Suc b"
    using log2_nat_bounds [of "nat d"] d by (auto simp: b_def)
  have "int (2 ^ a) \<le> int (nat n)" "int (nat n) < int (2 ^ Suc a)"
      "int (2 ^ b) \<le> int (nat d)" "int (nat d) < int (2 ^ Suc b)"
    using na nb by (simp_all only: of_nat_le_iff of_nat_less_iff)
  then have "(2::int) ^ a \<le> n" "n < 2 ^ Suc a" "(2::int) ^ b \<le> d" "d < 2 ^ Suc b"
    using n d by simp_all
  then have "(of_int (2 ^ a) :: rat) \<le> of_int n" "(of_int n :: rat) < of_int (2 ^ Suc a)"
      "(of_int (2 ^ b) :: rat) \<le> of_int d" "(of_int d :: rat) < of_int (2 ^ Suc b)"
    by (simp_all only: of_int_le_iff of_int_less_iff)
  then have r: "(2::rat) ^ a \<le> of_int n" "of_int n < (2::rat) ^ Suc a"
      "(2::rat) ^ b \<le> of_int d" "of_int d < (2::rat) ^ Suc b"
    by simp_all
  have "pow2 k * pow2 (int b) = pow2 (int a)" by (simp add: k_def flip: pow2_add)
  then have pk: "pow2 k = 2 ^ a / 2 ^ b" by (simp add: pow2_nat field_simps)
  have pk1: "pow2 (k + 1) = 2 ^ Suc a / 2 ^ b"
    by (simp add: pow2_add pk)
  have "pow2 (k - 1) * pow2 1 = pow2 (k - 1 + 1)" by (rule pow2_add [symmetric])
  then have pkm1: "pow2 (k - 1) = 2 ^ a / 2 ^ Suc b"
    by (simp add: pk)
  have up: "x < pow2 (k + 1)" unfolding x pk1
    using r d n by (intro frac_less) (auto simp del: power_Suc)
  have lo: "pow2 (k - 1) \<le> x" unfolding x pkm1
    using r d n by (intro frac_le) (auto simp del: power_Suc)
  have i: "ilog2 x = (if pow2 k \<le> x then k else k - 1)"
    by (simp add: ilog2_def q a_def b_def k_def)
  show "pow2 (ilog2 x) \<le> x" using lo by (simp add: i)
  show "x < pow2 (ilog2 x + 1)" using up by (simp add: i)
qed

lemma pow2_less_iff: "pow2 j < pow2 k \<longleftrightarrow> j < k"
proof (cases "j < k")
  case True
  then have "(2::rat) powi j < 2 powi k" by (intro power_int_strict_increasing) auto
  with True show ?thesis by (simp add: pow2_powi)
next
  case False
  then have "pow2 k \<le> pow2 j" by (intro pow2_mono) simp
  with False show ?thesis by simp
qed

lemma ilog2_mono:
  assumes "0 < x" and "x \<le> y"
  shows "ilog2 x \<le> ilog2 y"
proof -
  have "pow2 (ilog2 x) < pow2 (ilog2 y + 1)"
    using ilog2_bounds(1) [of x] ilog2_bounds(2) [of y] assms by simp
  then show ?thesis by (simp add: pow2_less_iff)
qed

section \<open>Rounding\<close>

text \<open>Round to the nearest integer, a tie to the even one.\<close>

definition rne :: "rat \<Rightarrow> int" where
  "rne x = (let f = \<lfloor>x\<rfloor>; r = x - of_int f
            in if r < 1 / 2 then f else if 1 / 2 < r then f + 1 else if even f then f else f + 1)"

lemma rne_of_int [simp]: "rne (of_int k) = k"
  by (simp add: rne_def)

lemma rne_error: "\<bar>of_int (rne x) - x\<bar> \<le> 1 / 2"
proof -
  define f where "f = \<lfloor>x\<rfloor>"
  have "of_int f \<le> x" "x < of_int f + 1" unfolding f_def by linarith+
  then show ?thesis unfolding rne_def Let_def f_def [symmetric] abs_if by auto
qed

lemma rne_le: "x \<le> of_int k \<Longrightarrow> rne x \<le> k"
proof -
  assume "x \<le> of_int k"
  then have "\<lfloor>x\<rfloor> < k \<or> x = of_int k" by linarith
  then show "rne x \<le> k" by (auto simp: rne_def Let_def)
qed

lemma rne_ge: "of_int k \<le> x \<Longrightarrow> k \<le> rne x"
proof -
  assume "of_int k \<le> x"
  then have "k \<le> \<lfloor>x\<rfloor>" by linarith
  then show "k \<le> rne x" by (auto simp: rne_def Let_def)
qed

lemma rne_mono: "x \<le> y \<Longrightarrow> rne x \<le> rne y"
proof -
  assume xy: "x \<le> y"
  then have f: "\<lfloor>x\<rfloor> \<le> \<lfloor>y\<rfloor>" by (rule floor_mono)
  show "rne x \<le> rne y"
  proof (cases "\<lfloor>x\<rfloor> = \<lfloor>y\<rfloor>")
    case True
    with xy show ?thesis by (auto simp: rne_def Let_def)
  next
    case False
    with f have "\<lfloor>x\<rfloor> + 1 \<le> \<lfloor>y\<rfloor>" by simp
    then show ?thesis by (auto simp: rne_def Let_def)
  qed
qed

lemma rne_minus: "rne (- x) = - rne x"
proof (cases "x = of_int \<lfloor>x\<rfloor>")
  case True
  then have "- x = of_int (- \<lfloor>x\<rfloor>)" by simp
  then have "rne (- x) = - \<lfloor>x\<rfloor>" by (metis rne_of_int)
  moreover have "rne x = \<lfloor>x\<rfloor>" using True by (metis rne_of_int)
  ultimately show ?thesis by simp
next
  case False
  then have fl: "\<lfloor>- x\<rfloor> = - \<lfloor>x\<rfloor> - 1" by linarith
  have "of_int \<lfloor>x\<rfloor> \<le> x" "x < of_int \<lfloor>x\<rfloor> + 1" by linarith+
  then show ?thesis using False
    by (auto simp: rne_def Let_def fl)
qed

text \<open>The exponent of the unit in the last place of \<open>x\<close>, and the rounded rational.\<close>

definition ulp_exp :: "nat \<Rightarrow> int \<Rightarrow> rat \<Rightarrow> int" where
  "ulp_exp p emin x = max (ilog2 \<bar>x\<bar> - int p + 1) emin"

definition rat_round :: "nat \<Rightarrow> int \<Rightarrow> rat \<Rightarrow> rat" where
  "rat_round p emin x =
     (if x = 0 then 0
      else let e = ulp_exp p emin x in of_int (rne (x / pow2 e)) * pow2 e)"

lemma rat_round_0 [simp]: "rat_round p emin 0 = 0"
  by (simp add: rat_round_def)

lemma rat_round_minus: "rat_round p emin (- x) = - rat_round p emin x"
  by (simp add: rat_round_def ulp_exp_def Let_def rne_minus)

lemma rat_round_le_grid:
  assumes "x \<noteq> 0" and "x \<le> of_int k * pow2 q" and "ulp_exp p emin x \<le> q"
  shows "rat_round p emin x \<le> of_int k * pow2 q"
proof -
  let ?e = "ulp_exp p emin x"
  have g: "pow2 q = of_int (2 ^ nat (q - ?e)) * pow2 ?e"
    using pow2_diff_int [OF assms(3)] by (simp add: field_simps)
  have "x / pow2 ?e \<le> of_int (k * 2 ^ nat (q - ?e))"
    using assms(2) by (simp add: g pos_divide_le_eq mult.assoc)
  then have "rne (x / pow2 ?e) \<le> k * 2 ^ nat (q - ?e)" by (rule rne_le)
  then have "(of_int (rne (x / pow2 ?e)) :: rat) \<le> of_int (k * 2 ^ nat (q - ?e))"
    by (simp only: of_int_le_iff)
  then have "of_int (rne (x / pow2 ?e)) * pow2 ?e \<le> of_int (k * 2 ^ nat (q - ?e)) * pow2 ?e"
    by (rule mult_right_mono) simp
  then show ?thesis using assms(1) by (simp add: rat_round_def Let_def g mult.assoc)
qed

lemma rat_round_ge_grid:
  assumes "x \<noteq> 0" and "of_int k * pow2 q \<le> x" and "ulp_exp p emin x \<le> q"
  shows "of_int k * pow2 q \<le> rat_round p emin x"
  using rat_round_le_grid [of "- x" "- k" q p emin] assms
  by (simp add: rat_round_minus ulp_exp_def)

text \<open>A multiple of a large enough power of two with few enough digits is a value of the format.\<close>

lemma rat_round_exact:
  assumes "\<bar>m\<bar> < 2 ^ p" and "emin \<le> q"
  shows "rat_round p emin (of_int m * pow2 q) = of_int m * pow2 q"
proof (cases "m = 0")
  case False
  let ?x = "of_int m * pow2 q :: rat"
  have x: "?x \<noteq> 0" using False by simp
  have "(of_int \<bar>m\<bar> :: rat) < of_int (2 ^ p)" using assms(1) by (simp only: of_int_less_iff)
  then have "\<bar>?x\<bar> < pow2 (int p) * pow2 q"
    by (simp add: abs_mult pow2_nat mult_strict_right_mono)
  then have "\<bar>?x\<bar> < pow2 (int p + q)" by (simp add: pow2_add)
  moreover have "pow2 (ilog2 \<bar>?x\<bar>) \<le> \<bar>?x\<bar>" using x by (intro ilog2_bounds) simp
  ultimately have "pow2 (ilog2 \<bar>?x\<bar>) < pow2 (int p + q)" by simp
  then have "ilog2 \<bar>?x\<bar> < int p + q" by (simp only: pow2_less_iff)
  then have "ulp_exp p emin ?x \<le> q" using assms(2) by (simp add: ulp_exp_def)
  then show ?thesis
    using rat_round_le_grid [OF x] rat_round_ge_grid [OF x] by (metis order_antisym order_refl)
qed simp

lemma rat_round_int_exact: "\<bar>m\<bar> < 2 ^ p \<Longrightarrow> emin \<le> 0 \<Longrightarrow> rat_round p emin (of_int m) = of_int m"
  using rat_round_exact [of m p emin 0] by (simp add: pow2_def)

lemma rat_round_sign:
  shows "0 \<le> x \<Longrightarrow> 0 \<le> rat_round p emin x" and "x \<le> 0 \<Longrightarrow> rat_round p emin x \<le> 0"
proof -
  show "0 \<le> x \<Longrightarrow> 0 \<le> rat_round p emin x"
    using rne_ge [of 0 "x / pow2 (ulp_exp p emin x)"] by (simp add: rat_round_def Let_def)
  show "x \<le> 0 \<Longrightarrow> rat_round p emin x \<le> 0"
    using rne_le [of "x / pow2 (ulp_exp p emin x)" 0]
    by (simp add: rat_round_def Let_def divide_nonpos_pos mult_nonpos_nonneg)
qed

lemma rat_round_mono_pos:
  assumes "0 < x" and "x \<le> y" and "0 < p"
  shows "rat_round p emin x \<le> rat_round p emin y"
proof (cases "ulp_exp p emin x = ulp_exp p emin y")
  case True
  have "rne (x / pow2 (ulp_exp p emin y)) \<le> rne (y / pow2 (ulp_exp p emin y))"
    using assms by (intro rne_mono divide_right_mono) auto
  then show ?thesis using True assms by (simp add: rat_round_def Let_def)
next
  case False
  have l: "ilog2 x \<le> ilog2 y" using assms by (intro ilog2_mono)
  with False have e: "ulp_exp p emin x < ulp_exp p emin y" and ey: "ulp_exp p emin y \<le> ilog2 y"
      and lt: "ilog2 x + 1 \<le> ilog2 y"
    using assms by (auto simp: ulp_exp_def)
  have "x < pow2 (ilog2 x + 1)" using assms by (intro ilog2_bounds)
  also have "\<dots> \<le> pow2 (ilog2 y)" using lt by (rule pow2_mono)
  finally have "x \<le> of_int 1 * pow2 (ilog2 y)" by simp
  then have "rat_round p emin x \<le> of_int 1 * pow2 (ilog2 y)"
    using assms e ey by (intro rat_round_le_grid) auto
  also have "\<dots> \<le> rat_round p emin y"
    using assms ey ilog2_bounds(1) [of y] by (intro rat_round_ge_grid) auto
  finally show ?thesis .
qed

lemma rat_round_mono:
  assumes "x \<le> y" and "0 < p"
  shows "rat_round p emin x \<le> rat_round p emin y"
proof -
  consider "0 < x" | "x \<le> 0" "0 \<le> y" | "y < 0" using assms by linarith
  then show ?thesis
  proof cases
    case 1
    then show ?thesis using assms by (intro rat_round_mono_pos)
  next
    case 2
    then show ?thesis using rat_round_sign by (metis order_trans)
  next
    case 3
    then have "rat_round p emin (- y) \<le> rat_round p emin (- x)"
      using assms by (intro rat_round_mono_pos) auto
    then show ?thesis by (simp add: rat_round_minus)
  qed
qed

text \<open>Half an ulp, absolutely; \<open>2 ^ -p\<close> relatively where the result is normal.\<close>

lemma rat_round_error:
  assumes "x \<noteq> 0"
  shows "\<bar>rat_round p emin x - x\<bar> \<le> pow2 (ulp_exp p emin x) / 2"
proof -
  let ?e = "ulp_exp p emin x"
  have "rat_round p emin x - x = (of_int (rne (x / pow2 ?e)) - x / pow2 ?e) * pow2 ?e"
    using assms by (simp add: rat_round_def Let_def left_diff_distrib)
  then have "\<bar>rat_round p emin x - x\<bar> = \<bar>of_int (rne (x / pow2 ?e)) - x / pow2 ?e\<bar> * pow2 ?e"
    by (simp add: abs_mult)
  also have "\<dots> \<le> 1 / 2 * pow2 ?e" by (intro mult_right_mono rne_error) (simp add: less_imp_le)
  finally show ?thesis by simp
qed

lemma rat_round_rel_error:
  assumes "pow2 (emin + int p - 1) \<le> \<bar>x\<bar>"
  shows "\<bar>rat_round p emin x - x\<bar> \<le> \<bar>x\<bar> / 2 ^ p"
proof -
  have pos: "0 < \<bar>x\<bar>" using assms pow2_pos by (metis order_less_le_trans)
  then have "pow2 (emin + int p - 1) < pow2 (ilog2 \<bar>x\<bar> + 1)"
    using assms ilog2_bounds(2) [of "\<bar>x\<bar>"] by simp
  then have "emin \<le> ilog2 \<bar>x\<bar> - int p + 1" by (simp add: pow2_less_iff)
  then have e: "ulp_exp p emin x = ilog2 \<bar>x\<bar> - int p + 1" by (simp add: ulp_exp_def)
  have "pow2 (ulp_exp p emin x) / 2 = pow2 (ilog2 \<bar>x\<bar>) / 2 ^ p"
    by (simp add: e pow2_powi power_int_add power_int_diff)
  also have "\<dots> \<le> \<bar>x\<bar> / 2 ^ p"
    using ilog2_bounds(1) [OF pos] by (intro divide_right_mono) auto
  finally have bound: "pow2 (ulp_exp p emin x) / 2 \<le> \<bar>x\<bar> / 2 ^ p" .
  have "x \<noteq> 0" using pos by simp
  then have "\<bar>rat_round p emin x - x\<bar> \<le> pow2 (ulp_exp p emin x) / 2" by (rule rat_round_error)
  then show ?thesis using bound by (rule order_trans)
qed

section \<open>Values and operations\<close>

datatype fl = NaN | Inf bool | Fin rat

text \<open>\<open>Inf True\<close> is the negative infinity. Rounding overflows to an infinity of the same sign.\<close>

definition fl_round :: "nat \<Rightarrow> int \<Rightarrow> int \<Rightarrow> rat \<Rightarrow> fl" where
  "fl_round p emin emax x =
     (let r = rat_round p emin x in if pow2 emax \<le> \<bar>r\<bar> then Inf (x < 0) else Fin r)"

definition r64 :: "rat \<Rightarrow> fl" where "r64 = fl_round 53 (- 1074) 1024"

definition r32 :: "rat \<Rightarrow> fl" where "r32 = fl_round 24 (- 149) 128"

text \<open>The operations take the rounding of their format.\<close>

fun fl_neg :: "fl \<Rightarrow> fl" where
  "fl_neg NaN = NaN"
| "fl_neg (Inf s) = Inf (\<not> s)"
| "fl_neg (Fin x) = Fin (- x)"

fun fl_add :: "(rat \<Rightarrow> fl) \<Rightarrow> fl \<Rightarrow> fl \<Rightarrow> fl" where
  "fl_add rnd (Fin x) (Fin y) = rnd (x + y)"
| "fl_add rnd (Inf s) (Fin y) = Inf s"
| "fl_add rnd (Fin x) (Inf s) = Inf s"
| "fl_add rnd (Inf s) (Inf t) = (if s = t then Inf s else NaN)"
| "fl_add rnd NaN y = NaN"
| "fl_add rnd x NaN = NaN"

definition fl_sub :: "(rat \<Rightarrow> fl) \<Rightarrow> fl \<Rightarrow> fl \<Rightarrow> fl" where
  "fl_sub rnd x y = fl_add rnd x (fl_neg y)"

fun fl_mul :: "(rat \<Rightarrow> fl) \<Rightarrow> fl \<Rightarrow> fl \<Rightarrow> fl" where
  "fl_mul rnd (Fin x) (Fin y) = rnd (x * y)"
| "fl_mul rnd (Inf s) (Fin y) = (if y = 0 then NaN else Inf (s \<noteq> (y < 0)))"
| "fl_mul rnd (Fin x) (Inf s) = (if x = 0 then NaN else Inf (s \<noteq> (x < 0)))"
| "fl_mul rnd (Inf s) (Inf t) = Inf (s \<noteq> t)"
| "fl_mul rnd NaN y = NaN"
| "fl_mul rnd x NaN = NaN"

text \<open>A zero divisor counts as the positive zero, the only one the modelled code divides by.\<close>

fun fl_div :: "(rat \<Rightarrow> fl) \<Rightarrow> fl \<Rightarrow> fl \<Rightarrow> fl" where
  "fl_div rnd (Fin x) (Fin y) = (if y = 0 then if x = 0 then NaN else Inf (x < 0) else rnd (x / y))"
| "fl_div rnd (Inf s) (Fin y) = Inf (s \<noteq> (y < 0))"
| "fl_div rnd (Fin x) (Inf s) = Fin 0"
| "fl_div rnd (Inf s) (Inf t) = NaN"
| "fl_div rnd NaN y = NaN"
| "fl_div rnd x NaN = NaN"

text \<open>
  The square root is correctly rounded: the integer square root of the argument, scaled to the
  grid of the result, and a comparison with the midpoint decide the last bit.
\<close>

fun isqrt :: "nat \<Rightarrow> nat" where
  "isqrt n = (if n = 0 then 0
              else let r = 2 * isqrt (n div 4) in if (r + 1) ^ 2 \<le> n then r + 1 else r)"

declare isqrt.simps [simp del]

definition rat_sqrt_round :: "nat \<Rightarrow> int \<Rightarrow> rat \<Rightarrow> rat" where
  "rat_sqrt_round p emin x =
     (if x \<le> 0 then 0
      else let q = max (ilog2 x div 2 - int p + 1) emin;
               y = x / (pow2 q * pow2 q);
               m = int (isqrt (nat \<lfloor>y\<rfloor>));
               mid = (of_int m + 1 / 2) * (of_int m + 1 / 2);
               k = (if y < mid then m else if mid < y then m + 1 else if even m then m else m + 1)
           in of_int k * pow2 q)"

fun f32_sqrt :: "fl \<Rightarrow> fl" where
  "f32_sqrt NaN = NaN"
| "f32_sqrt (Inf s) = (if s then NaN else Inf False)"
| "f32_sqrt (Fin x) = (if x < 0 then NaN else Fin (rat_sqrt_round 24 (- 149) x))"

text \<open>Comparisons are false on a NaN.\<close>

fun fl_less :: "fl \<Rightarrow> fl \<Rightarrow> bool" where
  "fl_less (Fin x) (Fin y) = (x < y)"
| "fl_less (Inf s) (Fin y) = s"
| "fl_less (Fin x) (Inf s) = (\<not> s)"
| "fl_less (Inf s) (Inf t) = (s \<and> \<not> t)"
| "fl_less NaN y = False"
| "fl_less x NaN = False"

fun fl_le :: "fl \<Rightarrow> fl \<Rightarrow> bool" where
  "fl_le (Fin x) (Fin y) = (x \<le> y)"
| "fl_le (Inf s) (Fin y) = s"
| "fl_le (Fin x) (Inf s) = (\<not> s)"
| "fl_le (Inf s) (Inf t) = (s \<or> \<not> t)"
| "fl_le NaN y = False"
| "fl_le x NaN = False"

text \<open>\<open>f64::max\<close> returns the other argument when one is a NaN; \<open>f64::clamp\<close> keeps a NaN.\<close>

definition fl_max :: "fl \<Rightarrow> fl \<Rightarrow> fl" where
  "fl_max x y = (if x = NaN then y else if y = NaN then x else if fl_less x y then y else x)"

definition fl_min :: "fl \<Rightarrow> fl \<Rightarrow> fl" where
  "fl_min x y = (if x = NaN then y else if y = NaN then x else if fl_less y x then y else x)"

definition fl_clamp :: "fl \<Rightarrow> fl \<Rightarrow> fl \<Rightarrow> fl" where
  "fl_clamp lo hi x = (if fl_less x lo then lo else if fl_less hi x then hi else x)"

fun fl_is_finite :: "fl \<Rightarrow> bool" where
  "fl_is_finite (Fin x) = True"
| "fl_is_finite _ = False"

text \<open>\<open>as\<close> casts to an unsigned integer truncate, saturate at both ends and send a NaN to 0.\<close>

fun fl_to_unsigned :: "nat \<Rightarrow> fl \<Rightarrow> nat" where
  "fl_to_unsigned bound NaN = 0"
| "fl_to_unsigned bound (Inf s) = (if s then 0 else bound)"
| "fl_to_unsigned bound (Fin x) = (if x \<le> 0 then 0 else min bound (nat \<lfloor>x\<rfloor>))"

definition nat_to_f64 :: "nat \<Rightarrow> fl" where
  "nat_to_f64 n = r64 (of_nat n)"

subsection \<open>The contract of a rounding\<close>

locale monotone_rounding =
  fixes rnd :: "rat \<Rightarrow> fl" and bound :: nat
  assumes rnd_zero: "rnd 0 = Fin 0"
    and rnd_nonneg: "0 \<le> x \<Longrightarrow> fl_le (Fin 0) (rnd x)"
    and rnd_mono: "x \<le> y \<Longrightarrow> fl_le (rnd x) (rnd y)"
    and rnd_int_exact: "n \<le> bound \<Longrightarrow> rnd (of_nat n) = Fin (of_nat n)"
begin

lemma rnd_nonneg_cases:
  assumes "0 \<le> x"
  obtains y where "rnd x = Fin y" "0 \<le> y" | "rnd x = Inf False"
  using rnd_nonneg [OF assms] by (cases "rnd x") auto

lemma fl_mul_nonneg:
  assumes "fl_le (Fin 0) x" and "fl_le (Fin 0) y" and "fl_is_finite y"
    and "x = Inf False \<Longrightarrow> y \<noteq> Fin 0"
  shows "fl_le (Fin 0) (fl_mul rnd x y)"
  using assms by (cases x; cases y) (auto intro!: rnd_nonneg)

lemma fl_mul_mono:
  assumes "fl_le (Fin 0) x" and "fl_le x x'" and "fl_le (Fin 0) y" and "fl_le y y'"
    and "fl_is_finite y'" and "x = Inf False \<Longrightarrow> y \<noteq> Fin 0" and "x' = Inf False \<Longrightarrow> y' \<noteq> Fin 0"
  shows "fl_le (fl_mul rnd x y) (fl_mul rnd x' y')"
proof (cases "x' = Inf False")
  case True
  then have "fl_mul rnd x' y' = Inf False"
    using assms by (cases y; cases y') auto
  moreover have "fl_le (Fin 0) (fl_mul rnd x y)"
    using assms by (intro fl_mul_nonneg) (cases y; cases y'; auto)+
  ultimately show ?thesis by (cases "fl_mul rnd x y") auto
next
  case False
  then show ?thesis
    using assms by (cases x; cases x'; cases y; cases y') (auto intro!: rnd_mono mult_mono)
qed

lemma fl_add_mono:
  assumes "fl_le x x'" and "fl_le y y'" and "fl_is_finite x" and "fl_is_finite x'"
    and "fl_is_finite y" and "fl_is_finite y'"
  shows "fl_le (fl_add rnd x y) (fl_add rnd x' y')"
  using assms by (cases x; cases x'; cases y; cases y') (auto intro!: rnd_mono)

lemma fl_mul_nat_exact:
  "a * b \<le> bound \<Longrightarrow> fl_mul rnd (Fin (of_nat a)) (Fin (of_nat b)) = Fin (of_nat (a * b))"
  using rnd_int_exact [of "a * b"] by simp

lemma fl_add_nat_exact:
  "a + b \<le> bound \<Longrightarrow> fl_add rnd (Fin (of_nat a)) (Fin (of_nat b)) = Fin (of_nat (a + b))"
  using rnd_int_exact [of "a + b"] by simp

end

lemma fl_to_unsigned_mono: "fl_le x y \<Longrightarrow> fl_to_unsigned bound x \<le> fl_to_unsigned bound y"
  by (cases x; cases y)
    (auto simp: min_def intro: nat_mono floor_mono dest: order_trans split: if_splits
      intro!: nat_mono [OF floor_mono])

lemma fl_to_unsigned_bound: "fl_to_unsigned bound x \<le> bound"
  by (cases x) auto

lemma fl_to_unsigned_nat [simp]: "fl_to_unsigned bound (Fin (of_nat n)) = min bound n"
  by (cases "n = 0") auto

lemma fl_le_refl [simp]: "fl_le x x \<longleftrightarrow> x \<noteq> NaN"
  by (cases x) auto

lemma fl_le_trans: "fl_le x y \<Longrightarrow> fl_le y z \<Longrightarrow> fl_le x z"
  by (cases x; cases y; cases z) auto

lemma fl_round_mono:
  assumes "x \<le> y" and "0 < p" and "0 \<le> emax"
  shows "fl_le (fl_round p emin emax x) (fl_round p emin emax y)"
proof -
  have r: "rat_round p emin x \<le> rat_round p emin y" using assms by (intro rat_round_mono)
  have pos: "0 < pow2 emax" by simp
  have sx: "x < 0 \<Longrightarrow> rat_round p emin x \<le> 0" and sx': "\<not> x < 0 \<Longrightarrow> 0 \<le> rat_round p emin x"
    by (auto intro: rat_round_sign)
  have sy: "y < 0 \<Longrightarrow> rat_round p emin y \<le> 0" and sy': "\<not> y < 0 \<Longrightarrow> 0 \<le> rat_round p emin y"
    by (auto intro: rat_round_sign)
  show ?thesis
  proof (cases "x < 0")
    case True
    then show ?thesis using r pos sx sy sy'
      by (auto simp: fl_round_def Let_def abs_if split: if_splits)
  next
    case False
    then have "\<not> y < 0" using assms(1) by simp
    then show ?thesis using False r pos sx' sy'
      by (auto simp: fl_round_def Let_def abs_if split: if_splits)
  qed
qed

lemma fl_round_exact:
  assumes "\<bar>m\<bar> < 2 ^ p" and "emin \<le> 0" and "int p \<le> emax"
  shows "fl_round p emin emax (of_int m) = Fin (of_int m)"
proof -
  have "(of_int \<bar>m\<bar> :: rat) < of_int (2 ^ p)" using assms(1) by (simp only: of_int_less_iff)
  also have "\<dots> = pow2 (int p)" by (simp add: pow2_nat)
  also have "\<dots> \<le> pow2 emax" using assms(3) by (rule pow2_mono)
  finally show ?thesis using assms by (simp add: fl_round_def rat_round_int_exact)
qed

lemma fl_round_rounding:
  assumes "0 < p" and "emin \<le> 0" and "int p \<le> emax"
  shows "monotone_rounding (fl_round p emin emax) (2 ^ p - 1)"
proof
  show z: "fl_round p emin emax 0 = Fin 0" by (simp add: fl_round_def not_le)
  show "x \<le> y \<Longrightarrow> fl_le (fl_round p emin emax x) (fl_round p emin emax y)" for x y
    using assms by (intro fl_round_mono) auto
  then show "0 \<le> x \<Longrightarrow> fl_le (Fin 0) (fl_round p emin emax x)" for x
    using z by metis
  fix n :: nat
  assume "n \<le> 2 ^ p - 1"
  moreover have "0 < (2::nat) ^ p" by simp
  ultimately have "n < 2 ^ p" by linarith
  then have "int n < int (2 ^ p)" by (simp only: of_nat_less_iff)
  then have "int n < 2 ^ p" by simp
  then show "fl_round p emin emax (of_nat n) = Fin (of_nat n)"
    using assms fl_round_exact [of "int n" p emin emax] by simp
qed

interpretation f64: monotone_rounding r64 "2 ^ 53 - 1"
  unfolding r64_def by (rule fl_round_rounding) auto

interpretation f32: monotone_rounding r32 "2 ^ 24 - 1"
  unfolding r32_def by (rule fl_round_rounding) auto

lemma nat_to_f64_exact [float_simps]: "n < 2 ^ 53 \<Longrightarrow> nat_to_f64 n = Fin (of_nat n)"
  using f64.rnd_int_exact [of n] by (simp add: nat_to_f64_def)

lemma nat_to_f64_mono: "m \<le> n \<Longrightarrow> fl_le (nat_to_f64 m) (nat_to_f64 n)"
  by (simp add: nat_to_f64_def f64.rnd_mono)

text \<open>Every \<open>u128\<close> is far below the overflow threshold of an \<open>f64\<close>.\<close>

lemma nat_to_f64_finite:
  assumes "n \<le> 2 ^ 128"
  shows "fl_is_finite (nat_to_f64 n)" and "fl_le (Fin 0) (nat_to_f64 n)"
proof -
  have "r64 (2 ^ 128) = Fin (2 ^ 128)"
  proof -
    have "rat_round 53 (- 1074) (of_int 1 * pow2 128) = of_int 1 * pow2 128"
      by (intro rat_round_exact) auto
    moreover have "pow2 128 < pow2 1024" by (simp add: pow2_less_iff)
    ultimately show ?thesis by (simp add: r64_def fl_round_def pow2_nat)
  qed
  moreover have "fl_le (r64 (of_nat n)) (r64 (2 ^ 128))"
  proof (rule f64.rnd_mono)
    have "(of_nat n :: rat) \<le> of_nat (2 ^ 128)" using assms by (simp only: of_nat_le_iff)
    then show "(of_nat n :: rat) \<le> 2 ^ 128" by simp
  qed
  moreover have nn: "fl_le (Fin 0) (r64 (of_nat n))" by (rule f64.rnd_nonneg) simp
  ultimately show "fl_is_finite (nat_to_f64 n)"
    by (cases "r64 (of_nat n)") (auto simp: nat_to_f64_def)
  show "fl_le (Fin 0) (nat_to_f64 n)" using nn by (simp add: nat_to_f64_def)
qed

text \<open>\<open>clamp\<close> lands in the interval unless its argument is a NaN, which it returns.\<close>

lemma fl_clamp_range:
  assumes "lo \<le> hi"
  shows "fl_clamp (Fin lo) (Fin hi) x = NaN \<and> x = NaN \<or>
         (\<exists>v. fl_clamp (Fin lo) (Fin hi) x = Fin v \<and> lo \<le> v \<and> v \<le> hi)"
  using assms by (cases x) (auto simp: fl_clamp_def)

section \<open>Square roots\<close>

lemma isqrt_bounds: "isqrt n ^ 2 \<le> n \<and> n < (isqrt n + 1) ^ 2"
proof (induction n rule: isqrt.induct)
  case (1 n)
  show ?case
  proof (cases "n = 0")
    case True
    then show ?thesis by (simp add: isqrt.simps [of 0])
  next
    case False
    define r where "r = isqrt (n div 4)"
    have "r ^ 2 \<le> n div 4" "n div 4 < (r + 1) ^ 2" using 1 False by (auto simp: r_def)
    then have "4 * r ^ 2 \<le> n" "n < 4 * (r + 1) ^ 2" by linarith+
    then have "(2 * r) ^ 2 \<le> n" "n < (2 * r + 2) ^ 2" by (simp_all add: power2_eq_square)
    then show ?thesis using False
      by (auto simp: isqrt.simps [of n] Let_def r_def [symmetric] numeral_2_eq_2 simp del: power_Suc)
  qed
qed

text \<open>The rounded root is never negative, and positive above the square of the smallest value.\<close>

lemma rat_sqrt_round_nonneg: "0 \<le> rat_sqrt_round p emin x"
proof -
  have pick: "0 \<le> (if A then m else if B then m + 1 else if C then m else m + 1)"
    if "0 \<le> m" for A B C and m :: int
    using that by simp
  show ?thesis
  proof (cases "x \<le> 0")
    case True
    then show ?thesis by (simp add: rat_sqrt_round_def)
  next
    case False
    then show ?thesis unfolding rat_sqrt_round_def Let_def if_not_P [OF False]
      by (intro mult_nonneg_nonneg pow2_nonneg) (simp only: of_int_0_le_iff pick of_nat_0_le_iff)
  qed
qed

lemma rat_sqrt_round_pos:
  assumes "0 < x" and "pow2 (2 * emin) \<le> x"  and "0 < p"
  shows "0 < rat_sqrt_round p emin x"
proof -
  define q where "q = max (ilog2 x div 2 - int p + 1) emin"
  have "2 * q \<le> ilog2 x \<or> q = emin" using assms(3) unfolding q_def max_def by auto
  then have "pow2 (2 * q) \<le> x"
    using assms(2) ilog2_bounds(1) [OF assms(1)] pow2_mono order_trans by blast
  then have "1 \<le> x / (pow2 q * pow2 q)" by (simp add: pow2_add [symmetric])
  then have "1 \<le> \<lfloor>x / (pow2 q * pow2 q)\<rfloor>" by (simp only: le_floor_iff of_int_1)
  then have "1 \<le> nat \<lfloor>x / (pow2 q * pow2 q)\<rfloor>" by (simp only: le_nat_iff of_nat_1)
  then have "1 < (isqrt (nat \<lfloor>x / (pow2 q * pow2 q)\<rfloor>) + 1) ^ 2"
    using isqrt_bounds [of "nat \<lfloor>x / (pow2 q * pow2 q)\<rfloor>"] by linarith
  then have "0 < isqrt (nat \<lfloor>x / (pow2 q * pow2 q)\<rfloor>)" by (rule contrapos_pp) simp
  then have "0 < int (isqrt (nat \<lfloor>x / (pow2 q * pow2 q)\<rfloor>))" by (simp only: of_nat_0_less_iff)
  moreover have pick: "0 < (if A then m else if B then m + 1 else if C then m else m + 1)"
    if "0 < m" for A B C and m :: int
    using that by simp
  moreover have "\<not> x \<le> 0" using assms(1) by simp
  ultimately show ?thesis unfolding rat_sqrt_round_def Let_def q_def [symmetric]
    by (simp only: if_False of_int_0_less_iff zero_less_mult_iff pow2_pos simp_thms)
qed

end
