(* ===== verification/Binpack.thy ===== *)
theory Binpack
  imports Rust_Float
begin

text \<open>
  The bin-packer of \<open>src/binpack.rs\<close>: the quadratic cost model of a \<open>session.run()\<close> call and the
  length-sorted greedy partition of a batch into chunks.

  Three groups of facts. The cost model is monotone in the batch size and in the padded length for
  every coefficient pair that is finite and not negative, and exact on the conservative defaults
  for the sizes the server admits. The packer returns a partition of the input indices, in
  ascending length, whose chunks fit the budget unless they are single texts. And when the budget
  is monotone and every single text fits, no partition of the batch into fitting chunks has fewer
  chunks: the greedy choice is optimal.
\<close>

section \<open>The cost model\<close>

record cost_model =
  cm_a :: fl
  cm_b :: fl
  max_workspace_bytes :: nat

definition CONSERVATIVE_A :: fl where "CONSERVATIVE_A = Fin 16384"

definition CONSERVATIVE_B :: fl where "CONSERVATIVE_B = Fin 8"

definition DEFAULT_MAX_WORKSPACE :: nat where "DEFAULT_MAX_WORKSPACE = 2 * 1024 * 1024 * 1024"

definition conservative :: "nat \<Rightarrow> cost_model" where
  "conservative w = \<lparr>cm_a = CONSERVATIVE_A, cm_b = CONSERVATIVE_B, max_workspace_bytes = w\<rparr>"

text \<open>
  The product \<open>count * max_seq\<close> is taken in \<open>u128\<close> and cannot overflow for two \<open>usize\<close> factors; each
  term is computed in \<open>f64\<close> and cast back with saturation.
\<close>

definition chunk_cost :: "cost_model \<Rightarrow> nat \<Rightarrow> nat \<Rightarrow> nat" where
  "chunk_cost cm cnt max_seq =
     (let n = cnt * max_seq;
          linear = fl_to_unsigned u128_max (fl_mul r64 (cm_a cm) (nat_to_f64 n));
          quad = fl_to_unsigned u128_max
                   (fl_mul r64 (fl_mul r64 (cm_b cm) (nat_to_f64 n)) (nat_to_f64 max_seq))
      in sat_add u128_max linear quad)"

definition fits :: "cost_model \<Rightarrow> nat \<Rightarrow> nat \<Rightarrow> bool" where
  "fits cm cnt max_seq \<longleftrightarrow> chunk_cost cm cnt max_seq \<le> max_workspace_bytes cm"

section \<open>The packer\<close>

text \<open>
  The loop state is the list of finished chunks, the current chunk and its longest sequence.
  \<open>sort_unstable_by_key\<close> may order equal lengths in any way: the loop is a function of the order
  it is given, and the facts below hold for every order that sorts the lengths.
\<close>

type_synonym pack_state = "nat list list \<times> nat list \<times> nat"

fun pack_step :: "cost_model \<Rightarrow> nat list \<Rightarrow> pack_state \<Rightarrow> nat \<Rightarrow> pack_state" where
  "pack_step cm seq_lengths (chunks, current, current_max_seq) idx =
     (let seq = seq_lengths ! idx;
          new_max = max current_max_seq seq;
          new_count = length current + 1
      in if current = [] \<or> fits cm new_count new_max
         then (chunks, current @ [idx], new_max)
         else (chunks @ [current], [idx], seq))"

fun pack_finish :: "pack_state \<Rightarrow> nat list list" where
  "pack_finish (chunks, current, current_max_seq) =
     (if current \<noteq> [] then chunks @ [current] else chunks)"

definition pack_order :: "cost_model \<Rightarrow> nat list \<Rightarrow> nat list \<Rightarrow> nat list list" where
  "pack_order cm seq_lengths order =
     pack_finish (foldl (pack_step cm seq_lengths) ([], [], 0) order)"

definition sorted_indices :: "nat list \<Rightarrow> nat list" where
  "sorted_indices seq_lengths = sort_key (\<lambda>i. seq_lengths ! i) [0..<length seq_lengths]"

definition bin_pack :: "nat list \<Rightarrow> cost_model \<Rightarrow> nat list list" where
  "bin_pack seq_lengths cm =
     (if seq_lengths = [] then [] else pack_order cm seq_lengths (sorted_indices seq_lengths))"

section \<open>Facts about the cost\<close>

definition wf_cost_model :: "cost_model \<Rightarrow> bool" where
  "wf_cost_model cm \<longleftrightarrow>
     fl_is_finite (cm_a cm) \<and> fl_le (Fin 0) (cm_a cm) \<and>
     fl_is_finite (cm_b cm) \<and> fl_le (Fin 0) (cm_b cm)"

lemma wf_conservative [simp]: "wf_cost_model (conservative w)"
  by (simp add: wf_cost_model_def conservative_def CONSERVATIVE_A_def CONSERVATIVE_B_def)

lemma usize_product_bound:
  assumes "c \<le> usize_max" and "s \<le> usize_max"
  shows "c * s \<le> 2 ^ 128"
proof -
  have "c * s \<le> 2 ^ 64 * 2 ^ 64" using assms by (intro mult_le_mono) (auto simp: usize_max_def)
  then show ?thesis by simp
qed

lemma quad_not_nan:
  assumes "fl_is_finite b" and "fl_mul r64 b (nat_to_f64 (c * s)) = Inf False"
  shows "nat_to_f64 s \<noteq> Fin 0"
proof
  assume "nat_to_f64 s = Fin 0"
  moreover have "0 < s \<Longrightarrow> fl_le (nat_to_f64 1) (nat_to_f64 s)" by (intro nat_to_f64_mono) simp
  moreover have "nat_to_f64 1 = Fin 1" using nat_to_f64_exact [of 1] by simp
  ultimately have "s = 0" by (cases "s = 0") auto
  then have "nat_to_f64 (c * s) = Fin 0" using nat_to_f64_exact [of 0] by simp
  then show False using assms f64.rnd_zero by (cases b) auto
qed

theorem chunk_cost_mono:
  assumes wf: "wf_cost_model cm" and c: "c \<le> c'" "c' \<le> usize_max" and s: "s \<le> s'" "s' \<le> usize_max"
  shows "chunk_cost cm c s \<le> chunk_cost cm c' s'"
proof -
  have n: "c * s \<le> c' * s'" "c' * s' \<le> 2 ^ 128" "c * s \<le> 2 ^ 128"
    using c s usize_product_bound [of c' s'] by (auto intro: mult_le_mono order_trans)
  have fin: "fl_is_finite (nat_to_f64 (c' * s'))" "fl_le (Fin 0) (nat_to_f64 (c * s))"
      "fl_le (Fin 0) (nat_to_f64 (c' * s'))"
    using n by (auto intro: nat_to_f64_finite)
  have "s' \<le> 2 ^ 128" "s \<le> 2 ^ 128" using s by (auto simp: usize_max_def)
  then have fins: "fl_is_finite (nat_to_f64 s')" "fl_le (Fin 0) (nat_to_f64 s)"
    by (auto intro: nat_to_f64_finite)
  have coeff: "fl_is_finite (cm_a cm)" "fl_le (Fin 0) (cm_a cm)"
      "fl_is_finite (cm_b cm)" "fl_le (Fin 0) (cm_b cm)"
    using wf by (auto simp: wf_cost_model_def)
  have mul: "fl_le (fl_mul r64 k (nat_to_f64 (c * s))) (fl_mul r64 k (nat_to_f64 (c' * s')))"
    if "fl_is_finite k" "fl_le (Fin 0) k" for k
    using that fin n by (intro f64.fl_mul_mono nat_to_f64_mono) (cases k; auto)+
  have nn: "fl_le (Fin 0) (fl_mul r64 (cm_b cm) (nat_to_f64 (c * s)))"
    using coeff fin n by (intro f64.fl_mul_nonneg nat_to_f64_finite) (cases "cm_b cm"; auto)+
  have "fl_le (fl_mul r64 (fl_mul r64 (cm_b cm) (nat_to_f64 (c * s))) (nat_to_f64 s))
      (fl_mul r64 (fl_mul r64 (cm_b cm) (nat_to_f64 (c' * s'))) (nat_to_f64 s'))"
    using coeff s
    by (intro f64.fl_mul_mono [OF nn mul fins(2) _ fins(1)] nat_to_f64_mono quad_not_nan) auto
  then show ?thesis using mul [of "cm_a cm"] coeff
    by (simp add: chunk_cost_def Let_def sat_add_mono fl_to_unsigned_mono)
qed

lemma fits_antimono:
  assumes "wf_cost_model cm" and "c \<le> c'" "c' \<le> usize_max" and "s \<le> s'" "s' \<le> usize_max"
    and "fits cm c' s'"
  shows "fits cm c s"
  using chunk_cost_mono [OF assms(1-5)] assms(6) by (simp add: fits_def)

text \<open>On the conservative defaults the float computation is exact for every size below \<open>2 ^ 53\<close>.\<close>

lemma chunk_cost_conservative:
  assumes "16384 * (c * s) < 2 ^ 53" and "8 * (c * s) * s < 2 ^ 53"
  shows "chunk_cost (conservative w) c s = 16384 * (c * s) + 8 * (c * s) * s"
proof (cases "s = 0")
  case True
  then show ?thesis
    using nat_to_f64_exact [of 0] f64.rnd_zero
    by (simp add: chunk_cost_def conservative_def CONSERVATIVE_A_def CONSERVATIVE_B_def sat_add_def)
next
  case False
  have le1: "c * s \<le> 8 * (c * s) * s" "8 * (c * s) \<le> 8 * (c * s) * s" using False by auto
  have n: "nat_to_f64 (c * s) = Fin (of_nat (c * s))"
    using le1 assms(2) by (intro nat_to_f64_exact) linarith
  have lin: "fl_mul r64 (Fin 16384) (Fin (of_nat (c * s))) = Fin (of_nat (16384 * (c * s)))"
    using f64.fl_mul_nat_exact [of 16384 "c * s"] assms(1) by simp
  have quad: "fl_mul r64 (Fin 8) (Fin (of_nat (c * s))) = Fin (of_nat (8 * (c * s)))"
  proof -
    have "8 * (c * s) \<le> 2 ^ 53 - 1" using assms(2) le1(2) by linarith
    then show ?thesis using f64.fl_mul_nat_exact [of 8 "c * s"] by simp
  qed
  show ?thesis
  proof (cases "c = 0")
    case True
    then show ?thesis
      using nat_to_f64_exact [of 0] f64.rnd_zero 
      by (cases "nat_to_f64 s")
        (auto simp: chunk_cost_def conservative_def CONSERVATIVE_A_def CONSERVATIVE_B_def sat_add_def)
  next
    case False
    have "s \<le> 8 * (c * s) * s" using False by simp
    then have s: "nat_to_f64 s = Fin (of_nat s)"
      using assms(2) by (intro nat_to_f64_exact) linarith
    have quad2: "fl_mul r64 (Fin (of_nat (8 * (c * s)))) (Fin (of_nat s)) = Fin (of_nat (8 * (c * s) * s))"
      using f64.fl_mul_nat_exact [of "8 * (c * s)" s] assms(2) by simp
    show ?thesis
      using assms
      by (simp only: chunk_cost_def conservative_def CONSERVATIVE_A_def CONSERVATIVE_B_def Let_def
          cost_model.select_convs n s lin quad quad2 fl_to_unsigned_nat)
        (simp add: u128_max_def sat_add_def)
  qed
qed

section \<open>Facts about the packer\<close>

text \<open>The padded length of a chunk: the longest sequence in it.\<close>

definition chunk_seq :: "nat list \<Rightarrow> nat list \<Rightarrow> nat" where
  "chunk_seq seq_lens chunk =
     (case list_max (map (\<lambda>i. seq_lens ! i) chunk) of None \<Rightarrow> 0 | Some m \<Rightarrow> m)"

lemma chunk_seq_Max: "chunk_seq lens chunk = Max (insert 0 ((\<lambda>i. lens ! i) ` set chunk))"
  by (cases "chunk = []") (auto simp: chunk_seq_def list_max_eq_Max split: option.splits)

lemma chunk_seq_Nil [simp]: "chunk_seq lens [] = 0"
  by (simp add: chunk_seq_def)

lemma chunk_seq_snoc [simp]: "chunk_seq lens (c @ [i]) = max (chunk_seq lens c) (lens ! i)"
  by (simp add: chunk_seq_Max insert_commute [of 0] max.commute)

lemma chunk_seq_single [simp]: "chunk_seq lens [i] = lens ! i"
  using chunk_seq_snoc [of lens "[]" i] by simp

lemma chunk_seq_ge [intro]: "i \<in> set c \<Longrightarrow> lens ! i \<le> chunk_seq lens c"
  by (simp add: chunk_seq_Max)

lemma chunk_seq_le: "(\<And>i. i \<in> set c \<Longrightarrow> lens ! i \<le> m) \<Longrightarrow> chunk_seq lens c \<le> m"
  by (simp add: chunk_seq_Max)

lemma chunk_seq_in: "c \<noteq> [] \<Longrightarrow> \<exists>i\<in>set c. chunk_seq lens c = lens ! i"
  using list_max_Some(1) [of "map (\<lambda>i. lens ! i) c"]
  by (auto simp: chunk_seq_def split: option.splits)

definition chunk_ok :: "cost_model \<Rightarrow> nat list \<Rightarrow> nat list \<Rightarrow> bool" where
  "chunk_ok cm lens c \<longleftrightarrow> length c = 1 \<or> fits cm (length c) (chunk_seq lens c)"

text \<open>A chunk is closed only when the first text of the next one would have broken the budget.\<close>

definition closed_before :: "cost_model \<Rightarrow> nat list \<Rightarrow> nat list \<Rightarrow> nat list \<Rightarrow> bool" where
  "closed_before cm lens c c' \<longleftrightarrow> \<not> fits cm (length c + 1) (chunk_seq lens (c @ [hd c']))"

definition packed :: "cost_model \<Rightarrow> nat list \<Rightarrow> nat list \<Rightarrow> nat list list \<Rightarrow> bool" where
  "packed cm lens order chunks \<longleftrightarrow>
     concat chunks = order \<and> (\<forall>c\<in>set chunks. c \<noteq> [] \<and> chunk_ok cm lens c) \<and>
     successively (closed_before cm lens) chunks"

lemma packed_snoc:
  "packed cm lens order (chunks @ [c]) \<longleftrightarrow>
     (\<exists>order'. order = order' @ c \<and> packed cm lens order' chunks) \<and> c \<noteq> [] \<and> chunk_ok cm lens c \<and>
     (chunks \<noteq> [] \<longrightarrow> closed_before cm lens (last chunks) c)"
  by (auto simp: packed_def successively_append_iff)

fun pack_inv :: "cost_model \<Rightarrow> nat list \<Rightarrow> nat list \<Rightarrow> pack_state \<Rightarrow> bool" where
  "pack_inv cm lens order (chunks, cur, m) \<longleftrightarrow>
     m = chunk_seq lens cur \<and>
     (if cur = [] then chunks = [] \<and> order = [] else packed cm lens order (chunks @ [cur]))"

lemma pack_step_inv:
  assumes "pack_inv cm lens order st"
  shows "pack_inv cm lens (order @ [i]) (pack_step cm lens st i)"
proof (cases st)
  case (fields chunks cur m)
  show ?thesis
  proof (cases "cur = []")
    case True
    then show ?thesis using assms fields by (simp add: packed_def chunk_ok_def)
  next
    case False
    then have p: "packed cm lens order (chunks @ [cur])" and m: "m = chunk_seq lens cur"
      using assms fields by auto
    show ?thesis
    proof (cases "fits cm (length cur + 1) (max m (lens ! i))")
      case True
      have "packed cm lens (order @ [i]) (chunks @ [cur @ [i]])"
        using p True m False unfolding packed_snoc
        by (auto simp: chunk_ok_def closed_before_def)
      then show ?thesis using True False fields m by simp
    next
      case nofit: False
      have "packed cm lens (order @ [i]) ((chunks @ [cur]) @ [[i]])"
        unfolding packed_snoc [of _ _ _ "chunks @ [cur]"] using p nofit m
        by (auto simp: chunk_ok_def closed_before_def)
      then show ?thesis using nofit False fields by simp
    qed
  qed
qed

lemma pack_loop_inv:
  "pack_inv cm lens order st \<Longrightarrow> pack_inv cm lens (order @ xs) (foldl (pack_step cm lens) st xs)"
proof (induction xs arbitrary: order st)
  case (Cons x xs)
  then have "pack_inv cm lens (order @ [x]) (pack_step cm lens st x)"
    by (intro pack_step_inv)
  then show ?case using Cons.IH [of "order @ [x]"] by simp
qed simp

text \<open>The chunks concatenate to the order they were packed in; every chunk is a single text or fits.\<close>

lemma pack_order_packed: "packed cm lens order (pack_order cm lens order)"
proof -
  have "pack_inv cm lens ([] @ order) (foldl (pack_step cm lens) ([], [], 0) order)"
    by (rule pack_loop_inv) simp
  then show ?thesis
    by (cases "foldl (pack_step cm lens) ([], [], 0) order")
      (auto simp: pack_order_def packed_def split: if_splits)
qed

lemma sorted_indices_mset: "mset (sorted_indices lens) = mset [0..<length lens]"
  by (simp add: sorted_indices_def)

lemma sorted_indices_sorted: "sorted (map (\<lambda>i. lens ! i) (sorted_indices lens))"
  by (simp add: sorted_indices_def)

lemma bin_pack_packed: "packed cm lens (sorted_indices lens) (bin_pack lens cm)"
  using pack_order_packed [of cm lens "sorted_indices lens"]
  by (auto simp: bin_pack_def packed_def sorted_indices_def)

lemma bin_pack_concat [pack_simps]: "concat (bin_pack lens cm) = sorted_indices lens"
  using bin_pack_packed [of cm lens] by (simp add: packed_def)

lemma bin_pack_nonempty [pack_simps]: "c \<in> set (bin_pack lens cm) \<Longrightarrow> c \<noteq> []"
  using bin_pack_packed [of cm lens] by (auto simp: packed_def)

subsection \<open>The contract its clients use\<close>

text \<open>
  The inference pipelines rely on one thing: the chunks hold every input index exactly once. Every
  packer with this property gives them a complete output.
\<close>

locale chunking =
  fixes pack :: "nat list \<Rightarrow> nat list list"
  assumes pack_mset: "mset (concat (pack lens)) = mset [0..<length lens]"
    and pack_nonempty: "c \<in> set (pack lens) \<Longrightarrow> c \<noteq> []"
begin

lemma pack_distinct: "distinct (concat (pack lens))"
  by (rule mset_eq_upt_distinct [OF pack_mset])

lemma pack_set: "set (concat (pack lens)) = {0..<length lens}"
  by (rule mset_eq_upt_distinct [OF pack_mset])

lemma pack_bound: "c \<in> set (pack lens) \<Longrightarrow> i \<in> set c \<Longrightarrow> i < length lens"
  using pack_set [of lens] by auto

lemma pack_covers: "i < length lens \<Longrightarrow> \<exists>c\<in>set (pack lens). i \<in> set c"
  using pack_set [of lens] by (auto simp: set_eq_iff)

lemma pack_length: "length (pack lens) \<le> length lens"
proof -
  have "length xss \<le> length (concat xss)" if "\<forall>c\<in>set xss. c \<noteq> []" for xss :: "nat list list"
    using that by (induction xss) (auto simp: neq_Nil_conv)
  moreover have "length (concat (pack lens)) = length lens"
    using pack_mset [of lens] by (metis length_upt minus_nat.diff_0 size_mset)
  ultimately show ?thesis using pack_nonempty by metis
qed

end

interpretation bp: chunking "\<lambda>lens. bin_pack lens cm" for cm
  by unfold_locales
    (simp_all only: bin_pack_concat sorted_indices_mset bin_pack_nonempty not_False_eq_True)

section \<open>Optimality\<close>

lemma sorted_prefix_bound:
  fixes f :: "'a \<Rightarrow> nat"
  assumes "mset ps \<subseteq># mset (xs @ y # ys)" and "\<forall>i\<in>set ps. f i < f y"
    and "sorted (map f (xs @ y # ys))"
  shows "length ps \<le> length xs"
proof -
  let ?low = "filter_mset (\<lambda>i. f i < f y)"
  have "?low (mset ps) = mset ps"
    using assms(2) by (auto simp: filter_mset_eq_conv)
  then have "mset ps \<subseteq># ?low (mset (xs @ y # ys))"
    using multiset_filter_mono [OF assms(1)] by metis
  also have "?low (mset (xs @ y # ys)) = ?low (mset xs)"
    using assms(3) by (auto simp: sorted_append filter_mset_eq_conv not_less)
  also have "\<dots> \<subseteq># mset xs" by (rule multiset_filter_subset)
  finally show ?thesis by (metis size_mset size_mset_mono)
qed

lemma chunk_seq_take_le:
  assumes "sorted (map (chunk_seq lens) ps)" and "j < length ps" and "i \<in> set (concat (take (Suc j) ps))"
  shows "lens ! i \<le> chunk_seq lens (ps ! j)"
proof -
  obtain c where c: "c \<in> set (take (Suc j) ps)" "i \<in> set c" using assms(3) by auto
  then obtain k where k: "k \<le> j" "c = ps ! k"
    using assms(2) by (auto simp: in_set_conv_nth [of c] less_Suc_eq_le)
  have "lens ! i \<le> chunk_seq lens (ps ! k)" using c k by auto
  also have "\<dots> \<le> chunk_seq lens (ps ! j)"
    using sorted_nth_mono [OF assms(1), of k j] k assms(2) by simp
  finally show ?thesis .
qed

lemma mset_concat_take: "mset (concat (take n xss)) \<subseteq># mset (concat xss)"
  by (metis append_take_drop_id concat_append mset_append mset_subset_eq_add_left)

text \<open>
  A budget that only gets harder to meet when a text is added or lengthened. The interpretation
  below shows that \<open>fits\<close> is one for every well-formed cost model.
\<close>

locale hereditary_budget =
  fixes fit :: "nat \<Rightarrow> nat \<Rightarrow> bool" and size_limit :: nat
  assumes fit_antimono: "c \<le> c' \<Longrightarrow> s \<le> s' \<Longrightarrow> c' \<le> size_limit \<Longrightarrow> s' \<le> size_limit \<Longrightarrow>
    fit c' s' \<Longrightarrow> fit c s"
begin

text \<open>
  Greedy stays ahead: among the first \<open>j\<close> sets of any partition into fitting sets, listed by their
  longest element, there are at most as many texts as in the first \<open>j\<close> greedy chunks.
\<close>

lemma greedy_stays_ahead:
  fixes lens :: "nat list" and gs ps :: "nat list list"
  assumes gs: "sorted (map (\<lambda>i. lens ! i) (concat gs))" "[] \<notin> set gs"
      "successively (\<lambda>c c'. \<not> fit (length c + 1) (chunk_seq lens (c @ [hd c']))) gs"
    and perm: "mset (concat ps) = mset (concat gs)"
    and ps: "\<And>c. c \<in> set ps \<Longrightarrow> fit (length c) (chunk_seq lens c)"
      "sorted (map (chunk_seq lens) ps)"
    and limit: "length (concat gs) \<le> size_limit" "\<And>c. c \<in> set ps \<Longrightarrow> chunk_seq lens c \<le> size_limit"
    and j: "j \<le> length ps"
  shows "length (concat (take j ps)) \<le> length (concat (take j gs))"
  using j
proof (induction j)
  case (Suc j)
  let ?P = "concat (take (Suc j) ps)" and ?G = "concat (take (Suc j) gs)"
  show ?case
  proof (rule ccontr)
    assume "\<not> length ?P \<le> length ?G"
    then have more: "length ?G < length ?P" by simp
    have "length ?P \<le> length (concat ps)"
      by (metis append_take_drop_id concat_append le_add1 length_append)
    also have "\<dots> = length (concat gs)" using perm by (metis size_mset)
    finally have short: "length ?G < length (concat gs)" using more by simp
    then have jg: "Suc j < length gs" by (metis leI nat_less_le take_all)
    let ?g = "gs ! j" and ?g' = "gs ! Suc j" and ?p = "ps ! j"
    have jp: "j < length ps" using Suc.prems by simp
    have tg: "?G = concat (take j gs) @ ?g" using jg by (simp add: take_Suc_conv_app_nth)
    have tp: "?P = concat (take j ps) @ ?p" using jp by (simp add: take_Suc_conv_app_nth)
    have big: "length ?g + 1 \<le> length ?p" using more Suc by (simp add: tg tp)
    have g'_ne: "?g' \<noteq> []" using gs(2) jg by (metis nth_mem)
    then obtain y ys where g': "?g' = y # ys" by (cases ?g') auto
    define rest where "rest = ys @ concat (drop (Suc (Suc j)) gs)"
    have "concat gs = ?G @ ?g' @ concat (drop (Suc (Suc j)) gs)"
      using jg by (metis Cons_nth_drop_Suc append_take_drop_id concat.simps(2) concat_append)
    then have split: "concat gs = ?G @ y # rest" by (simp add: g' rest_def)
    have first: "lens ! hd ?g' \<le> chunk_seq lens ?p"
    proof (rule ccontr)
      assume "\<not> lens ! hd ?g' \<le> chunk_seq lens ?p"
      then have "\<forall>i\<in>set ?P. lens ! i < lens ! hd ?g'"
        using chunk_seq_take_le [OF ps(2) jp] by fastforce
      then have low: "\<forall>i\<in>set ?P. lens ! i < lens ! y" by (simp add: g')
      have "mset ?P \<subseteq># mset (?G @ y # rest)"
        using perm mset_concat_take [of "Suc j" ps] by (simp only: split)
      then have "length ?P \<le> length ?G"
        using low gs(1) unfolding split by (rule sorted_prefix_bound)
      with more show False by simp
    qed
    have in_p: "?p \<in> set ps" using jp by simp
    have lastg: "chunk_seq lens (?g @ [hd ?g']) \<le> chunk_seq lens ?p"
    proof (rule chunk_seq_le)
      fix i assume "i \<in> set (?g @ [hd ?g'])"
      then have "lens ! i \<le> lens ! hd ?g'"
        using gs(1) unfolding split tg by (auto simp: sorted_append g')
      then show "lens ! i \<le> chunk_seq lens ?p" using first by simp
    qed
    have "length ?p \<le> length (concat ps)" using in_p
      by (metis concat.simps(2) concat_append in_set_conv_decomp le_add1 le_add2 le_trans length_append)
    then have "length ?p \<le> size_limit" using limit perm by (metis le_trans size_mset)
    then have "fit (length ?g + 1) (chunk_seq lens (?g @ [hd ?g']))"
      using fit_antimono [OF big lastg] ps(1) [OF in_p] limit(2) [OF in_p] by simp
    moreover have "\<not> fit (length ?g + 1) (chunk_seq lens (?g @ [hd ?g']))"
      using gs(3) jg by (auto simp: successively_conv_nth)
    ultimately show False by simp
  qed
qed simp

text \<open>So no partition into fitting sets has fewer sets than the greedy one.\<close>

lemma greedy_minimal:
  fixes lens :: "nat list" and gs ps :: "nat list list"
  assumes gs: "sorted (map (\<lambda>i. lens ! i) (concat gs))" "[] \<notin> set gs"
      "successively (\<lambda>c c'. \<not> fit (length c + 1) (chunk_seq lens (c @ [hd c']))) gs"
    and perm: "mset (concat ps) = mset (concat gs)"
    and ps: "\<And>c. c \<in> set ps \<Longrightarrow> fit (length c) (chunk_seq lens c)"
    and limit: "length (concat gs) \<le> size_limit" "\<And>c. c \<in> set ps \<Longrightarrow> chunk_seq lens c \<le> size_limit"
  shows "length gs \<le> length ps"
proof (rule ccontr)
  assume "\<not> length gs \<le> length ps"
  then have lt: "length ps < length gs" by simp
  define qs where "qs = sort_key (chunk_seq lens) ps"
  have q: "length qs = length ps" "set qs = set ps" "sorted (map (chunk_seq lens) qs)"
    by (simp_all add: qs_def)
  have "mset (concat xs) = sum_mset (mset (map mset xs))" for xs :: "nat list list"
    by (simp only: mset_concat sum_mset_sum_list)
  then have pq: "mset (concat qs) = mset (concat gs)" using perm by (simp add: qs_def)
  have "length (concat (take (length qs) qs)) \<le> length (concat (take (length qs) gs))"
    using gs pq ps limit q by (intro greedy_stays_ahead) auto
  then have le: "length (concat gs) \<le> length (concat (take (length ps) gs))"
    using pq q by (metis order_refl size_mset take_all)
  have "concat gs = concat (take (length ps) gs) @ concat (drop (length ps) gs)"
    by (simp flip: concat_append)
  then have "concat (drop (length ps) gs) = []" using le by (metis length_append length_0_conv
      add_le_same_cancel1 le_zero_eq)
  then have "gs ! length ps = []" using lt by (metis Cons_nth_drop_Suc concat.simps(2) append_is_Nil_conv)
  then show False using gs(2) lt by (metis nth_mem)
qed

end

text \<open>Every well-formed cost model is such a budget, for the sizes a \<open>usize\<close> can hold.\<close>

locale sound_cost_model =
  fixes cm :: cost_model
  assumes wf: "wf_cost_model cm"

sublocale sound_cost_model \<subseteq> hereditary_budget "fits cm" usize_max
  by unfold_locales (rule fits_antimono [OF wf])

context sound_cost_model
begin

lemma packed_minimal:
  assumes size: "length lens \<le> usize_max" "\<forall>l\<in>set lens. l \<le> usize_max"
    and order: "mset order = mset [0..<length lens]" "sorted (map (\<lambda>i. lens ! i) order)"
    and packed: "packed cm lens order gs"
    and other: "mset (concat ps) = mset [0..<length lens]"
      "\<forall>c\<in>set ps. fits cm (length c) (chunk_seq lens c)"
  shows "length gs \<le> length ps"
proof (rule greedy_minimal)
  show "length (concat gs) \<le> usize_max"
    using packed order(1) size(1) by (metis length_upt minus_nat.diff_0 packed_def size_mset)
  show "chunk_seq lens c \<le> usize_max" if c: "c \<in> set ps" for c
  proof (rule chunk_seq_le)
    fix i assume "i \<in> set c"
    then have "i < length lens" using c mset_eq_upt_distinct(2) [OF other(1)] by auto
    then show "lens ! i \<le> usize_max" using size(2) by simp
  qed
qed (use packed order other in \<open>auto simp: packed_def closed_before_def\<close>)

end

interpretation conservative: sound_cost_model "conservative w" for w
  by unfold_locales simp

section \<open>Properties\<close>

text \<open>
  Whatever order the unstable sort leaves equal lengths in, packing loses and duplicates
  nothing and keeps that order, no chunk is empty, and every chunk of more than one text fits the
  workspace budget.
\<close>

theorem pack_order_sound:
  "concat (pack_order cm lens order) = order \<and> [] \<notin> set (pack_order cm lens order) \<and>
   list_all (\<lambda>c. length c = 1 \<or> fits cm (length c) (chunk_seq lens c)) (pack_order cm lens order)"
  using pack_order_packed [of cm lens order] by (auto simp: packed_def chunk_ok_def list_all_iff)

text \<open>
  The packer returns a partition of the input positions: every index below the batch size is
  in exactly one chunk, chunks are in ascending sequence length, and there are at most as many
  chunks as texts.
\<close>

theorem bin_pack_partition:
  "mset (concat (bin_pack lens cm)) = mset [0..<length lens] \<and>
   sorted (map (\<lambda>i. lens ! i) (concat (bin_pack lens cm))) \<and>
   length (bin_pack lens cm) \<le> length lens"
  using bp.pack_length
  by (simp only: bin_pack_concat sorted_indices_mset sorted_indices_sorted simp_thms)

text \<open>
  C1: the greedy packing is optimal. For a cost model with finite, non-negative coefficients, no
  partition of the batch into chunks that fit the budget uses fewer \<open>session.run()\<close> calls,
  whichever way the unstable sort orders texts of equal length.
\<close>

theorem pack_order_optimal:
  assumes wf: "wf_cost_model cm"
    and size: "length lens \<le> usize_max" "\<forall>l\<in>set lens. l \<le> usize_max"
    and order: "mset order = mset [0..<length lens]" "sorted (map (\<lambda>i. lens ! i) order)"
    and other: "mset (concat ps) = mset [0..<length lens]"
      "\<forall>c\<in>set ps. fits cm (length c) (chunk_seq lens c)"
  shows "length (pack_order cm lens order) \<le> length ps"
  using size order pack_order_packed other
  by (rule sound_cost_model.packed_minimal [OF sound_cost_model.intro [OF wf]])

theorem pack_order_optimal_witness:
  "length (pack_order (conservative 1000000) [3, 1] [1, 0]) \<le> length [[0::nat, 1]]"
proof (rule pack_order_optimal)
  show "\<forall>c\<in>set [[0, 1]]. fits (conservative 1000000) (length c) (chunk_seq [3, 1] c)"
    by (simp add: chunk_seq_Max fits_def chunk_cost_conservative)
      (simp add: conservative_def)
qed (simp_all add: usize_max_def upt_rec)

text \<open>
  The estimated workspace of a chunk never decreases when a text is added to it or its padded
  length grows, for every cost model whose coefficients are finite and not negative; rounding,
  overflow to infinity and the saturating casts included.
\<close>

theorem chunk_cost_monotone:
  assumes "wf_cost_model cm" and "c \<le> c'" "c' \<le> usize_max" and "s \<le> s'" "s' \<le> usize_max"
  shows "chunk_cost cm c s \<le> chunk_cost cm c' s'"
  using assms by (rule chunk_cost_mono)

theorem chunk_cost_monotone_witness:
  "chunk_cost (conservative 7) 2 3 \<le> chunk_cost (conservative 7) 4 8192"
  by (rule chunk_cost_monotone) (simp_all add: usize_max_def)

text \<open>
  With the conservative coefficients the cost of a chunk is exactly
  \<open>16384 * count * seq + 8 * count * seq * seq\<close> bytes for every admissible request (at most 256
  texts of at most 8192 tokens): no floating-point error reaches the budget decision.
\<close>

theorem chunk_cost_conservative_exact:
  assumes "c \<le> 256" and "s \<le> 8192"
  shows "chunk_cost (conservative w) c s = 16384 * (c * s) + 8 * (c * s) * s"
proof (rule chunk_cost_conservative)
  have n: "c * s \<le> 256 * 8192" using assms by (rule mult_le_mono)
  then show "16384 * (c * s) < 2 ^ 53" by simp
  have "8 * (c * s) * s \<le> 8 * (256 * 8192) * 8192" using n assms by (intro mult_le_mono) auto
  then show "8 * (c * s) * s < 2 ^ 53" by simp
qed

theorem chunk_cost_conservative_exact_witness:
  "chunk_cost (conservative DEFAULT_MAX_WORKSPACE) 16 512 = 167772160"
  using chunk_cost_conservative_exact [of 16 512 DEFAULT_MAX_WORKSPACE] by simp

text \<open>
  Coefficients that are not positive disable the budget. A cost model with negative \<open>a\<close> and \<open>b\<close>
  (which the environment override accepts) prices every chunk at 0 bytes, so every batch becomes
  one chunk, however large.
\<close>

theorem negative_coefficients_disable_budget:
  assumes "cm_a cm = Fin x" "x \<le> 0" and "cm_b cm = Fin y" "y \<le> 0"
    and "c \<le> usize_max" and "s \<le> usize_max"
  shows "chunk_cost cm c s = 0 \<and> fits cm c s"
proof -
  have np: "fl_to_unsigned u128_max (fl_mul r64 (Fin z) v) = 0 \<and>
      (\<exists>z'. fl_mul r64 (Fin z) v = Fin z' \<and> z' \<le> 0 \<or> fl_mul r64 (Fin z) v = Inf True)"
    if z: "z \<le> 0" and v: "v = nat_to_f64 n" and n: "n \<le> 2 ^ 128" for z v n
  proof -
    obtain k where k: "v = Fin k" "0 \<le> k"
      using nat_to_f64_finite [OF n] v by (cases "nat_to_f64 n") auto
    have "fl_le (r64 (z * k)) (r64 0)" using z k by (intro f64.rnd_mono) (simp add: mult_nonpos_nonneg)
    then show ?thesis using f64.rnd_zero k by (cases "r64 (z * k)") auto
  qed
  have n: "c * s \<le> 2 ^ 128" "s \<le> 2 ^ 128"
    using assms usize_product_bound by (auto simp: usize_max_def)
  have lin: "fl_to_unsigned u128_max (fl_mul r64 (cm_a cm) (nat_to_f64 (c * s))) = 0"
    using np [of x _ "c * s"] assms n by simp
  have "fl_to_unsigned u128_max (fl_mul r64 (fl_mul r64 (cm_b cm) (nat_to_f64 (c * s))) (nat_to_f64 s)) = 0"
  proof -
    obtain z' where "fl_mul r64 (cm_b cm) (nat_to_f64 (c * s)) = Fin z' \<and> z' \<le> 0 \<or>
        fl_mul r64 (cm_b cm) (nat_to_f64 (c * s)) = Inf True"
      using np [of y _ "c * s"] assms n by auto
    then show ?thesis using np [of z' _ s] n nat_to_f64_finite [OF n(2)]
      by (cases "nat_to_f64 s") auto
  qed
  then show ?thesis using lin by (simp add: chunk_cost_def fits_def sat_add_def)
qed

theorem negative_coefficients_disable_budget_witness:
  "chunk_cost \<lparr>cm_a = Fin (- 1), cm_b = Fin (- 1), max_workspace_bytes = 0\<rparr> 256 8192 = 0"
  using negative_coefficients_disable_budget
    [of "\<lparr>cm_a = Fin (- 1), cm_b = Fin (- 1), max_workspace_bytes = 0\<rparr>" "- 1" "- 1" 256 8192]
  by (simp add: usize_max_def)

end
