(* ===== verification/Jit_Guard.thy ===== *)
theory Jit_Guard
  imports Binpack
begin

text \<open>
  Errors and the in-band admission guard: the error values of \<open>anyhow\<close> as the sources use them
  (a message, a typed \<open>TrtJitRejection\<close>, or a context wrapped around another error),
  \<open>src/embedder/jit_guard.rs\<close>, the classification of TensorRT errors of
  \<open>src/embedder/worker/trt_retry.rs\<close> and the HTTP mapping of \<open>src/error.rs\<close>.

  The guard refuses a request exactly when one of its chunks is at or above the danger threshold
  and longer than anything the pool has warmed. A refusal keeps its identity through any number of
  contexts: it is answered 503, is never taken for an out-of-memory retry or a fatal engine build.
\<close>

section \<open>Errors\<close>

record rejection =
  rej_batch :: nat
  rej_seq :: nat
  rej_guard_seq :: nat
  rej_warmed_seq_ceiling :: nat

datatype any_error = Msg string | Rejection rejection | Context string any_error

text \<open>A call fails with an error value, or panics, which ends the process (the release profile aborts).\<close>

datatype failure = Panic | Err any_error

text \<open>\<open>Display\<close> of a rejection, the plain and the alternate rendering of an error, its cause chain.\<close>

definition show_rejection :: "rejection \<Rightarrow> string" where
  "show_rejection r =
     ''refusing in-band TensorRT JIT for chunk (batch='' @ show_nat (rej_batch r) @ '', seq='' @
     show_nat (rej_seq r) @ ''): seq is at/above the guard threshold ('' @ show_nat (rej_guard_seq r) @
     '') and exceeds the pool's warmed engine coverage (max warmed seq='' @
     show_nat (rej_warmed_seq_ceiling r) @
     ''). Issuing this run risks a pathological autotuner allocation that can crash the worker. '' @
     ''The request is retriable once warmup coverage extends.''"

fun show_error :: "any_error \<Rightarrow> string" where
  "show_error (Msg s) = s"
| "show_error (Rejection r) = show_rejection r"
| "show_error (Context c e) = c"

fun show_error_alt :: "any_error \<Rightarrow> string" where
  "show_error_alt (Msg s) = s"
| "show_error_alt (Rejection r) = show_rejection r"
| "show_error_alt (Context c e) = c @ '': '' @ show_error_alt e"

fun error_chain :: "any_error \<Rightarrow> any_error list" where
  "error_chain (Context c e) = Context c e # error_chain e"
| "error_chain e = [e]"

fun is_rejection :: "any_error \<Rightarrow> bool" where
  "is_rejection (Rejection r) = True"
| "is_rejection _ = False"

definition is_trt_shape_rejected :: "any_error \<Rightarrow> bool" where
  "is_trt_shape_rejected err \<longleftrightarrow> list_ex is_rejection (error_chain err)"

section \<open>The guard\<close>

record jit_guard =
  guard_seq :: nat
  warmed_seq_ceiling :: nat

definition jit_guard_new :: "nat \<Rightarrow> nat \<Rightarrow> jit_guard" where
  "jit_guard_new gs warmed = \<lparr>guard_seq = gs, warmed_seq_ceiling = warmed\<rparr>"

definition admit :: "jit_guard \<Rightarrow> nat \<Rightarrow> nat \<Rightarrow> (rejection, unit) result" where
  "admit g batch seq =
     (if guard_seq g \<le> seq \<and> warmed_seq_ceiling g < seq
      then Inl \<lparr>rej_batch = batch, rej_seq = seq, rej_guard_seq = guard_seq g,
                rej_warmed_seq_ceiling = warmed_seq_ceiling g\<rparr>
      else Inr ())"

fun guard_chunk_list :: "jit_guard \<Rightarrow> nat list list \<Rightarrow> nat list \<Rightarrow> (rejection, unit) result" where
  "guard_chunk_list g [] seq_lens = Inr ()"
| "guard_chunk_list g (chunk # chunks) seq_lens =
     rbind (admit g (length chunk) (chunk_seq seq_lens chunk)) (\<lambda>_. guard_chunk_list g chunks seq_lens)"

definition guard_chunks :: "jit_guard option \<Rightarrow> nat list list \<Rightarrow> nat list \<Rightarrow> (rejection, unit) result" where
  "guard_chunks guard chunks seq_lens =
     (case guard of None \<Rightarrow> Inr () | Some g \<Rightarrow> guard_chunk_list g chunks seq_lens)"

section \<open>Classification of TensorRT errors\<close>

definition is_trt_jit_oom :: "any_error \<Rightarrow> bool" where
  "is_trt_jit_oom e \<longleftrightarrow>
     (let s = to_lowercase (show_error e)
      in str_contains s ''user allocator error'' \<or>
         str_contains s ''could not find any implementation'' \<and>
           (str_contains s ''workspace'' \<or> str_contains s ''alloc'') \<or>
         str_contains s ''failed to create engine'' \<and>
           (str_contains s ''workspace'' \<or> str_contains s ''alloc'' \<or> str_contains s ''memory'' \<or>
            str_contains s ''oom'' \<or> str_contains s ''tactic''))"

definition is_trt_engine_build_fatal :: "any_error \<Rightarrow> bool" where
  "is_trt_engine_build_fatal e \<longleftrightarrow>
     (let s = to_lowercase (show_error_alt e)
      in str_contains s ''failed to build engine'' \<or>
         str_contains s ''failed to create engine from network'')"

definition embed_with_trt_retry ::
  "(cost_model \<Rightarrow> (failure, 'r) result) \<Rightarrow> cost_model \<Rightarrow> (failure, 'r) result" where
  "embed_with_trt_retry embed_fn base_cm =
     (case embed_fn base_cm of
        Inr v \<Rightarrow> Inr v
      | Inl Panic \<Rightarrow> Inl Panic
      | Inl (Err e) \<Rightarrow>
          if is_trt_jit_oom e
          then embed_fn (base_cm\<lparr>max_workspace_bytes :=
                 max (max_workspace_bytes base_cm div 2) (1024 * 1024)\<rparr>)
          else Inl (Err e))"

section \<open>HTTP errors\<close>

datatype app_error = InvalidRequest string | ServiceUnavailable string | Internal string

record http_error =
  http_status :: nat
  error_type :: string
  error_code :: nat
  error_message :: string

fun into_response :: "app_error \<Rightarrow> http_error" where
  "into_response (InvalidRequest msg) =
     \<lparr>http_status = 400, error_type = ''invalid_request_error'', error_code = 400, error_message = msg\<rparr>"
| "into_response (ServiceUnavailable msg) =
     \<lparr>http_status = 503, error_type = ''service_unavailable'', error_code = 503, error_message = msg\<rparr>"
| "into_response (Internal msg) =
     \<lparr>http_status = 500, error_type = ''internal_error'', error_code = 500, error_message = msg\<rparr>"

definition app_error_from :: "any_error \<Rightarrow> app_error" where
  "app_error_from err =
     (if is_trt_shape_rejected err
      then ServiceUnavailable ''embedding temporarily unavailable for this input size; please retry''
      else Internal ''internal server error'')"

section \<open>Facts about the guard\<close>

lemma admit_Inr_iff: "admit g b s = Inr () \<longleftrightarrow> s < guard_seq g \<or> s \<le> warmed_seq_ceiling g"
  by (auto simp: admit_def)

lemma admit_cases: "admit g b s = Inr () \<or> (\<exists>r. admit g b s = Inl r)"
  by (auto simp: admit_def)

lemma guard_chunk_list_Inr_iff:
  "guard_chunk_list g chunks lens = Inr () \<longleftrightarrow>
     (\<forall>c\<in>set chunks. admit g (length c) (chunk_seq lens c) = Inr ())"
  by (induction chunks) (auto simp: rbind_Inr_iff)

lemma guard_chunk_list_Inl:
  "guard_chunk_list g chunks lens = Inl r \<Longrightarrow>
     \<exists>pre c post. chunks = pre @ c # post \<and> (\<forall>d\<in>set pre. admit g (length d) (chunk_seq lens d) = Inr ()) \<and>
       admit g (length c) (chunk_seq lens c) = Inl r"
proof (induction chunks)
  case (Cons c chunks)
  then show ?case
  proof (cases "admit g (length c) (chunk_seq lens c)")
    case (Inl r')
    then have "c # chunks = [] @ c # chunks" "admit g (length c) (chunk_seq lens c) = Inl r"
      using Cons.prems by auto
    then show ?thesis by (metis empty_iff list.set(1))
  next
    case (Inr u)
    then obtain pre c' post where "chunks = pre @ c' # post"
        "\<forall>d\<in>set pre. admit g (length d) (chunk_seq lens d) = Inr ()"
        "admit g (length c') (chunk_seq lens c') = Inl r"
      using Cons by auto
    then show ?thesis using Inr by (intro exI [of _ "c # pre"]) auto
  qed
qed simp

section \<open>Facts about errors\<close>

lemma is_trt_shape_rejected_Context [simp]:
  "is_trt_shape_rejected (Context c e) = is_trt_shape_rejected e"
  by (simp add: is_trt_shape_rejected_def)

lemma is_trt_shape_rejected_base [simp]:
  "is_trt_shape_rejected (Rejection r)" "\<not> is_trt_shape_rejected (Msg s)"
  by (simp_all add: is_trt_shape_rejected_def)

lemma lower_char_digit: "digit_val c \<noteq> None \<Longrightarrow> lower_char c = c"
  by (auto simp: digit_val_def lower_char_def Let_def split: if_splits)

lemma to_lowercase_show_nat [simp]: "to_lowercase (show_nat n) = show_nat n"
  unfolding to_lowercase_def by (rule map_idI) (auto intro: lower_char_digit dest: set_show_nat)

lemma to_lowercase_append [simp]: "to_lowercase (s @ t) = to_lowercase s @ to_lowercase t"
  by (simp add: to_lowercase_def)

text \<open>A pattern without digits is in a text with numbers only if it is in one of the fixed parts.\<close>

lemma sublist_around_number:
  assumes "list_all (\<lambda>c. digit_val c = None) pat" and "pat \<noteq> []"
  shows "sublist pat (xs @ show_nat n @ ys) \<longleftrightarrow> sublist pat xs \<or> sublist pat ys"
proof -
  have "set (show_nat n) \<inter> set pat = {}"
    using assms(1) by (fastforce simp: list_all_iff dest: set_show_nat)
  then show ?thesis using sublist_split_block [of "show_nat n" pat xs ys] assms(2) by simp
qed

lemma sublist_around_number0:
  assumes "list_all (\<lambda>c. digit_val c = None) pat" and "pat \<noteq> []"
  shows "sublist pat (show_nat n @ ys) \<longleftrightarrow> sublist pat ys"
  using sublist_around_number [OF assms, of "[]" n ys] assms(2) by auto

lemmas sublist_numbers = sublist_around_number sublist_around_number0

text \<open>The phrases of the two TensorRT classifiers do not occur in the text of a refusal.\<close>

definition oom_phrases :: "string list" where
  "oom_phrases = [''user allocator error'', ''could not find any implementation'',
     ''failed to create engine'', ''failed to build engine'', ''failed to create engine from network'']"

definition route_contexts :: "string list" where
  "route_contexts = [''Dense embed error'', ''Sparse embed error'', ''Dual embed error'']"

lemma rejection_parts:
  "list_all (\<lambda>pat. pat \<noteq> [] \<and> list_all (\<lambda>c. digit_val c = None) pat) oom_phrases"
  "list_all (\<lambda>pat. \<not> sublist pat (to_lowercase ''refusing in-band TensorRT JIT for chunk (batch='')) oom_phrases"
  "list_all (\<lambda>pat. \<not> sublist pat (to_lowercase '', seq='')) oom_phrases"
  "list_all (\<lambda>pat. \<not> sublist pat (to_lowercase ''): seq is at/above the guard threshold ('')) oom_phrases"
  "list_all (\<lambda>pat. \<not> sublist pat (to_lowercase
     '') and exceeds the pool's warmed engine coverage (max warmed seq='')) oom_phrases"
  "list_all (\<lambda>pat. \<not> sublist pat (to_lowercase (''). Issuing this run risks a pathological autotuner allocation that can crash the worker. '' @
     ''The request is retriable once warmup coverage extends.''))) oom_phrases"
  "list_all (\<lambda>c. list_all (\<lambda>pat. \<not> sublist pat (to_lowercase (c @ '': '' @
     ''refusing in-band TensorRT JIT for chunk (batch=''))) oom_phrases) route_contexts"
  by (simp_all add: oom_phrases_def route_contexts_def digit_val_def to_lowercase_def lower_char_def
      sublist_Cons_right)

lemma rejection_text:
  assumes "pat \<in> set oom_phrases"
  shows "\<not> sublist pat (to_lowercase (show_rejection r))"
    and "c \<in> set route_contexts \<Longrightarrow> \<not> sublist pat (to_lowercase (c @ '': '' @ show_rejection r))"
proof -
  have digits: "list_all (\<lambda>c. digit_val c = None) pat" "pat \<noteq> []"
    using assms rejection_parts(1) unfolding list_all_iff by blast+
  note parts = rejection_parts(2-7) [unfolded list_all_iff, THEN bspec]
  note split = to_lowercase_append to_lowercase_show_nat sublist_numbers [OF digits]
  show "\<not> sublist pat (to_lowercase (show_rejection r))"
    using parts(1-5) [OF assms] unfolding show_rejection_def
    by (simp only: split append_assoc de_Morgan_disj simp_thms)
  assume "c \<in> set route_contexts"
  then have "\<not> sublist pat ((to_lowercase (c @ '': '' @ ''refusing in-band TensorRT JIT for chunk (batch='')))"
    using parts(6) assms by blast
  then have ctx: "\<not> sublist pat (to_lowercase c @ to_lowercase '': '' @ to_lowercase ''refusing in-band TensorRT JIT for chunk (batch='')"
    by (simp only: to_lowercase_append simp_thms)
  have "to_lowercase (c @ '': '' @ show_rejection r) =
      (to_lowercase c @ to_lowercase '': '' @ to_lowercase ''refusing in-band TensorRT JIT for chunk (batch='') @
      show_nat (rej_batch r) @ to_lowercase '', seq='' @ show_nat (rej_seq r) @
      to_lowercase ''): seq is at/above the guard threshold ('' @ show_nat (rej_guard_seq r) @
      to_lowercase '') and exceeds the pool's warmed engine coverage (max warmed seq='' @
      show_nat (rej_warmed_seq_ceiling r) @
      to_lowercase (''). Issuing this run risks a pathological autotuner allocation that can crash the worker. '' @
        ''The request is retriable once warmup coverage extends.'')"
    unfolding show_rejection_def by (simp only: to_lowercase_append to_lowercase_show_nat append_assoc)
  then show "\<not> sublist pat (to_lowercase (c @ '': '' @ show_rejection r))"
    using ctx parts(2-5) [OF assms]
    by (simp only: sublist_numbers [OF digits] de_Morgan_disj simp_thms)
qed

lemma rejection_not_oom: "\<not> is_trt_jit_oom (Rejection r)"
  using rejection_text(1) [of _ r]
  by (simp add: is_trt_jit_oom_def str_contains_def Let_def oom_phrases_def)

lemma rejection_not_fatal:
  "\<not> is_trt_engine_build_fatal (Rejection r)"
  "c \<in> set route_contexts \<Longrightarrow> \<not> is_trt_engine_build_fatal (Context c (Rejection r))"
  using rejection_text
  by (simp_all add: is_trt_engine_build_fatal_def str_contains_def Let_def oom_phrases_def)

section \<open>Properties\<close>

text \<open>
  The guard refuses a request exactly when some chunk is at or above the threshold and longer
  than the warmed ceiling, and it reports the first such chunk; without a guard everything is
  admitted.
\<close>

theorem guard_chunks_refuses_iff:
  "(guard_chunks None chunks lens = Inr ()) \<and>
   (guard_chunks (Some g) chunks lens = Inr () \<longleftrightarrow>
     (\<forall>c\<in>set chunks. chunk_seq lens c < guard_seq g \<or> chunk_seq lens c \<le> warmed_seq_ceiling g)) \<and>
   (\<forall>r. guard_chunks (Some g) chunks lens = Inl r \<longrightarrow>
     (\<exists>pre c post. chunks = pre @ c # post \<and> rej_seq r = chunk_seq lens c \<and> rej_batch r = length c \<and>
        guard_seq g \<le> rej_seq r \<and> warmed_seq_ceiling g < rej_seq r \<and>
        (\<forall>d\<in>set pre. chunk_seq lens d < guard_seq g \<or> chunk_seq lens d \<le> warmed_seq_ceiling g)))"
proof -
  have "\<exists>pre c post. chunks = pre @ c # post \<and> rej_seq r = chunk_seq lens c \<and> rej_batch r = length c \<and>
        guard_seq g \<le> rej_seq r \<and> warmed_seq_ceiling g < rej_seq r \<and>
        (\<forall>d\<in>set pre. chunk_seq lens d < guard_seq g \<or> chunk_seq lens d \<le> warmed_seq_ceiling g)"
    if "guard_chunk_list g chunks lens = Inl r" for r
  proof -
    from guard_chunk_list_Inl [OF that] obtain pre c post where
      split: "chunks = pre @ c # post"
      and pre: "\<forall>d\<in>set pre. admit g (length d) (chunk_seq lens d) = Inr ()"
      and c: "admit g (length c) (chunk_seq lens c) = Inl r" by blast
    show ?thesis
      by (intro exI [of _ pre] exI [of _ c] exI [of _ post])
        (use split pre c in \<open>auto simp: admit_Inr_iff admit_def split: if_splits\<close>)
  qed
  then show ?thesis
    by (simp add: guard_chunks_def guard_chunk_list_Inr_iff admit_Inr_iff)
qed

theorem guard_chunks_refuses_iff_witness:
  "\<exists>pre c post. [[0], [1]] = pre @ c # post \<and> chunk_seq [100, 8192] c = 8192"
proof -
  have "guard_chunks (Some (jit_guard_new 4096 2048)) [[0], [1]] [100, 8192] =
      Inl \<lparr>rej_batch = 1, rej_seq = 8192, rej_guard_seq = 4096, rej_warmed_seq_ceiling = 2048\<rparr>"
    by (simp add: guard_chunks_def admit_def jit_guard_new_def)
  with guard_chunks_refuses_iff [of "[[0], [1]]" "[100, 8192]" "jit_guard_new 4096 2048"]
  show ?thesis by (metis rejection.select_convs(2))
qed

text \<open>
  A refusal keeps its identity. However many contexts wrap it, it is answered with status 503;
  with one of the route contexts it is neither retried as an out-of-memory condition nor taken for
  a fatal engine build. Every other error is answered 500 with a generic message.
\<close>

theorem rejection_identity:
  "is_trt_shape_rejected (foldr Context cs (Rejection r)) \<and>
   http_status (into_response (app_error_from (foldr Context cs (Rejection r)))) = 503 \<and>
   \<not> is_trt_jit_oom (Rejection r) \<and>
   list_all (\<lambda>c. \<not> is_trt_engine_build_fatal (Context c (Rejection r))) route_contexts \<and>
   into_response (app_error_from (foldr Context cs (Msg s))) =
     \<lparr>http_status = 500, error_type = ''internal_error'', error_code = 500,
      error_message = ''internal server error''\<rparr>"
proof -
  have "is_trt_shape_rejected (foldr Context cs e) = is_trt_shape_rejected e" for e
    by (induction cs) auto
  then show ?thesis
    using rejection_not_oom rejection_not_fatal by (simp add: app_error_from_def list_all_iff)
qed

text \<open>
  The retry wrapper runs the embedding at most twice. A success or an error that is not an
  out-of-memory condition is returned as it is; otherwise the second attempt decides, under the same
  coefficients and half the workspace, floored at 1 MiB, which is a smaller budget whenever the first
  one was above 1 MiB.
\<close>

theorem embed_with_trt_retry_spec:
  "embed_with_trt_retry f cm =
     (if \<exists>e. f cm = Inl (Err e) \<and> is_trt_jit_oom e
      then f (cm\<lparr>max_workspace_bytes := max (max_workspace_bytes cm div 2) 1048576\<rparr>)
      else f cm) \<and>
   (max (max_workspace_bytes cm div 2) 1048576 < max_workspace_bytes cm \<longleftrightarrow>
      1048576 < max_workspace_bytes cm)"
  by (auto simp: embed_with_trt_retry_def split: sum.splits failure.splits)

end
