(* ===== verification/Embed_Math.thy ===== *)
theory Embed_Math
  imports Rust_Float
begin

text \<open>
  The pure helpers of \<open>src/embedder/math.rs\<close>: L2 normalisation, the ReLU-gated sparse projection,
  max-pooling of token scores by vocabulary id, the median of the per-worker memory deltas and the
  token-length statistics of a batch.

  \<open>ndarray\<close>'s dot product is an argument of the projection. Indexing a slice out of range panics;
  the pooling loop returns \<open>None\<close> there, and the theorems show when it does not.
\<close>

section \<open>Dense vectors\<close>

definition sum_squares :: "fl list \<Rightarrow> fl" where
  "sum_squares vec = foldl (\<lambda>acc x. fl_add r32 acc (fl_mul r32 x x)) (Fin 0) vec"

definition normalize_l2 :: "fl list \<Rightarrow> fl list" where
  "normalize_l2 vec =
     (let norm = f32_sqrt (sum_squares vec)
      in if fl_less (Fin 0) norm then map (\<lambda>x. fl_div r32 x norm) vec else vec)"

section \<open>Sparse scores\<close>

definition SPECIAL_TOKENS :: "nat list" where
  "SPECIAL_TOKENS = [0, 1, 2, 3]"

definition sparse_project :: "(fl list \<Rightarrow> fl list \<Rightarrow> fl) \<Rightarrow> fl list \<Rightarrow> fl list \<Rightarrow> fl \<Rightarrow> fl" where
  "sparse_project dot hidden weight bias = fl_max (fl_add r32 (dot hidden weight) bias) (Fin 0)"

text \<open>
  The \<open>HashMap\<close> from token id to weight, as an association list with distinct keys. \<open>entry\<close> with
  \<open>and_modify\<close> and \<open>or_insert\<close> keeps the larger weight.
\<close>

fun upsert_max :: "nat \<Rightarrow> fl \<Rightarrow> (nat \<times> fl) list \<Rightarrow> (nat \<times> fl) list" where
  "upsert_max k v [] = [(k, v)]"
| "upsert_max k v ((k', w) # m) =
     (if k = k' then (k', fl_max w v) # m else (k', w) # upsert_max k v m)"

fun maxpool_loop ::
  "(nat \<times> fl) list \<Rightarrow> nat list \<Rightarrow> nat list \<Rightarrow> fl list \<Rightarrow> (nat \<times> fl) list option" where
  "maxpool_loop token_weights [] attn scores = Some token_weights"
| "maxpool_loop token_weights (token_id # ids) [] scores = None"
| "maxpool_loop token_weights (token_id # ids) (k # attn) scores =
     (if k = 0 then maxpool_loop token_weights ids attn (tl scores)
      else if token_id \<in> set SPECIAL_TOKENS then maxpool_loop token_weights ids attn (tl scores)
      else case scores of
             [] \<Rightarrow> None
           | score # scores' \<Rightarrow>
               maxpool_loop
                 (if fl_less (Fin 0) score then upsert_max token_id score token_weights
                  else token_weights)
                 ids attn scores')"

definition sparse_maxpool :: "nat list \<Rightarrow> nat list \<Rightarrow> fl list \<Rightarrow> (nat list \<times> fl list) option" where
  "sparse_maxpool ids attn scores =
     (case maxpool_loop [] ids attn scores of
        None \<Rightarrow> None
      | Some token_weights \<Rightarrow>
          (let indices = sort (map fst token_weights)
           in Some (indices, map (\<lambda>k. the (map_of token_weights k)) indices)))"

section \<open>Statistics\<close>

definition median_usize :: "nat list \<Rightarrow> nat" where
  "median_usize values = (if values = [] then 0 else sort values ! (length values div 2))"

record seq_len_dist =
  sl_min :: nat
  sl_max :: nat
  sl_mean :: nat
  sl_p95 :: nat

definition seq_len_distribution :: "nat list \<Rightarrow> seq_len_dist" where
  "seq_len_distribution lens =
     (if lens = [] then \<lparr>sl_min = 0, sl_max = 0, sl_mean = 0, sl_p95 = 0\<rparr>
      else let mn = the (list_min lens);
               mx = the (list_max lens);
               mean = sum_list lens div length lens;
               sorted_lens = sort lens;
               p95_idx = length sorted_lens * 95 div 100
           in \<lparr>sl_min = mn, sl_max = mx, sl_mean = mean,
               sl_p95 = sorted_lens ! (min p95_idx (length sorted_lens - 1))\<rparr>)"

section \<open>Facts about normalisation\<close>

lemma length_normalize_l2 [simp]: "length (normalize_l2 vec) = length vec"
  by (simp add: normalize_l2_def Let_def)

lemma fl_div_mono:
  assumes "fl_le x y" and "fl_less (Fin 0) d" and "fl_is_finite x" and "fl_is_finite y"
  shows "fl_le (fl_div r32 x d) (fl_div r32 y d)"
  using assms by (cases x; cases y; cases d) (auto intro!: f32.rnd_mono divide_right_mono)

section \<open>Facts about pooling\<close>

text \<open>The positions that contribute a weight to token \<open>t\<close>.\<close>

definition contributes :: "nat list \<Rightarrow> nat list \<Rightarrow> fl list \<Rightarrow> nat \<Rightarrow> nat \<Rightarrow> bool" where
  "contributes ids attn scores t j \<longleftrightarrow>
     j < length ids \<and> ids ! j = t \<and> attn ! j \<noteq> 0 \<and> t \<notin> set SPECIAL_TOKENS \<and>
     fl_less (Fin 0) (scores ! j)"

lemma contributes_snoc:
  assumes "length attn = length ids" and "length scores = length ids"
  shows "contributes (ids @ [t']) (attn @ [k]) (scores @ [s]) t j \<longleftrightarrow>
     contributes ids attn scores t j \<or>
     (j = length ids \<and> t = t' \<and> k \<noteq> 0 \<and> t \<notin> set SPECIAL_TOKENS \<and> fl_less (Fin 0) s)"
  using assms by (auto simp: contributes_def nth_append less_Suc_eq)

text \<open>What the map holds after a prefix of the input: the largest contributed score per token.\<close>

definition pool_inv :: "nat list \<Rightarrow> nat list \<Rightarrow> fl list \<Rightarrow> (nat \<times> fl) list \<Rightarrow> bool" where
  "pool_inv ids attn scores m \<longleftrightarrow>
     distinct (map fst m) \<and>
     (\<forall>t. t \<in> fst ` set m \<longleftrightarrow> (\<exists>j. contributes ids attn scores t j)) \<and>
     (\<forall>t v. map_of m t = Some v \<longrightarrow>
        (\<exists>j. contributes ids attn scores t j \<and> scores ! j = v) \<and>
        (\<forall>j. contributes ids attn scores t j \<longrightarrow> fl_le (scores ! j) v))"

lemma upsert_max_keys: "fst ` set (upsert_max k v m) = insert k (fst ` set m)"
  by (induction k v m rule: upsert_max.induct) auto

lemma upsert_max_distinct: "distinct (map fst m) \<Longrightarrow> distinct (map fst (upsert_max k v m))"
proof (induction k v m rule: upsert_max.induct)
  case (2 k v k' w m)
  then show ?case using upsert_max_keys [of k v m] by auto
qed simp

lemma map_of_upsert_max:
  "map_of (upsert_max k v m) t =
     (if t = k then Some (case map_of m k of None \<Rightarrow> v | Some w \<Rightarrow> fl_max w v) else map_of m t)"
  by (induction k v m rule: upsert_max.induct) auto

lemma fl_less_pos_le: "fl_less (Fin 0) x \<Longrightarrow> fl_less (Fin 0) y \<Longrightarrow> fl_le x y \<or> fl_le y x"
  by (cases x; cases y) auto

lemma fl_max_pos:
  assumes "fl_less (Fin 0) x" and "fl_less (Fin 0) y"
  shows "fl_max x y = x \<and> fl_le y x \<or> fl_max x y = y \<and> fl_le x y"
  using assms by (cases x; cases y) (auto simp: fl_max_def)

lemma contributes_pos: "contributes ids attn scores t j \<Longrightarrow> fl_less (Fin 0) (scores ! j)"
  by (simp add: contributes_def)

text \<open>One iteration on a position whose mask and score exist.\<close>

definition pool_step :: "(nat \<times> fl) list \<Rightarrow> nat \<Rightarrow> nat \<Rightarrow> fl \<Rightarrow> (nat \<times> fl) list" where
  "pool_step m t k s =
     (if k \<noteq> 0 \<and> t \<notin> set SPECIAL_TOKENS \<and> fl_less (Fin 0) s then upsert_max t s m else m)"

lemma maxpool_loop_step:
  "maxpool_loop m (t # ids) (k # attn) (s # scores) = maxpool_loop (pool_step m t k s) ids attn scores"
  by (auto simp: pool_step_def)

lemma pool_step_inv:
  assumes inv: "pool_inv ids attn scores m"
    and len: "length attn = length ids" "length scores = length ids"
  shows "pool_inv (ids @ [t]) (attn @ [k]) (scores @ [s]) (pool_step m t k s)"
proof -
  let ?C = "contributes ids attn scores" and ?C' = "contributes (ids @ [t]) (attn @ [k]) (scores @ [s])"
  let ?new = "k \<noteq> 0 \<and> t \<notin> set SPECIAL_TOKENS \<and> fl_less (Fin 0) s"
  have C': "?C' t' j \<longleftrightarrow> ?C t' j \<or> (j = length ids \<and> t' = t \<and> ?new)" for t' j
    using contributes_snoc [OF len] by auto
  have old: "?C t' j \<Longrightarrow> j < length scores \<and> (scores @ [s]) ! j = scores ! j" for t' j
    using len by (simp add: contributes_def nth_append)
  have last: "(scores @ [s]) ! length ids = s" using len by (simp add: nth_append)
  show ?thesis
  proof (cases ?new)
    case False
    then have "pool_step m t k s = m" "\<And>t' j. ?C' t' j = ?C t' j" by (auto simp: pool_step_def C')
    then show ?thesis using inv old unfolding pool_inv_def by metis
  next
    case True
    have keys: "t' \<in> fst ` set (upsert_max t s m) \<longleftrightarrow> (\<exists>j. ?C' t' j)" for t'
      using inv True by (auto simp: upsert_max_keys C' pool_inv_def)
    have vals: "(\<exists>j. ?C' t' j \<and> (scores @ [s]) ! j = v) \<and> (\<forall>j. ?C' t' j \<longrightarrow> fl_le ((scores @ [s]) ! j) v)"
      if v: "map_of (upsert_max t s m) t' = Some v" for t' v
    proof (cases "t' = t")
      case False
      then have "map_of m t' = Some v" using v by (simp add: map_of_upsert_max)
      then show ?thesis using inv False old unfolding pool_inv_def C' by metis
    next
      case t: True
      show ?thesis
      proof (cases "map_of m t")
        case None
        then have "t \<notin> fst ` set m" by (simp add: map_of_eq_None_iff)
        then have none: "\<not> ?C t j" for j using inv by (auto simp: pool_inv_def)
        have "v = s" using v None t by (simp add: map_of_upsert_max)
        moreover have "fl_le s s" using True by (cases s) auto
        ultimately show ?thesis using True t none last by (auto simp: C')
      next
        case (Some w)
        then have w: "\<exists>j. ?C t j \<and> scores ! j = w" "\<forall>j. ?C t j \<longrightarrow> fl_le (scores ! j) w"
          using inv unfolding pool_inv_def by blast+
        have wpos: "fl_less (Fin 0) w" using w(1) contributes_pos by blast
        have vw: "v = fl_max w s" using v Some t by (simp add: map_of_upsert_max)
        have le: "fl_le w v" "fl_le s v" "v = w \<or> v = s"
          using fl_max_pos [OF wpos, of s] True wpos vw by (cases w; cases s; auto)+
        show ?thesis
        proof (intro conjI allI impI)
          show "\<exists>j. ?C' t' j \<and> (scores @ [s]) ! j = v"
            using le(3) w(1) True t old last unfolding C' by metis
          show "fl_le ((scores @ [s]) ! j) v" if "?C' t' j" for j
            using that t w(2) le old last fl_le_trans unfolding C' by metis
        qed
      qed
    qed
    show ?thesis using True inv keys vals
      by (auto simp: pool_inv_def pool_step_def upsert_max_distinct)
  qed
qed

lemma maxpool_loop_inv:
  assumes "pool_inv ids0 attn0 scores0 m" "length attn0 = length ids0" "length scores0 = length ids0"
    and "length attn = length ids" "length scores = length ids"
  shows "\<exists>m'. maxpool_loop m ids attn scores = Some m' \<and>
              pool_inv (ids0 @ ids) (attn0 @ attn) (scores0 @ scores) m'"
  using assms
proof (induction ids arbitrary: ids0 attn0 scores0 m attn scores)
  case (Cons t ids)
  then obtain k attn' s scores' where c: "attn = k # attn'" "scores = s # scores'"
      "length attn' = length ids" "length scores' = length ids"
    by (cases attn; cases scores) auto
  have "pool_inv (ids0 @ [t]) (attn0 @ [k]) (scores0 @ [s]) (pool_step m t k s)"
    using Cons.prems by (intro pool_step_inv)
  from Cons.IH [OF this _ _ c(3,4)] Cons.prems
  obtain m' where "maxpool_loop (pool_step m t k s) ids attn' scores' = Some m'"
      "pool_inv (ids0 @ t # ids) (attn0 @ k # attn') (scores0 @ s # scores') m'"
    by auto
  then show ?case using c by (simp only: maxpool_loop_step) auto
qed simp

lemma pool_inv_empty: "pool_inv [] [] [] []"
  by (simp add: pool_inv_def contributes_def)

lemma sparse_maxpool_cases:
  assumes "length attn = length ids" "length scores = length ids"
  obtains m where "pool_inv ids attn scores m"
    and "sparse_maxpool ids attn scores =
           Some (sort (map fst m), map (\<lambda>k. the (map_of m k)) (sort (map fst m)))"
  using maxpool_loop_inv [OF pool_inv_empty _ _ assms] by (auto simp: sparse_maxpool_def Let_def)

section \<open>Facts about the statistics\<close>

lemma sparse_maxpool_indices:
  assumes "length attn = length ids" and "length scores = length ids" and "sparse_maxpool ids attn scores = Some (ix, vs)"
  shows "set ix \<subseteq> set ids"
proof -
  from assms(1,2) obtain m where m: "pool_inv ids attn scores m"
      "sparse_maxpool ids attn scores = Some (sort (map fst m), map (\<lambda>k. the (map_of m k)) (sort (map fst m)))"
    by (rule sparse_maxpool_cases)
  have "t \<in> set ids" if "t \<in> fst ` set m" for t
    using m(1) that by (auto simp: pool_inv_def contributes_def)
  then show ?thesis using m(2) assms(3) by auto
qed

lemma median_usize_sort: "values \<noteq> [] \<Longrightarrow> median_usize values = sort values ! (length values div 2)"
  by (simp add: median_usize_def)

lemma sorted_nth_filter_le:
  assumes "sorted xs" and "i < length xs"
  shows "Suc i \<le> length (filter (\<lambda>x. x \<le> xs ! i) xs)"
    and "length xs - i \<le> length (filter (\<lambda>x. xs ! i \<le> x) xs)"
proof -
  have "filter (\<lambda>x. x \<le> xs ! i) (take (Suc i) xs) = take (Suc i) xs"
    using assms by (auto simp: filter_id_conv in_set_conv_nth less_Suc_eq_le intro!: sorted_nth_mono)
  moreover have "filter (\<lambda>x. x \<le> xs ! i) xs =
      filter (\<lambda>x. x \<le> xs ! i) (take (Suc i) xs) @ filter (\<lambda>x. x \<le> xs ! i) (drop (Suc i) xs)"
    by (metis append_take_drop_id filter_append)
  ultimately show "Suc i \<le> length (filter (\<lambda>x. x \<le> xs ! i) xs)" using assms(2) by simp
  have "filter (\<lambda>x. xs ! i \<le> x) (drop i xs) = drop i xs"
    using assms by (auto simp: filter_id_conv in_set_conv_nth intro!: sorted_nth_mono)
  moreover have "filter (\<lambda>x. xs ! i \<le> x) xs =
      filter (\<lambda>x. xs ! i \<le> x) (take i xs) @ filter (\<lambda>x. xs ! i \<le> x) (drop i xs)"
    by (metis append_take_drop_id filter_append)
  ultimately show "length xs - i \<le> length (filter (\<lambda>x. xs ! i \<le> x) xs)" by simp
qed

lemma length_filter_sort [simp]: "length (filter P (sort xs)) = length (filter P xs)"
  by (metis mset_filter mset_sort size_mset)

lemma sum_list_bounds:
  fixes xs :: "nat list"
  assumes "\<And>x. x \<in> set xs \<Longrightarrow> lo \<le> x \<and> x \<le> hi"
  shows "lo * length xs \<le> sum_list xs \<and> sum_list xs \<le> hi * length xs"
  using assms by (induction xs) (auto intro!: add_mono)

section \<open>Properties\<close>

text \<open>
  C30: pooling never panics when every token has a mask entry and a score; its indices are strictly
  ascending, they are exactly the non-special, unmasked tokens with a positive score, and the
  weight of a token is the largest score any of its positions has.
\<close>

theorem sparse_maxpool_correct:
  assumes "length attn = length ids" and "length scores = length ids"
  shows "\<exists>indices values.
     sparse_maxpool ids attn scores = Some (indices, values) \<and>
     sorted_wrt (<) indices \<and> length values = length indices \<and>
     (\<forall>t. t \<in> set indices \<longleftrightarrow> (\<exists>j. contributes ids attn scores t j)) \<and>
     (\<forall>i<length indices.
        (\<exists>j. contributes ids attn scores (indices ! i) j \<and> scores ! j = values ! i) \<and>
        (\<forall>j. contributes ids attn scores (indices ! i) j \<longrightarrow> fl_le (scores ! j) (values ! i)))"
proof -
  from assms obtain m where inv: "pool_inv ids attn scores m"
    and eq: "sparse_maxpool ids attn scores =
      Some (sort (map fst m), map (\<lambda>k. the (map_of m k)) (sort (map fst m)))"
    by (rule sparse_maxpool_cases)
  let ?ix = "sort (map fst m)"
  have some: "\<exists>v. map_of m (?ix ! i) = Some v" if "i < length ?ix" for i
  proof -
    have "?ix ! i \<in> set ?ix" using that by (rule nth_mem)
    then show ?thesis by (metis (no_types) image_set map_of_eq_None_iff not_None_eq set_sort)
  qed
  have "sorted_wrt (<) ?ix"
    using inv by (simp add: pool_inv_def strict_sorted_iff)
  moreover have "\<forall>t. t \<in> set ?ix \<longleftrightarrow> (\<exists>j. contributes ids attn scores t j)"
    using inv by (simp add: pool_inv_def)
  moreover have "\<forall>i<length ?ix.
      (\<exists>j. contributes ids attn scores (?ix ! i) j \<and> scores ! j = map (\<lambda>k. the (map_of m k)) ?ix ! i) \<and>
      (\<forall>j. contributes ids attn scores (?ix ! i) j \<longrightarrow> fl_le (scores ! j) (map (\<lambda>k. the (map_of m k)) ?ix ! i))"
  proof (intro allI impI)
    fix i assume i: "i < length ?ix"
    then obtain v where v: "map_of m (?ix ! i) = Some v" using some by blast
    with i have "map (\<lambda>k. the (map_of m k)) ?ix ! i = v" by simp
    then show "(\<exists>j. contributes ids attn scores (?ix ! i) j \<and> scores ! j = map (\<lambda>k. the (map_of m k)) ?ix ! i) \<and>
        (\<forall>j. contributes ids attn scores (?ix ! i) j \<longrightarrow> fl_le (scores ! j) (map (\<lambda>k. the (map_of m k)) ?ix ! i))"
      using inv v unfolding pool_inv_def by metis
  qed
  ultimately show ?thesis using eq by auto
qed

theorem sparse_maxpool_correct_witness:
  "sparse_maxpool [0, 7, 5, 7] [1, 1, 1, 1] [Fin 9, Fin 1, Fin 2, Fin 3] = Some ([5, 7], [Fin 2, Fin 3]) \<and>
   sorted_wrt (<) [5, 7 :: nat] \<and>
   (\<exists>j. contributes [0, 7, 5, 7] [1, 1, 1, 1] [Fin 9, Fin 1, Fin 2, Fin 3] 7 j)"
proof -
  have "sparse_maxpool [0, 7, 5, 7] [1, 1, 1, 1] [Fin 9, Fin 1, Fin 2, Fin 3] = Some ([5, 7], [Fin 2, Fin 3])"
    by (simp add: sparse_maxpool_def SPECIAL_TOKENS_def fl_max_def)
  with sparse_maxpool_correct [of "[1, 1, 1, 1]" "[0, 7, 5, 7]" "[Fin 9, Fin 1, Fin 2, Fin 3]"]
  show ?thesis by (simp only: option.inject prod.inject list.size) force
qed

text \<open>
  The value reported as the per-worker model footprint is a median: at least half of the samples are
  at most it and at least half are at least it. For an even number of samples it is the
  upper of the two middle elements.
\<close>

theorem median_usize_is_median:
  assumes "values \<noteq> []"
  shows "length values \<le> 2 * length (filter (\<lambda>x. x \<le> median_usize values) values) \<and>
         length values \<le> 2 * length (filter (\<lambda>x. median_usize values \<le> x) values) \<and>
         median_usize values = sort values ! (length values div 2)"
proof -
  have "length values div 2 < length (sort values)" using assms by simp
  from sorted_nth_filter_le [OF sorted_sort this] assms show ?thesis
    by (simp add: median_usize_sort) linarith
qed

theorem median_usize_is_median_witness:
  "median_usize [40, 10, 30, 20] = 30"
  using median_usize_is_median [of "[40, 10, 30, 20]"] by simp

text \<open>
  The length statistics never index out of range and are consistent: the minimum and the
  maximum are those of the batch, and mean and 95th percentile lie between them.
\<close>

theorem seq_len_distribution_bounds:
  assumes "lens \<noteq> []"
  shows "sl_min (seq_len_distribution lens) = Min (set lens) \<and>
         sl_max (seq_len_distribution lens) = Max (set lens) \<and>
         sl_min (seq_len_distribution lens) \<le> sl_mean (seq_len_distribution lens) \<and>
         sl_mean (seq_len_distribution lens) \<le> sl_max (seq_len_distribution lens) \<and>
         sl_p95 (seq_len_distribution lens) \<in> set lens"
proof -
  have mm: "Min (set lens) \<le> x \<and> x \<le> Max (set lens)" if "x \<in> set lens" for x
    using that by simp
  have pos: "0 < length lens" using assms by simp
  have "Min (set lens) * length lens \<le> sum_list lens" "sum_list lens \<le> Max (set lens) * length lens"
    using sum_list_bounds [of lens, OF mm] by auto
  then have "Min (set lens) \<le> sum_list lens div length lens" "sum_list lens div length lens \<le> Max (set lens)"
    using pos by (metis div_le_mono div_mult_self_is_m)+
  moreover have "sort lens ! (min (length lens * 95 div 100) (length lens - 1)) \<in> set lens"
    using pos by (metis (no_types) Suc_pred' length_sort less_Suc_eq_le min.cobounded2 nth_mem set_sort)
  ultimately show ?thesis
    using assms by (simp add: seq_len_distribution_def Let_def list_min_eq_Min list_max_eq_Max)
qed

theorem seq_len_distribution_bounds_witness:
  "sl_p95 (seq_len_distribution [10, 200]) \<in> set [10, 200]"
  using seq_len_distribution_bounds [of "[10, 200]"] by blast

text \<open>
  Normalisation keeps the dimension of a vector, leaves a vector of norm zero (or of an invalid
  norm) unchanged, and otherwise keeps the order of its components.
\<close>

theorem normalize_l2_order:
  assumes "i < length vec" and "j < length vec" and "fl_is_finite (vec ! i)" "fl_is_finite (vec ! j)"
    and "fl_le (vec ! i) (vec ! j)"
  shows "length (normalize_l2 vec) = length vec \<and>
         (\<not> fl_less (Fin 0) (f32_sqrt (sum_squares vec)) \<longrightarrow> normalize_l2 vec = vec) \<and>
         fl_le (normalize_l2 vec ! i) (normalize_l2 vec ! j)"
  using assms by (simp add: normalize_l2_def Let_def fl_div_mono)

theorem normalize_l2_order_witness:
  "fl_le (normalize_l2 [Fin 3, Fin 4] ! 0) (normalize_l2 [Fin 3, Fin 4] ! 1)"
  using normalize_l2_order [of 0 "[Fin 3, Fin 4]" 1] by simp

end
