(* ===== verification/Embed_Pipeline.thy ===== *)
theory Embed_Pipeline
  imports Jit_Guard Embed_Math
begin

text \<open>
  The inference pipelines: \<open>src/embedder/tokenize.rs\<close> (padding a chunk into two matrices) and the three
  routes \<open>embed_dense\<close>, \<open>embed_sparse\<close> and \<open>embed_both\<close> of \<open>src/embedder/dense.rs\<close>, \<open>sparse.rs\<close> and \<open>dual.rs\<close>
  (tokenize once, bin-pack, guard, run each chunk, scatter the rows back to the input positions).

  The tokenizer (\<open>tokenizers\<close>), the ONNX session (\<open>ort\<close>), \<open>ndarray\<close>'s dot product, the bundled projection
  weights and the clock are arguments.

  The three routes share their loop, so its facts are proved once, for every packer that satisfies
  the \<open>chunking\<close> contract of theory Binpack, and used through its interpretation on \<open>bin_pack\<close>.
\<close>

section \<open>Data\<close>

datatype model_variant = Fp32 | Fp16 | Int8

datatype ep_selection = Cpu | Cuda | TensorRt

record encoding =
  enc_ids :: "nat list"
  enc_mask :: "nat list"

text \<open>\<open>ndarray::Array2<i64>\<close>: a shape and the values in row-major order.\<close>

record array2 =
  arr_rows :: nat
  arr_cols :: nat
  arr_flat :: "int list"

record sparse_embedding =
  sp_indices :: "nat list"
  sp_values :: "fl list"

record dual_embedding =
  du_dense :: "fl list"
  du_sparse :: sparse_embedding

record embed_stats =
  st_chunks :: nat
  st_max_chunk_seq :: nat
  st_total_token_positions :: nat
  st_tokenize_ms :: nat
  st_inference_ms :: nat
  st_seq_len_min :: nat
  st_seq_len_max :: nat
  st_seq_len_mean :: nat
  st_seq_len_p95 :: nat

text \<open>
  The named outputs of a session: a name may be absent (indexing panics), its extraction as \<open>f32\<close> may
  fail, or it is a tensor: one row per text, or one row of hidden states per text.
\<close>

record session_outputs =
  sentence_embedding :: "(string, fl list list) result option"
  token_embeddings :: "(string, fl list list list) result option"
  last_hidden_state :: "(string, fl list list list) result option"

type_synonym tokenizer = "string list \<Rightarrow> (string, encoding list) result"
type_synonym session = "array2 \<Rightarrow> array2 \<Rightarrow> (string, session_outputs) result"

text \<open>The environment of a call: wall-clock times and the sparse projection.\<close>

record timing =
  clock_tokenize_ms :: nat
  clock_chunk_ms :: "nat \<Rightarrow> nat"

record projection =
  pj_dot :: "fl list \<Rightarrow> fl list \<Rightarrow> fl"
  pj_weight :: "fl list"
  pj_bias :: fl

section \<open>Tokenizing and padding\<close>

definition tokenize_no_pad :: "tokenizer \<Rightarrow> string list \<Rightarrow> (failure, encoding list) result" where
  "tokenize_no_pad tok texts = map_err (\<lambda>e. Err (Msg (''Tokenization failed: '' @ e))) (tok texts)"

fun chunk_flat :: "encoding list \<Rightarrow> nat list \<Rightarrow> nat \<Rightarrow> (failure, int list \<times> int list) result" where
  "chunk_flat encs [] pad_to = Inr ([], [])"
| "chunk_flat encs (idx # indices) pad_to =
     (if idx < length encs
      then let enc = encs ! idx; pad = pad_to - length (enc_ids enc)
           in rbind (chunk_flat encs indices pad_to) (\<lambda>(ids_flat, mask_flat).
                Inr (map int (enc_ids enc) @ replicate pad 1 @ ids_flat,
                     map int (enc_mask enc) @ replicate pad 0 @ mask_flat))
      else Inl Panic)"

definition from_shape_vec :: "nat \<Rightarrow> nat \<Rightarrow> int list \<Rightarrow> (failure, array2) result" where
  "from_shape_vec r c v =
     (if length v = r * c then Inr \<lparr>arr_rows = r, arr_cols = c, arr_flat = v\<rparr>
      else Inl (Err (Msg ''ShapeError'')))"

definition build_chunk_arrays ::
  "encoding list \<Rightarrow> nat list \<Rightarrow> nat \<Rightarrow> (failure, array2 \<times> array2) result" where
  "build_chunk_arrays encs indices pad_to =
     rbind (chunk_flat encs indices pad_to) (\<lambda>(ids_flat, mask_flat).
     rbind (from_shape_vec (length indices) pad_to ids_flat) (\<lambda>ids_array.
     rbind (from_shape_vec (length indices) pad_to mask_flat) (\<lambda>mask_array.
       Inr (ids_array, mask_array))))"

definition array_row :: "array2 \<Rightarrow> nat \<Rightarrow> int list" where
  "array_row a i = take (arr_cols a) (drop (i * arr_cols a) (arr_flat a))"

section \<open>Reading a session's outputs\<close>

fun get_output :: "(string, 't) result option \<Rightarrow> (failure, 't) result" where
  "get_output None = Inl Panic"
| "get_output (Some r) = map_err (\<lambda>e. Err (Msg e)) r"

text \<open>\<open>index_axis(Axis(1), 0)\<close>: the first token of every text; out of range when there is none.\<close>

definition cls_rows :: "fl list list list \<Rightarrow> (failure, fl list list) result" where
  "cls_rows t = (if [] \<in> set t then Inl Panic else Inr (map hd t))"

fun extract_dense :: "model_variant \<Rightarrow> session_outputs \<Rightarrow> (failure, fl list list) result" where
  "extract_dense Fp32 outs = get_output (sentence_embedding outs)"
| "extract_dense _ outs = rbind (get_output (last_hidden_state outs)) cls_rows"

fun extract_tokens :: "model_variant \<Rightarrow> session_outputs \<Rightarrow> (failure, fl list list list) result" where
  "extract_tokens Fp32 outs = get_output (token_embeddings outs)"
| "extract_tokens _ outs = get_output (last_hidden_state outs)"

fun extract_both ::
  "model_variant \<Rightarrow> session_outputs \<Rightarrow> (failure, fl list list \<times> fl list list list) result" where
  "extract_both Fp32 outs =
     rbind (get_output (sentence_embedding outs)) (\<lambda>dense.
     rbind (get_output (token_embeddings outs)) (\<lambda>tokens. Inr (dense, tokens)))"
| "extract_both _ outs =
     rbind (get_output (last_hidden_state outs)) (\<lambda>lhs.
     rbind (cls_rows lhs) (\<lambda>dense. Inr (dense, lhs)))"

text \<open>The result of one text, from its position in the chunk and its original index.\<close>

definition dense_row :: "fl list list \<Rightarrow> nat \<Rightarrow> nat \<Rightarrow> (failure, fl list) result" where
  "dense_row emb chunk_pos orig_idx =
     (if chunk_pos < length emb then Inr (normalize_l2 (emb ! chunk_pos)) else Inl Panic)"

definition sparse_row ::
  "projection \<Rightarrow> encoding list \<Rightarrow> fl list list list \<Rightarrow> nat \<Rightarrow> nat \<Rightarrow> (failure, sparse_embedding) result" where
  "sparse_row pj encs token_emb chunk_pos orig_idx =
     (if orig_idx < length encs \<and> chunk_pos < length token_emb
      then let enc = encs ! orig_idx; hidden = token_emb ! chunk_pos; n = length (enc_ids enc)
           in if n \<le> length hidden \<and> list_all (\<lambda>h. length h = length (pj_weight pj)) (take n hidden)
              then let scores = map (\<lambda>h. sparse_project (pj_dot pj) h (pj_weight pj) (pj_bias pj)) (take n hidden)
                   in case sparse_maxpool (enc_ids enc) (enc_mask enc) scores of
                        None \<Rightarrow> Inl Panic
                      | Some (ix, vs) \<Rightarrow> Inr \<lparr>sp_indices = ix, sp_values = vs\<rparr>
              else Inl Panic
      else Inl Panic)"

definition dual_row ::
  "projection \<Rightarrow> encoding list \<Rightarrow> fl list list \<times> fl list list list \<Rightarrow> nat \<Rightarrow> nat \<Rightarrow>
   (failure, dual_embedding) result" where
  "dual_row pj encs t chunk_pos orig_idx =
     rbind (dense_row (fst t) chunk_pos orig_idx) (\<lambda>d.
     rbind (sparse_row pj encs (snd t) chunk_pos orig_idx) (\<lambda>s.
       Inr \<lparr>du_dense = d, du_sparse = s\<rparr>))"

section \<open>The chunk loop\<close>

definition chunk_pad :: "nat list \<Rightarrow> nat list \<Rightarrow> nat" where
  "chunk_pad seq_lens chunk =
     max (case list_max (map (\<lambda>i. seq_lens ! i) chunk) of None \<Rightarrow> 1 | Some m \<Rightarrow> m) 1"

definition chunk_tensor ::
  "session \<Rightarrow> (session_outputs \<Rightarrow> (failure, 't) result) \<Rightarrow> encoding list \<Rightarrow> nat list \<Rightarrow> nat list \<Rightarrow>
   (failure, 't) result" where
  "chunk_tensor run extract encs seq_lens chunk =
     rbind (build_chunk_arrays encs chunk (chunk_pad seq_lens chunk)) (\<lambda>(ids_array, mask_array).
     rbind (map_err (\<lambda>e. Err (Msg e)) (run ids_array mask_array)) extract)"

fun scatter :: "(nat \<Rightarrow> nat \<Rightarrow> (failure, 'r) result) \<Rightarrow> nat \<Rightarrow> nat list \<Rightarrow> 'r list \<Rightarrow> (failure, 'r list) result" where
  "scatter row pos [] slots = Inr slots"
| "scatter row pos (orig_idx # chunk) slots =
     rbind (row pos orig_idx) (\<lambda>r.
       if orig_idx < length slots then scatter row (pos + 1) chunk (slots[orig_idx := r]) else Inl Panic)"

fun embed_loop ::
  "session \<Rightarrow> (session_outputs \<Rightarrow> (failure, 't) result) \<Rightarrow> ('t \<Rightarrow> nat \<Rightarrow> nat \<Rightarrow> (failure, 'r) result) \<Rightarrow>
   encoding list \<Rightarrow> nat list \<Rightarrow> (nat \<Rightarrow> nat) \<Rightarrow> nat \<Rightarrow> nat list list \<Rightarrow> 'r list \<times> nat \<times> nat \<Rightarrow>
   (failure, 'r list \<times> nat \<times> nat) result" where
  "embed_loop run extract row encs seq_lens clock k [] acc = Inr acc"
| "embed_loop run extract row encs seq_lens clock k (chunk # chunks) (slots, max_chunk_seq, inference_ms) =
     rbind (chunk_tensor run extract encs seq_lens chunk) (\<lambda>t.
     rbind (scatter (row t) 0 chunk slots) (\<lambda>slots'.
       embed_loop run extract row encs seq_lens clock (k + 1) chunks
         (slots', max max_chunk_seq (chunk_pad seq_lens chunk), sat_add usize_max inference_ms (clock k))))"

definition make_stats :: "nat list \<Rightarrow> nat list list \<Rightarrow> timing \<Rightarrow> nat \<Rightarrow> nat \<Rightarrow> embed_stats" where
  "make_stats seq_lens chunks tm max_chunk_seq inference_ms =
     (let d = seq_len_distribution seq_lens
      in \<lparr>st_chunks = length chunks, st_max_chunk_seq = max_chunk_seq,
          st_total_token_positions = sum_list seq_lens, st_tokenize_ms = clock_tokenize_ms tm,
          st_inference_ms = inference_ms, st_seq_len_min = sl_min d, st_seq_len_max = sl_max d,
          st_seq_len_mean = sl_mean d, st_seq_len_p95 = sl_p95 d\<rparr>)"

definition embed_route ::
  "(session_outputs \<Rightarrow> (failure, 't) result) \<Rightarrow> (encoding list \<Rightarrow> 't \<Rightarrow> nat \<Rightarrow> nat \<Rightarrow> (failure, 'r) result) \<Rightarrow>
   'r \<Rightarrow> session \<Rightarrow> tokenizer \<Rightarrow> timing \<Rightarrow> string list \<Rightarrow> cost_model \<Rightarrow> jit_guard option \<Rightarrow>
   (failure, 'r list \<times> embed_stats) result" where
  "embed_route extract row init run tok tm texts cm guard =
     rbind (tokenize_no_pad tok texts) (\<lambda>encs.
       let seq_lens = map (\<lambda>e. length (enc_ids e)) encs;
           chunks = bin_pack seq_lens cm
       in rbind (map_err (\<lambda>r. Err (Rejection r)) (guard_chunks guard chunks seq_lens)) (\<lambda>_.
          rbind (embed_loop run extract (row encs) encs seq_lens (clock_chunk_ms tm) 0 chunks
                   (replicate (length texts) init, 0, 0)) (\<lambda>(slots, max_chunk_seq, inference_ms).
            Inr (slots, make_stats seq_lens chunks tm max_chunk_seq inference_ms))))"

text \<open>\<open>expect("every slot must be filled")\<close>.\<close>

definition unwrap_slots :: "('r option list \<times> embed_stats) \<Rightarrow> (failure, 'r list \<times> embed_stats) result" where
  "unwrap_slots out =
     (if None \<in> set (fst out) then Inl Panic else Inr (map the (fst out), snd out))"

abbreviation some_row :: "('t \<Rightarrow> nat \<Rightarrow> nat \<Rightarrow> (failure, 'r) result) \<Rightarrow> 't \<Rightarrow> nat \<Rightarrow> nat \<Rightarrow> (failure, 'r option) result" where
  "some_row row t pos i \<equiv> rbind (row t pos i) (\<lambda>r. Inr (Some r))"

definition embed_dense ::
  "session \<Rightarrow> tokenizer \<Rightarrow> timing \<Rightarrow> string list \<Rightarrow> cost_model \<Rightarrow> model_variant \<Rightarrow> jit_guard option \<Rightarrow>
   (failure, fl list list \<times> embed_stats) result" where
  "embed_dense run tok tm texts cm variant guard =
     embed_route (extract_dense variant) (\<lambda>encs. dense_row) [] run tok tm texts cm guard"

definition embed_sparse ::
  "projection \<Rightarrow> session \<Rightarrow> tokenizer \<Rightarrow> timing \<Rightarrow> string list \<Rightarrow> cost_model \<Rightarrow> model_variant \<Rightarrow>
   jit_guard option \<Rightarrow> (failure, sparse_embedding list \<times> embed_stats) result" where
  "embed_sparse pj run tok tm texts cm variant guard =
     rbind (embed_route (extract_tokens variant) (\<lambda>encs. some_row (sparse_row pj encs)) None
              run tok tm texts cm guard) unwrap_slots"

definition embed_both ::
  "projection \<Rightarrow> session \<Rightarrow> tokenizer \<Rightarrow> timing \<Rightarrow> string list \<Rightarrow> cost_model \<Rightarrow> model_variant \<Rightarrow>
   jit_guard option \<Rightarrow> (failure, dual_embedding list \<times> embed_stats) result" where
  "embed_both pj run tok tm texts cm variant guard =
     rbind (embed_route (extract_both variant) (\<lambda>encs. some_row (dual_row pj encs)) None
              run tok tm texts cm guard) unwrap_slots"

section \<open>Facts about padding\<close>

definition wf_encoding :: "encoding \<Rightarrow> bool" where
  "wf_encoding e \<longleftrightarrow> length (enc_mask e) = length (enc_ids e)"

definition wf_array :: "array2 \<Rightarrow> bool" where
  "wf_array a \<longleftrightarrow> length (arr_flat a) = arr_rows a * arr_cols a"

definition padded_ids :: "nat \<Rightarrow> encoding \<Rightarrow> int list" where
  "padded_ids pad_to e = map int (enc_ids e) @ replicate (pad_to - length (enc_ids e)) 1"

definition padded_mask :: "nat \<Rightarrow> encoding \<Rightarrow> int list" where
  "padded_mask pad_to e = map int (enc_mask e) @ replicate (pad_to - length (enc_ids e)) 0"

lemma length_padded:
  "length (enc_ids e) \<le> pad_to \<Longrightarrow> length (padded_ids pad_to e) = pad_to"
  "wf_encoding e \<Longrightarrow> length (enc_ids e) \<le> pad_to \<Longrightarrow> length (padded_mask pad_to e) = pad_to"
  by (auto simp: padded_ids_def padded_mask_def wf_encoding_def)

lemma chunk_flat_eq:
  assumes "\<forall>i\<in>set indices. i < length encs"
  shows "chunk_flat encs indices pad_to =
     Inr (concat (map (\<lambda>i. padded_ids pad_to (encs ! i)) indices),
          concat (map (\<lambda>i. padded_mask pad_to (encs ! i)) indices))"
  using assms by (induction indices) (auto simp: padded_ids_def padded_mask_def Let_def)

lemma concat_uniform_length: "\<forall>r\<in>set rows. length r = n \<Longrightarrow> length (concat rows) = length rows * n"
  by (induction rows) auto

lemma concat_uniform_row:
  assumes "\<forall>r\<in>set rows. length r = n" and "i < length rows"
  shows "take n (drop (i * n) (concat rows)) = rows ! i"
  using assms
proof (induction rows arbitrary: i)
  case (Cons r rows)
  then show ?case by (cases i) auto
qed simp

lemma build_chunk_arrays_ok:
  assumes range: "\<forall>i\<in>set indices. i < length encs \<and> wf_encoding (encs ! i) \<and> length (enc_ids (encs ! i)) \<le> pad_to"
  shows "\<exists>ids_array mask_array. build_chunk_arrays encs indices pad_to = Inr (ids_array, mask_array) \<and>
    wf_array ids_array \<and> arr_rows ids_array = length indices \<and> arr_cols ids_array = pad_to \<and>
    wf_array mask_array \<and> arr_rows mask_array = length indices \<and> arr_cols mask_array = pad_to \<and>
    (\<forall>j<length indices. array_row ids_array j = padded_ids pad_to (encs ! (indices ! j)) \<and>
      array_row mask_array j = padded_mask pad_to (encs ! (indices ! j)))"
proof -
  let ?I = "map (\<lambda>i. padded_ids pad_to (encs ! i)) indices"
  let ?M = "map (\<lambda>i. padded_mask pad_to (encs ! i)) indices"
  have u: "\<forall>r\<in>set ?I. length r = pad_to" "\<forall>r\<in>set ?M. length r = pad_to"
    using range by (auto simp: length_padded)
  have "build_chunk_arrays encs indices pad_to =
      Inr (\<lparr>arr_rows = length indices, arr_cols = pad_to, arr_flat = concat ?I\<rparr>,
           \<lparr>arr_rows = length indices, arr_cols = pad_to, arr_flat = concat ?M\<rparr>)"
    using range concat_uniform_length [OF u(1)] concat_uniform_length [OF u(2)]
    by (simp add: build_chunk_arrays_def chunk_flat_eq from_shape_vec_def)
  then show ?thesis
    using concat_uniform_row [OF u(1)] concat_uniform_row [OF u(2)]
      concat_uniform_length [OF u(1)] concat_uniform_length [OF u(2)]
    by (simp add: array_row_def wf_array_def)
qed

lemma chunk_pad_ge: "i \<in> set chunk \<Longrightarrow> seq_lens ! i \<le> chunk_pad seq_lens chunk"
  using list_max_Some(2) [of "map (\<lambda>i. seq_lens ! i) chunk"]
  by (auto simp: chunk_pad_def split: option.splits intro: max.coboundedI1)

lemma chunk_pad_le:
  "(\<And>i. i \<in> set chunk \<Longrightarrow> seq_lens ! i \<le> max 1 b) \<Longrightarrow> chunk_pad seq_lens chunk \<le> max 1 b"
  using list_max_Some(1) [of "map (\<lambda>i. seq_lens ! i) chunk"]
  by (fastforce simp: chunk_pad_def split: option.splits)

lemma chunk_pad_pos: "1 \<le> chunk_pad seq_lens chunk"
  by (simp add: chunk_pad_def)

section \<open>The fused route is the pair of the single routes\<close>

definition pair_slots :: "fl list list \<Rightarrow> sparse_embedding option list \<Rightarrow> dual_embedding option list" where
  "pair_slots = map2 (\<lambda>d. map_option (\<lambda>s. \<lparr>du_dense = d, du_sparse = s\<rparr>))"

lemma pair_slots_update:
  "(pair_slots ds ss)[i := Some \<lparr>du_dense = d, du_sparse = s\<rparr>] = pair_slots (ds[i := d]) (ss[i := Some s])"
  by (cases "length ds \<le> i \<or> length ss \<le> i")
    (auto simp: pair_slots_def intro!: nth_equalityI simp: nth_list_update)

lemma length_pair_slots: "length ds = length ss \<Longrightarrow> length (pair_slots ds ss) = length ss"
  by (simp add: pair_slots_def)

lemma dual_row_Inr_iff:
  "dual_row pj encs t pos i = Inr r \<longleftrightarrow>
     (\<exists>d s. dense_row (fst t) pos i = Inr d \<and> sparse_row pj encs (snd t) pos i = Inr s \<and>
            r = \<lparr>du_dense = d, du_sparse = s\<rparr>)"
  by (auto simp: dual_row_def rbind_Inr_iff)

lemma scatter_pair:
  assumes "length ds = length ss"
  shows "scatter (some_row (dual_row pj encs) t) pos chunk (pair_slots ds ss) = Inr bs \<longleftrightarrow>
     (\<exists>ds' ss'. scatter (dense_row (fst t)) pos chunk ds = Inr ds' \<and>
        scatter (some_row (sparse_row pj encs) (snd t)) pos chunk ss = Inr ss' \<and> bs = pair_slots ds' ss')"
  using assms
proof (induction chunk arbitrary: pos ds ss)
  case (Cons i chunk)
  show ?case
  proof (cases "\<exists>d s. dense_row (fst t) pos i = Inr d \<and> sparse_row pj encs (snd t) pos i = Inr s \<and> i < length ss")
    case True
    then obtain d s where row: "dense_row (fst t) pos i = Inr d" "sparse_row pj encs (snd t) pos i = Inr s"
      "i < length ss" by blast
    then have "dual_row pj encs t pos i = Inr \<lparr>du_dense = d, du_sparse = s\<rparr>"
      by (simp add: dual_row_Inr_iff)
    then show ?thesis
      using row Cons.prems Cons.IH [of "ds[i := d]" "ss[i := Some s]" "pos + 1"]
      by (simp add: length_pair_slots pair_slots_update)
  next
    case False
    then show ?thesis using Cons.prems
      by (auto simp: rbind_Inr_iff dual_row_Inr_iff length_pair_slots split: if_splits)
  qed
qed auto

lemma scatter_length: "scatter row pos chunk slots = Inr slots' \<Longrightarrow> length slots' = length slots"
  by (induction row pos chunk slots rule: scatter.induct) (auto simp: rbind_Inr_iff split: if_splits)

lemma extract_both_Inr_iff:
  "extract_both v outs = Inr (d, t) \<longleftrightarrow> extract_dense v outs = Inr d \<and> extract_tokens v outs = Inr t"
  by (cases v) (auto simp: rbind_Inr_iff)

lemma chunk_tensor_both:
  "chunk_tensor run (extract_both v) encs seq_lens chunk = Inr (d, t) \<longleftrightarrow>
     chunk_tensor run (extract_dense v) encs seq_lens chunk = Inr d \<and>
     chunk_tensor run (extract_tokens v) encs seq_lens chunk = Inr t"
  by (fastforce simp: chunk_tensor_def rbind_Inr_iff extract_both_Inr_iff)

lemma embed_loop_pair:
  assumes "length ds = length ss"
  shows "embed_loop run (extract_both v) (some_row (dual_row pj encs)) encs seq_lens clock k chunks
           (pair_slots ds ss, m, ms) = Inr (bs, m', ms') \<longleftrightarrow>
     (\<exists>ds' ss'. embed_loop run (extract_dense v) dense_row encs seq_lens clock k chunks (ds, m, ms) = Inr (ds', m', ms') \<and>
        embed_loop run (extract_tokens v) (some_row (sparse_row pj encs)) encs seq_lens clock k chunks (ss, m, ms)
          = Inr (ss', m', ms') \<and> bs = pair_slots ds' ss')"
  using assms
proof (induction chunks arbitrary: k ds ss m ms)
  case (Cons c chunks)
  show ?case (is "?B \<longleftrightarrow> ?DS")
  proof
    assume ?B
    then obtain d t bs' where t: "chunk_tensor run (extract_both v) encs seq_lens c = Inr (d, t)"
      and sc: "scatter (some_row (dual_row pj encs) (d, t)) 0 c (pair_slots ds ss) = Inr bs'"
      and lp: "embed_loop run (extract_both v) (some_row (dual_row pj encs)) encs seq_lens clock (k + 1) chunks
        (bs', max m (chunk_pad seq_lens c), sat_add usize_max ms (clock k)) = Inr (bs, m', ms')"
      by (auto simp: rbind_Inr_iff)
    obtain ds' ss' where s: "scatter (dense_row d) 0 c ds = Inr ds'"
      "scatter (some_row (sparse_row pj encs) t) 0 c ss = Inr ss'" "bs' = pair_slots ds' ss'"
      using sc scatter_pair [OF Cons.prems, of pj encs "(d, t)"] by auto
    have "length ds' = length ss'" using s scatter_length Cons.prems by metis
    then show ?DS using Cons.IH [of ds' ss'] lp s t by (auto simp: chunk_tensor_both)
  next
    assume ?DS
    then obtain d t ds' ss' ds'' ss'' where t: "chunk_tensor run (extract_dense v) encs seq_lens c = Inr d"
        "chunk_tensor run (extract_tokens v) encs seq_lens c = Inr t"
      and s: "scatter (dense_row d) 0 c ds = Inr ds'" "scatter (some_row (sparse_row pj encs) t) 0 c ss = Inr ss'"
      and lp: "embed_loop run (extract_dense v) dense_row encs seq_lens clock (k + 1) chunks
          (ds', max m (chunk_pad seq_lens c), sat_add usize_max ms (clock k)) = Inr (ds'', m', ms')"
        "embed_loop run (extract_tokens v) (some_row (sparse_row pj encs)) encs seq_lens clock (k + 1) chunks
          (ss', max m (chunk_pad seq_lens c), sat_add usize_max ms (clock k)) = Inr (ss'', m', ms')"
      and bs: "bs = pair_slots ds'' ss''"
      by (auto simp: rbind_Inr_iff)
    have len: "length ds' = length ss'" using s scatter_length Cons.prems by metis
    have tb: "chunk_tensor run (extract_both v) encs seq_lens c = Inr (d, t)" using t by (simp add: chunk_tensor_both)
    have sb: "scatter (some_row (dual_row pj encs) (d, t)) 0 c (pair_slots ds ss) = Inr (pair_slots ds' ss')"
      using s by (auto simp: scatter_pair [OF Cons.prems])
    show ?B using Cons.IH [OF len] lp tb sb bs by auto
  qed
qed auto

lemma embed_loop_length:
  "embed_loop run extract row encs seq_lens clock k chunks acc = Inr (slots, m, ms) \<Longrightarrow> length slots = length (fst acc)"
proof (induction chunks arbitrary: k acc)
  case (Cons c chunks)
  then show ?case by (cases acc) (auto simp: rbind_Inr_iff dest: scatter_length)
qed auto

lemma embed_route_Inr_iff:
  "embed_route extract row init run tok tm texts cm guard = Inr (slots, st) \<longleftrightarrow>
     (\<exists>encs m ms. tok texts = Inr encs \<and>
        (let seq_lens = map (\<lambda>e. length (enc_ids e)) encs; chunks = bin_pack seq_lens cm
         in guard_chunks guard chunks seq_lens = Inr () \<and>
            embed_loop run extract (row encs) encs seq_lens (clock_chunk_ms tm) 0 chunks
              (replicate (length texts) init, 0, 0) = Inr (slots, m, ms) \<and>
            st = make_stats seq_lens chunks tm m ms))"
  by (auto simp: embed_route_def tokenize_no_pad_def rbind_Inr_iff Let_def map_err_Inr_iff)

lemma unwrap_slots_Inr_iff:
  "unwrap_slots (slots, st) = Inr (rs, st') \<longleftrightarrow> None \<notin> set slots \<and> rs = map the slots \<and> st' = st"
  by (auto simp: unwrap_slots_def)

lemma pair_slots_replicate: "pair_slots (replicate n d) (replicate n None) = replicate n None"
  by (simp add: pair_slots_def zip_replicate)

lemma pair_slots_None: "length ds = length ss \<Longrightarrow> None \<in> set (pair_slots ds ss) \<longleftrightarrow> None \<in> set ss"
  unfolding pair_slots_def by (induction ds ss rule: list_induct2) auto

lemma pair_slots_the:
  "length ds = length ss \<Longrightarrow> None \<notin> set ss \<Longrightarrow>
     map the (pair_slots ds ss) = map2 (\<lambda>d s. \<lparr>du_dense = d, du_sparse = s\<rparr>) ds (map the ss)"
  unfolding pair_slots_def by (induction ds ss rule: list_induct2) (auto simp: option.map_sel)

lemma make_stats_inj [simp]:
  "make_stats lens chunks tm m ms = make_stats lens chunks tm m' ms' \<longleftrightarrow> m = m' \<and> ms = ms'"
  by (auto simp: make_stats_def Let_def)

lemma embed_route_pair:
  "embed_route (extract_both v) (\<lambda>encs. some_row (dual_row pj encs)) None run tok tm texts cm guard = Inr (bs, st) \<longleftrightarrow>
     (\<exists>ds ss. embed_route (extract_dense v) (\<lambda>encs. dense_row) [] run tok tm texts cm guard = Inr (ds, st) \<and>
        embed_route (extract_tokens v) (\<lambda>encs. some_row (sparse_row pj encs)) None run tok tm texts cm guard = Inr (ss, st) \<and>
        length ds = length texts \<and> length ss = length texts \<and> bs = pair_slots ds ss)" (is "?B \<longleftrightarrow> ?DS")
proof
  assume ?B
  then show ?DS
    using embed_loop_pair [of "replicate (length texts) []" "replicate (length texts) None"]
    by (fastforce simp: embed_route_Inr_iff Let_def pair_slots_replicate dest: embed_loop_length)
next
  assume ?DS
  then show ?B
    using embed_loop_pair [of "replicate (length texts) []" "replicate (length texts) None"]
    by (fastforce simp: embed_route_Inr_iff Let_def pair_slots_replicate)
qed

lemma embed_route_length:
  "embed_route extract row init run tok tm texts cm guard = Inr (slots, st) \<Longrightarrow> length slots = length texts"
  by (auto simp: embed_route_Inr_iff Let_def dest: embed_loop_length)

lemma embed_sparse_iff:
  "embed_sparse pj run tok tm texts cm v guard = Inr (ss, st) \<longleftrightarrow>
     (\<exists>slots. embed_route (extract_tokens v) (\<lambda>encs. some_row (sparse_row pj encs)) None run tok tm texts cm guard
        = Inr (slots, st) \<and> None \<notin> set slots \<and> ss = map the slots)"
  by (auto simp: embed_sparse_def rbind_Inr_iff unwrap_slots_Inr_iff)

lemma embed_both_iff:
  "embed_both pj run tok tm texts cm v guard = Inr (bs, st) \<longleftrightarrow>
     (\<exists>slots. embed_route (extract_both v) (\<lambda>encs. some_row (dual_row pj encs)) None run tok tm texts cm guard
        = Inr (slots, st) \<and> None \<notin> set slots \<and> bs = map the slots)"
  by (auto simp: embed_both_def rbind_Inr_iff unwrap_slots_Inr_iff)

text \<open>The statistics depend on the packing and the clock only, not on the route.\<close>

lemma embed_loop_same_stats:
  assumes "embed_loop run extract row encs seq_lens clock k chunks (slots, m, ms) = Inr (slots1, m1, ms1)"
    and "embed_loop run extract' row' encs seq_lens clock k chunks (slots', m, ms) = Inr (slots2, m2, ms2)"
  shows "m1 = m2 \<and> ms1 = ms2"
  using assms
proof (induction chunks arbitrary: k slots slots' m ms)
  case (Cons c chunks)
  then show ?case unfolding embed_loop.simps rbind_Inr_iff by blast
qed auto

lemma dense_sparse_same_stats:
  assumes "embed_dense run tok tm texts cm v guard = Inr (ds, st)" and "embed_sparse pj run tok tm texts cm v guard = Inr (ss, st')"
  shows "st = st'"
  using assms
  by (auto simp: embed_dense_def embed_sparse_iff embed_route_Inr_iff Let_def dest: embed_loop_same_stats)

section \<open>Every slot is filled\<close>

lemma scatter_ok:
  assumes "\<And>j. j < length c \<Longrightarrow> row (pos + j) (c ! j) = Inr (F (c ! j)) \<and> c ! j < length slots"
  shows "\<exists>slots'. scatter row pos c slots = Inr slots' \<and> length slots' = length slots \<and>
    (\<forall>i<length slots. slots' ! i = (if i \<in> set c then F i else slots ! i))"
  using assms
proof (induction c arbitrary: pos slots)
  case (Cons i c)
  have hd: "row pos i = Inr (F i)" "i < length slots" using Cons.prems [of 0] by auto
  have "\<exists>slots'. scatter row (pos + 1) c (slots[i := F i]) = Inr slots' \<and> length slots' = length slots \<and>
    (\<forall>j<length slots. slots' ! j = (if j \<in> set c then F j else slots[i := F i] ! j))"
    using Cons.IH [of "pos + 1" "slots[i := F i]"] Cons.prems [of "Suc j" for j] by simp
  then show ?case using hd by (auto simp: nth_list_update)
qed simp

lemma embed_loop_ok:
  assumes "\<And>c. c \<in> set chunks \<Longrightarrow> \<exists>t. chunk_tensor run extract encs lens c = Inr t \<and>
      (\<forall>j<length c. row t j (c ! j) = Inr (F (c ! j)) \<and> c ! j < length slots)"
  shows "\<exists>slots' ms'. embed_loop run extract row encs lens clock k chunks (slots, m, ms) =
      Inr (slots', foldl max m (map (chunk_pad lens) chunks), ms') \<and> length slots' = length slots \<and>
    (\<forall>i<length slots. slots' ! i = (if i \<in> set (concat chunks) then F i else slots ! i))"
  using assms
proof (induction chunks arbitrary: k slots m ms)
  case (Cons c chunks)
  obtain t where t: "chunk_tensor run extract encs lens c = Inr t"
    "\<And>j. j < length c \<Longrightarrow> row t (0 + j) (c ! j) = Inr (F (c ! j)) \<and> c ! j < length slots"
    using Cons.prems [of c] by auto
  obtain s1 where s1: "scatter (row t) 0 c slots = Inr s1" "length s1 = length slots"
    "\<forall>i<length slots. s1 ! i = (if i \<in> set c then F i else slots ! i)"
    using scatter_ok [where row = "row t", OF t(2)] by metis
  obtain s2 ms2 where s2: "embed_loop run extract row encs lens clock (k + 1) chunks
      (s1, max m (chunk_pad lens c), sat_add usize_max ms (clock k)) =
      Inr (s2, foldl max (max m (chunk_pad lens c)) (map (chunk_pad lens) chunks), ms2)" "length s2 = length s1"
    "\<forall>i<length s1. s2 ! i = (if i \<in> set (concat chunks) then F i else s1 ! i)"
    using Cons.IH [of s1 "k + 1" "max m (chunk_pad lens c)" "sat_add usize_max ms (clock k)"] Cons.prems s1(2)
    by (metis list.set_intros(2))
  show ?case
    by (rule exI [of _ s2], rule exI [of _ ms2]) (use t s1 s2 in auto)
qed simp

definition chunk_of :: "nat list list \<Rightarrow> nat \<Rightarrow> nat list" where
  "chunk_of chunks i = the (find (\<lambda>c. i \<in> set c) chunks)"

lemma chunk_of_distinct:
  "distinct (concat chunks) \<Longrightarrow> c \<in> set chunks \<Longrightarrow> i \<in> set c \<Longrightarrow> chunk_of chunks i = c"
  by (induction chunks) (auto simp: chunk_of_def)

context chunking
begin

lemma chunk_of_pack: "c \<in> set (pack lens) \<Longrightarrow> i \<in> set c \<Longrightarrow> chunk_of (pack lens) i = c"
  by (rule chunk_of_distinct [OF pack_distinct])

lemma chunk_of_covers:
  "i < length lens \<Longrightarrow> chunk_of (pack lens) i \<in> set (pack lens) \<and> i \<in> set (chunk_of (pack lens) i)"
  using pack_covers [of i lens] by (auto simp: chunk_of_pack)

text \<open>
  Whatever the packer, when every chunk runs and yields \<open>G c i\<close> for each text \<open>i\<close> of it, the loop ends
  with the result of every text in its slot.
\<close>

lemma loop_complete:
  assumes "\<And>c. c \<in> set (pack lens) \<Longrightarrow> \<exists>t. chunk_tensor run extract encs lens c = Inr t \<and>
      (\<forall>j<length c. row t j (c ! j) = Inr (G c (c ! j)))"
  shows "\<exists>slots ms. embed_loop run extract row encs lens clock 0 (pack lens) (replicate (length lens) init, 0, 0) =
      Inr (slots, foldl max 0 (map (chunk_pad lens) (pack lens)), ms) \<and> length slots = length lens \<and>
    (\<forall>i<length lens. slots ! i = G (chunk_of (pack lens) i) i)"
proof -
  have "\<exists>slots ms. embed_loop run extract row encs lens clock 0 (pack lens) (replicate (length lens) init, 0, 0) =
      Inr (slots, foldl max 0 (map (chunk_pad lens) (pack lens)), ms) \<and> length slots = length (replicate (length lens) init) \<and>
    (\<forall>i<length (replicate (length lens) init). slots ! i =
      (if i \<in> set (concat (pack lens)) then G (chunk_of (pack lens) i) i else replicate (length lens) init ! i))"
  proof (rule embed_loop_ok)
    fix c assume c: "c \<in> set (pack lens)"
    then show "\<exists>t. chunk_tensor run extract encs lens c = Inr t \<and> (\<forall>j<length c.
        row t j (c ! j) = Inr (G (chunk_of (pack lens) (c ! j)) (c ! j)) \<and> c ! j < length (replicate (length lens) init))"
      using assms [OF c] chunk_of_pack [OF c] pack_bound [OF c] by auto
  qed
  then show ?thesis unfolding pack_set length_replicate by auto
qed

text \<open>The longest chunk is as long as the longest text.\<close>

lemma max_chunk_pad:
  "foldl max 0 (map (chunk_pad lens) (pack lens)) = (if lens = [] then 0 else max 1 (Max (set lens)))"
proof (cases "lens = []")
  case False
  have "chunk_pad lens c \<le> max 1 (Max (set lens))" if c: "c \<in> set (pack lens)" for c
    using pack_bound [OF c] by (intro chunk_pad_le) (simp add: le_max_iff_disj)
  moreover obtain c where "c \<in> set (pack lens)" "Max (set lens) \<le> chunk_pad lens c"
    using False pack_covers chunk_pad_ge by (metis List.finite_set Max_in in_set_conv_nth set_empty2)
  ultimately have "Max (insert 0 (chunk_pad lens ` set (pack lens))) = max 1 (Max (set lens))"
    using chunk_pad_pos [of lens c] by (intro Max_eqI) (auto intro!: image_eqI [of _ _ c] simp: max_def order_antisym)
  then show ?thesis using False by (simp add: foldl_max_Max)
qed (use pack_set [of "[]"] pack_nonempty [of _ "[]"] in auto)

end

section \<open>What the pipelines rely on in the ONNX session\<close>

text \<open>
  The contract of the exported BGE-M3 graphs: inputs of shape \<open>[batch, seq]\<close> give, for the variant in
  use, outputs with one entry per row, computed from that row of the two inputs (\<open>g\<close> for the pooled
  output, \<open>h\<close> for the hidden states, one per token and \<open>width\<close> wide).
\<close>

definition rows_of :: "(int list \<Rightarrow> int list \<Rightarrow> 'r) \<Rightarrow> array2 \<Rightarrow> array2 \<Rightarrow> 'r list" where
  "rows_of f ids am = map (\<lambda>j. f (array_row ids j) (array_row am j)) [0..<arr_rows ids]"

definition session_contract ::
  "session \<Rightarrow> model_variant \<Rightarrow> (int list \<Rightarrow> int list \<Rightarrow> fl list) \<Rightarrow> (int list \<Rightarrow> int list \<Rightarrow> fl list list) \<Rightarrow> nat \<Rightarrow> bool" where
  "session_contract run v g h width \<longleftrightarrow>
     (\<forall>ids am. wf_array ids \<and> wf_array am \<and> arr_rows am = arr_rows ids \<and> arr_cols am = arr_cols ids \<longrightarrow>
        (\<exists>outs. run ids am = Inr outs \<and>
          (if v = Fp32
           then sentence_embedding outs = Some (Inr (rows_of g ids am)) \<and>
                token_embeddings outs = Some (Inr (rows_of h ids am))
           else last_hidden_state outs = Some (Inr (rows_of h ids am))))) \<and>
     (\<forall>i m. length (h i m) = length i \<and> (\<forall>x\<in>set (h i m). length x = width))"

lemma session_contractD:
  "session_contract run v g h width \<Longrightarrow> wf_array ids \<Longrightarrow> wf_array am \<Longrightarrow> arr_rows am = arr_rows ids \<Longrightarrow>
   arr_cols am = arr_cols ids \<Longrightarrow>
   \<exists>outs. run ids am = Inr outs \<and>
     (if v = Fp32
      then sentence_embedding outs = Some (Inr (rows_of g ids am)) \<and>
           token_embeddings outs = Some (Inr (rows_of h ids am))
      else last_hidden_state outs = Some (Inr (rows_of h ids am)))"
  unfolding session_contract_def by blast

definition dense_of ::
  "model_variant \<Rightarrow> (int list \<Rightarrow> int list \<Rightarrow> fl list) \<Rightarrow> (int list \<Rightarrow> int list \<Rightarrow> fl list list) \<Rightarrow>
   int list \<Rightarrow> int list \<Rightarrow> fl list" where
  "dense_of v g h i m = (if v = Fp32 then g i m else hd (h i m))"

text \<open>The tokenizer returns one encoding per text, with a mask bit per token.\<close>

definition tokenizes :: "tokenizer \<Rightarrow> string list \<Rightarrow> encoding list \<Rightarrow> bool" where
  "tokenizes tok texts encs \<longleftrightarrow>
     tok texts = Inr encs \<and> length encs = length texts \<and> list_all wf_encoding encs"

abbreviation seq_lens_of :: "encoding list \<Rightarrow> nat list" where
  "seq_lens_of encs \<equiv> map (\<lambda>e. length (enc_ids e)) encs"

text \<open>The padded inputs of text \<open>i\<close> when it runs in chunk \<open>c\<close>, and what the model returns on them.\<close>

definition padded_run :: "(int list \<Rightarrow> int list \<Rightarrow> 'r) \<Rightarrow> encoding list \<Rightarrow> nat list \<Rightarrow> nat \<Rightarrow> 'r" where
  "padded_run f encs c i =
     f (padded_ids (chunk_pad (seq_lens_of encs) c) (encs ! i)) (padded_mask (chunk_pad (seq_lens_of encs) c) (encs ! i))"

lemma chunk_tensor_run:
  assumes c: "\<forall>i\<in>set c. i < length encs" and wf: "list_all wf_encoding encs"
    and run: "session_contract run v g h width"
  shows "\<exists>outs. chunk_tensor run extract encs (seq_lens_of encs) c = extract outs \<and>
     extract_dense v outs = Inr (map (padded_run (dense_of v g h) encs c) c) \<and>
     extract_tokens v outs = Inr (map (padded_run h encs c) c)"
proof -
  let ?p = "chunk_pad (seq_lens_of encs) c"
  have "\<forall>i\<in>set c. i < length encs \<and> wf_encoding (encs ! i) \<and> length (enc_ids (encs ! i)) \<le> ?p"
    using c wf chunk_pad_ge [of _ c "seq_lens_of encs"] by (auto simp: list_all_length)
  from build_chunk_arrays_ok [OF this] obtain ids am where a: "build_chunk_arrays encs c ?p = Inr (ids, am)"
    "arr_rows ids = length c" "arr_cols ids = ?p" "arr_rows am = length c" "arr_cols am = ?p" "wf_array ids" "wf_array am"
    "\<forall>j<length c. array_row ids j = padded_ids ?p (encs ! (c ! j)) \<and> array_row am j = padded_mask ?p (encs ! (c ! j))"
    by blast
  have rows: "rows_of f ids am = map (padded_run f encs c) c" for f :: "int list \<Rightarrow> int list \<Rightarrow> 'z"
    by (rule nth_equalityI) (simp_all add: rows_of_def padded_run_def a)
  obtain outs where r: "run ids am = Inr outs"
    and o: "if v = Fp32 then sentence_embedding outs = Some (Inr (rows_of g ids am)) \<and>
                token_embeddings outs = Some (Inr (rows_of h ids am))
           else last_hidden_state outs = Some (Inr (rows_of h ids am))"
    using session_contractD [OF run] a(2-7) by metis
  have "length (padded_run h encs c i) = ?p" if "i \<in> set c" for i
    using run c chunk_pad_ge [OF that, of "seq_lens_of encs"] that
    by (simp add: session_contract_def padded_run_def length_padded)
  then have "[] \<notin> padded_run h encs c ` set c"
    using chunk_pad_pos [of "seq_lens_of encs" c] by force
  then show ?thesis using o r a(1)
    by (intro exI [of _ outs]) (cases v; auto simp: chunk_tensor_def rows cls_rows_def dense_of_def padded_run_def)
qed

section \<open>The routes under these contracts\<close>

definition admitted :: "jit_guard option \<Rightarrow> cost_model \<Rightarrow> encoding list \<Rightarrow> bool" where
  "admitted guard cm encs \<longleftrightarrow>
     guard_chunks guard (bin_pack (seq_lens_of encs) cm) (seq_lens_of encs) = Inr ()"

lemma admitted_None [simp]: "admitted None cm encs"
  by (simp add: admitted_def guard_chunks_def)

abbreviation chunk_at :: "cost_model \<Rightarrow> encoding list \<Rightarrow> nat \<Rightarrow> nat list" where
  "chunk_at cm encs i \<equiv> chunk_of (bin_pack (seq_lens_of encs) cm) i"

lemma route_complete:
  assumes tok: "tokenizes tok texts encs" and adm: "admitted guard cm encs"
    and rows: "\<And>c. c \<in> set (bin_pack (seq_lens_of encs) cm) \<Longrightarrow>
      \<exists>t. chunk_tensor run extract encs (seq_lens_of encs) c = Inr t \<and>
        (\<forall>j<length c. row encs t j (c ! j) = Inr (G c (c ! j)))"
  shows "\<exists>slots st. embed_route extract row init run tok tm texts cm guard = Inr (slots, st) \<and>
     length slots = length texts \<and> (\<forall>i<length texts. slots ! i = G (chunk_at cm encs i) i) \<and>
     st_chunks st = length (bin_pack (seq_lens_of encs) cm) \<and>
     st_max_chunk_seq st = (if texts = [] then 0 else max 1 (Max (set (seq_lens_of encs))))"
proof -
  have len: "length (seq_lens_of encs) = length texts" "seq_lens_of encs = [] \<longleftrightarrow> texts = []"
    using tok by (auto simp: tokenizes_def)
  obtain slots ms where loop: "embed_loop run extract (row encs) encs (seq_lens_of encs) (clock_chunk_ms tm) 0
      (bin_pack (seq_lens_of encs) cm) (replicate (length (seq_lens_of encs)) init, 0, 0) =
      Inr (slots, foldl max 0 (map (chunk_pad (seq_lens_of encs)) (bin_pack (seq_lens_of encs) cm)), ms)"
    "length slots = length (seq_lens_of encs)" "\<forall>i<length (seq_lens_of encs). slots ! i = G (chunk_at cm encs i) i"
    using bp.loop_complete [where lens = "seq_lens_of encs" and cm = cm and row = "row encs", OF rows] by blast
  show ?thesis
    using tok adm loop len
    by (auto simp: embed_route_Inr_iff Let_def tokenizes_def admitted_def bp.max_chunk_pad make_stats_def)
qed

lemma chunk_run:
  assumes tok: "tokenizes tok texts encs" and run: "session_contract run v g h width"
    and c: "c \<in> set (bin_pack (seq_lens_of encs) cm)"
  shows "\<exists>outs. chunk_tensor run extract encs (seq_lens_of encs) c = extract outs \<and>
     extract_dense v outs = Inr (map (padded_run (dense_of v g h) encs c) c) \<and>
     extract_tokens v outs = Inr (map (padded_run h encs c) c)"
  using tok bp.pack_bound [OF c] by (intro chunk_tensor_run [OF _ _ run]) (auto simp: tokenizes_def)

lemma dense_complete:
  assumes tok: "tokenizes tok texts encs" and run: "session_contract run v g h width"
    and adm: "admitted guard cm encs"
  shows "\<exists>vs st. embed_dense run tok tm texts cm v guard = Inr (vs, st) \<and> length vs = length texts \<and>
     (\<forall>i<length texts. vs ! i = normalize_l2 (padded_run (dense_of v g h) encs (chunk_at cm encs i) i)) \<and>
     st_chunks st = length (bin_pack (seq_lens_of encs) cm) \<and>
     st_max_chunk_seq st = (if texts = [] then 0 else max 1 (Max (set (seq_lens_of encs))))"
  unfolding embed_dense_def
proof (rule route_complete [OF tok adm])
  fix c assume "c \<in> set (bin_pack (seq_lens_of encs) cm)"
  from chunk_run [OF tok run this, of "extract_dense v"]
  show "\<exists>t. chunk_tensor run (extract_dense v) encs (seq_lens_of encs) c = Inr t \<and>
      (\<forall>j<length c. dense_row t j (c ! j) = Inr (normalize_l2 (padded_run (dense_of v g h) encs c (c ! j))))"
    by (auto simp: dense_row_def)
qed

text \<open>The sparse embedding of a text from its hidden states, one per token.\<close>

definition sparse_of :: "projection \<Rightarrow> encoding \<Rightarrow> fl list list \<Rightarrow> sparse_embedding" where
  "sparse_of pj enc hidden =
     (case the (sparse_maxpool (enc_ids enc) (enc_mask enc)
                  (map (\<lambda>x. sparse_project (pj_dot pj) x (pj_weight pj) (pj_bias pj)) (take (length (enc_ids enc)) hidden)))
      of (ix, vs) \<Rightarrow> \<lparr>sp_indices = ix, sp_values = vs\<rparr>)"

lemma sparse_row_ok:
  assumes enc: "i < length encs" "wf_encoding (encs ! i)"
    and hid: "pos < length tokens" "length (enc_ids (encs ! i)) \<le> length (tokens ! pos)"
      "\<forall>x\<in>set (tokens ! pos). length x = length (pj_weight pj)"
  shows "sparse_row pj encs tokens pos i = Inr (sparse_of pj (encs ! i) (tokens ! pos))"
proof -
  let ?e = "encs ! i"
  let ?s = "map (\<lambda>x. sparse_project (pj_dot pj) x (pj_weight pj) (pj_bias pj)) (take (length (enc_ids ?e)) (tokens ! pos))"
  have "length (enc_mask ?e) = length (enc_ids ?e)" "length ?s = length (enc_ids ?e)"
    using enc hid by (auto simp: wf_encoding_def)
  then obtain r where "sparse_maxpool (enc_ids ?e) (enc_mask ?e) ?s = Some r"
    by (metis sparse_maxpool_cases)
  moreover have "list_all (\<lambda>x. length x = length (pj_weight pj)) (take (length (enc_ids ?e)) (tokens ! pos))"
    using hid(3) by (auto simp: list_all_iff dest: in_set_takeD)
  ultimately show ?thesis using enc hid
    by (auto simp: sparse_row_def sparse_of_def Let_def split: prod.splits)
qed

lemma sparse_complete:
  assumes tok: "tokenizes tok texts encs" and run: "session_contract run v g h (length (pj_weight pj))"
    and adm: "admitted guard cm encs"
  shows "\<exists>ss st. embed_sparse pj run tok tm texts cm v guard = Inr (ss, st) \<and> length ss = length texts \<and>
     (\<forall>i<length texts. ss ! i = sparse_of pj (encs ! i) (padded_run h encs (chunk_at cm encs i) i))"
proof -
  let ?R = "\<lambda>encs t pos i. some_row (sparse_row pj encs) t pos i"
  have "\<exists>slots st. embed_route (extract_tokens v) ?R None run tok tm texts cm guard = Inr (slots, st) \<and>
     length slots = length texts \<and>
     (\<forall>i<length texts. slots ! i = Some (sparse_of pj (encs ! i) (padded_run h encs (chunk_at cm encs i) i))) \<and>
     st_chunks st = length (bin_pack (seq_lens_of encs) cm) \<and>
     st_max_chunk_seq st = (if texts = [] then 0 else max 1 (Max (set (seq_lens_of encs))))"
  proof (rule route_complete [OF tok adm])
    fix c assume c: "c \<in> set (bin_pack (seq_lens_of encs) cm)"
    from chunk_run [OF tok run this, of "extract_tokens v"]
    have t: "chunk_tensor run (extract_tokens v) encs (seq_lens_of encs) c = Inr (map (padded_run h encs c) c)" by auto
    moreover have "sparse_row pj encs (map (padded_run h encs c) c) j (c ! j) =
        Inr (sparse_of pj (encs ! (c ! j)) (padded_run h encs c (c ! j)))" if j: "j < length c" for j
    proof -
      have i: "c ! j < length encs" using bp.pack_bound [OF c, of "c ! j"] j by simp
      have len: "length (padded_run h encs c (c ! j)) = chunk_pad (seq_lens_of encs) c"
        using run i chunk_pad_ge [of "c ! j" c "seq_lens_of encs"] j
        by (simp add: padded_run_def session_contract_def length_padded)
      show ?thesis
        using tok i j len run chunk_pad_ge [of "c ! j" c "seq_lens_of encs"]
          sparse_row_ok [of "c ! j" encs j "map (padded_run h encs c) c" pj]
        by (auto simp: tokenizes_def list_all_length padded_run_def session_contract_def)
    qed
    ultimately show "\<exists>t. chunk_tensor run (extract_tokens v) encs (seq_lens_of encs) c = Inr t \<and>
        (\<forall>j<length c. ?R encs t j (c ! j) = Inr (Some (sparse_of pj (encs ! (c ! j)) (padded_run h encs c (c ! j)))))"
      by auto
  qed
  then show ?thesis
    by (fastforce simp: embed_sparse_def unwrap_slots_Inr_iff in_set_conv_nth)
qed

text \<open>
  A model that ignores padding: the outputs for the tokens of a text do not depend on how far its
  row is padded (padding carries attention mask 0).
\<close>

definition padding_invariant :: "(int list \<Rightarrow> int list \<Rightarrow> 'r) \<Rightarrow> (encoding \<Rightarrow> 'r \<Rightarrow> 's) \<Rightarrow> encoding list \<Rightarrow> bool" where
  "padding_invariant f view encs \<longleftrightarrow>
     (\<forall>e\<in>set encs. \<forall>p\<ge>length (enc_ids e).
        view e (f (padded_ids p e) (padded_mask p e)) = view e (f (map int (enc_ids e)) (map int (enc_mask e))))"

lemma padding_invariant_run:
  assumes "padding_invariant f view encs" and "i < length encs" and "i \<in> set c"
  shows "view (encs ! i) (padded_run f encs c i) =
    view (encs ! i) (f (map int (enc_ids (encs ! i))) (map int (enc_mask (encs ! i))))"
  using assms chunk_pad_ge [OF assms(3), of "seq_lens_of encs"]
  by (simp add: padding_invariant_def padded_run_def)

section \<open>A concrete model\<close>

text \<open>A session, a tokenizer and a projection that keep the contracts, to run the properties on.\<close>

definition sample_g :: "int list \<Rightarrow> int list \<Rightarrow> fl list" where
  "sample_g i m = [Fin (of_int (sum_list m))]"

definition sample_h :: "int list \<Rightarrow> int list \<Rightarrow> fl list list" where
  "sample_h i m = map (\<lambda>t. [Fin (of_int t)]) i"

definition sample_run :: session where
  "sample_run ids am =
     Inr \<lparr>sentence_embedding = Some (Inr (rows_of sample_g ids am)),
          token_embeddings = Some (Inr (rows_of sample_h ids am)), last_hidden_state = None\<rparr>"

definition sample_tok :: tokenizer where
  "sample_tok texts =
     Inr (map (\<lambda>t. \<lparr>enc_ids = 0 # map of_char t @ [2], enc_mask = replicate (length t + 2) 1\<rparr>) texts)"

definition sample_encs :: "string list \<Rightarrow> encoding list" where
  "sample_encs texts = projr (sample_tok texts)"

definition sample_pj :: projection where
  "sample_pj = \<lparr>pj_dot = (\<lambda>x y. hd x), pj_weight = [Fin 1], pj_bias = Fin 0\<rparr>"

definition sample_tm :: timing where
  "sample_tm = \<lparr>clock_tokenize_ms = 3, clock_chunk_ms = (\<lambda>k. 5)\<rparr>"

lemma sample_contract: "session_contract sample_run Fp32 sample_g sample_h 1"
  by (auto simp: session_contract_def sample_run_def sample_h_def)

lemma sample_tokenizes: "tokenizes sample_tok texts (sample_encs texts)"
  by (auto simp: tokenizes_def sample_encs_def sample_tok_def list_all_iff wf_encoding_def)

lemma sample_invariant:
  "padding_invariant (dense_of Fp32 sample_g sample_h) (\<lambda>e r. r) (sample_encs texts)"
  "padding_invariant sample_h (\<lambda>e. take (length (enc_ids e))) (sample_encs texts)"
  by (auto simp: padding_invariant_def dense_of_def sample_g_def sample_h_def padded_mask_def padded_ids_def
      sample_encs_def sample_tok_def sum_list_replicate)

lemma embed_both_iff_pair:
  "embed_both pj run tok tm texts cm v guard = Inr (bs, st) \<longleftrightarrow>
     (\<exists>ds ss. embed_dense run tok tm texts cm v guard = Inr (ds, st) \<and>
        embed_sparse pj run tok tm texts cm v guard = Inr (ss, st) \<and>
        bs = map2 (\<lambda>d s. \<lparr>du_dense = d, du_sparse = s\<rparr>) ds ss)"
proof
  assume "embed_both pj run tok tm texts cm v guard = Inr (bs, st)"
  then show "\<exists>ds ss. embed_dense run tok tm texts cm v guard = Inr (ds, st) \<and>
      embed_sparse pj run tok tm texts cm v guard = Inr (ss, st) \<and>
      bs = map2 (\<lambda>d s. \<lparr>du_dense = d, du_sparse = s\<rparr>) ds ss"
    by (auto simp: embed_both_iff embed_sparse_iff embed_dense_def embed_route_pair pair_slots_None pair_slots_the)
next
  assume "\<exists>ds ss. embed_dense run tok tm texts cm v guard = Inr (ds, st) \<and>
      embed_sparse pj run tok tm texts cm v guard = Inr (ss, st) \<and>
      bs = map2 (\<lambda>d s. \<lparr>du_dense = d, du_sparse = s\<rparr>) ds ss"
  then obtain ds ss where r: "embed_route (extract_dense v) (\<lambda>encs. dense_row) [] run tok tm texts cm guard = Inr (ds, st)"
    "embed_route (extract_tokens v) (\<lambda>encs. some_row (sparse_row pj encs)) None run tok tm texts cm guard = Inr (ss, st)"
    "None \<notin> set ss" "bs = map2 (\<lambda>d s. \<lparr>du_dense = d, du_sparse = s\<rparr>) ds (map the ss)"
    by (auto simp: embed_sparse_iff embed_dense_def)
  then have "length ds = length texts" "length ss = length texts" by (auto dest: embed_route_length)
  then show "embed_both pj run tok tm texts cm v guard = Inr (bs, st)"
    using r unfolding embed_both_iff embed_route_pair
    by (intro exI [of _ "pair_slots ds ss"]) (auto simp: pair_slots_None pair_slots_the)
qed

lemma dense_pointwise:
  assumes "tokenizes tok texts encs" and "session_contract run v g h width" and "admitted guard cm encs"
    and "padding_invariant (dense_of v g h) (\<lambda>e r. r) encs"
  shows "\<exists>st. embed_dense run tok tm texts cm v guard =
     Inr (map (\<lambda>e. normalize_l2 (dense_of v g h (map int (enc_ids e)) (map int (enc_mask e)))) encs, st)"
proof -
  have len: "length (seq_lens_of encs) = length texts" "length encs = length texts"
    using assms(1) by (auto simp: tokenizes_def)
  obtain vs st where vs: "embed_dense run tok tm texts cm v guard = Inr (vs, st)" "length vs = length texts"
    "\<forall>i<length texts. vs ! i = normalize_l2 (padded_run (dense_of v g h) encs (chunk_at cm encs i) i)"
    using dense_complete [OF assms(1-3), of tm] by blast
  have "vs = map (\<lambda>e. normalize_l2 (dense_of v g h (map int (enc_ids e)) (map int (enc_mask e)))) encs"
    using vs len bp.chunk_of_covers [of _ "seq_lens_of encs" cm] padding_invariant_run [OF assms(4)]
    by (intro nth_equalityI) auto
  then show ?thesis using vs by auto
qed

section \<open>Properties\<close>

text \<open>
  C10: when the tokenizer and the session keep their contracts and the guard admits the batch, the
  dense route succeeds without a panic and returns exactly one vector per text, in input order:
  position \<open>i\<close> holds the normalised model output for text \<open>i\<close> padded to the longest text of its own
  chunk. The reported chunk count and longest padded length are those of the packing.
\<close>

theorem embed_dense_correct:
  assumes "tokenizes tok texts encs" and "session_contract run v g h width" and "admitted guard cm encs"
  shows "\<exists>vs st. embed_dense run tok tm texts cm v guard = Inr (vs, st) \<and> length vs = length texts \<and>
     (\<forall>i<length texts. \<exists>c\<in>set (bin_pack (seq_lens_of encs) cm). i \<in> set c \<and>
        vs ! i = normalize_l2 (padded_run (dense_of v g h) encs c i)) \<and>
     st_chunks st = length (bin_pack (seq_lens_of encs) cm) \<and>
     st_max_chunk_seq st = (if texts = [] then 0 else max 1 (Max (set (seq_lens_of encs))))"
proof -
  have "length (seq_lens_of encs) = length texts" using assms(1) by (simp add: tokenizes_def)
  then show ?thesis using dense_complete [OF assms, of tm] bp.chunk_of_covers [of _ "seq_lens_of encs" cm] by metis
qed

theorem embed_dense_correct_witness:
  "\<exists>vs st. embed_dense sample_run sample_tok sample_tm [''ab'', ''c''] (conservative 0) Fp32 None = Inr (vs, st) \<and>
     length vs = 2"
  using embed_dense_correct [OF sample_tokenizes sample_contract admitted_None,
      where texts = "[''ab'', ''c'']" and tm = sample_tm and cm = "conservative 0"] by auto

text \<open>
  C15: under the same contracts the sparse route succeeds without a panic (no mask, score or
  output slot is ever missing) and returns one sparse vector per text, in input order, pooled from
  the hidden states of exactly that text's own tokens.
\<close>

theorem embed_sparse_correct:
  assumes "tokenizes tok texts encs" and "session_contract run v g h (length (pj_weight pj))"
    and "admitted guard cm encs"
  shows "\<exists>ss st. embed_sparse pj run tok tm texts cm v guard = Inr (ss, st) \<and> length ss = length texts \<and>
     (\<forall>i<length texts. \<exists>c\<in>set (bin_pack (seq_lens_of encs) cm). i \<in> set c \<and>
        ss ! i = sparse_of pj (encs ! i) (padded_run h encs c i))"
proof -
  have "length (seq_lens_of encs) = length texts" using assms(1) by (simp add: tokenizes_def)
  then show ?thesis using sparse_complete [OF assms, of tm] bp.chunk_of_covers [of _ "seq_lens_of encs" cm] by metis
qed

theorem embed_sparse_correct_witness:
  "\<exists>ss st. embed_sparse sample_pj sample_run sample_tok sample_tm [''ab'', ''c''] (conservative 0) Fp32 None = Inr (ss, st) \<and>
     length ss = 2"
  using embed_sparse_correct [OF sample_tokenizes _ admitted_None, where run = sample_run and v = Fp32 and g = sample_g
      and h = sample_h and pj = sample_pj and texts = "[''ab'', ''c'']" and tm = sample_tm and cm = "conservative 0"]
    sample_contract by (auto simp: sample_pj_def)

text \<open>
  C16: the fused route is exactly the two single routes run side by side. For every tokenizer,
  session, cost model and guard, \<open>embed_both\<close> succeeds precisely when \<open>embed_dense\<close> and
  \<open>embed_sparse\<close> both succeed, and then returns their results paired position by position, with the
  same statistics.
\<close>

theorem embed_both_is_pair:
  "embed_both pj run tok tm texts cm v guard = Inr (bs, st) \<longleftrightarrow>
     (\<exists>ds ss. embed_dense run tok tm texts cm v guard = Inr (ds, st) \<and>
        embed_sparse pj run tok tm texts cm v guard = Inr (ss, st) \<and>
        bs = map2 (\<lambda>d s. \<lparr>du_dense = d, du_sparse = s\<rparr>) ds ss)"
  by (rule embed_both_iff_pair)

text \<open>
  Batching does not change the answer. If the model ignores padding, the dense vectors are
  those of each text run alone and unpadded, whatever cost model (and so whatever chunking) is in
  force: tuning the budget can never change an embedding.
\<close>

theorem embed_dense_batching_invariant:
  assumes "tokenizes tok texts encs" and "session_contract run v g h width" and "admitted guard cm encs"
    and "padding_invariant (dense_of v g h) (\<lambda>e r. r) encs"
  shows "\<exists>st. embed_dense run tok tm texts cm v guard =
     Inr (map (\<lambda>e. normalize_l2 (dense_of v g h (map int (enc_ids e)) (map int (enc_mask e)))) encs, st)"
  using assms by (rule dense_pointwise)

theorem embed_dense_batching_invariant_witness:
  "\<exists>vs st st'. embed_dense sample_run sample_tok sample_tm [''ab'', ''c''] (conservative 0) Fp32 None = Inr (vs, st) \<and>
     embed_dense sample_run sample_tok sample_tm [''ab'', ''c''] (conservative DEFAULT_MAX_WORKSPACE) Fp32 None = Inr (vs, st')"
proof -
  note r = embed_dense_batching_invariant [OF sample_tokenizes sample_contract admitted_None sample_invariant(1),
      where texts = "[''ab'', ''c'']" and tm = sample_tm]
  from r [where cm = "conservative 0"] r [where cm = "conservative DEFAULT_MAX_WORKSPACE"] show ?thesis by blast
qed

text \<open>
  Sparse weights are equally independent of batching: if the hidden states of a text's own
  tokens do not depend on padding, its sparse vector is the one computed from that text alone.
\<close>

theorem embed_sparse_batching_invariant:
  assumes "tokenizes tok texts encs" and "session_contract run v g h (length (pj_weight pj))"
    and "admitted guard cm encs" and "padding_invariant h (\<lambda>e. take (length (enc_ids e))) encs"
  shows "\<exists>st. embed_sparse pj run tok tm texts cm v guard =
     Inr (map (\<lambda>e. sparse_of pj e (h (map int (enc_ids e)) (map int (enc_mask e)))) encs, st)"
proof -
  have len: "length (seq_lens_of encs) = length texts" "length encs = length texts"
    using assms(1) by (auto simp: tokenizes_def)
  obtain ss st where ss: "embed_sparse pj run tok tm texts cm v guard = Inr (ss, st)" "length ss = length texts"
    "\<forall>i<length texts. ss ! i = sparse_of pj (encs ! i) (padded_run h encs (chunk_at cm encs i) i)"
    using sparse_complete [OF assms(1-3), of tm] by blast
  have "ss = map (\<lambda>e. sparse_of pj e (h (map int (enc_ids e)) (map int (enc_mask e)))) encs"
    using ss len bp.chunk_of_covers [of _ "seq_lens_of encs" cm] padding_invariant_run [OF assms(4)]
    by (intro nth_equalityI) (auto simp: sparse_of_def)
  then show ?thesis using ss by auto
qed

theorem embed_sparse_batching_invariant_witness:
  "\<exists>ss st st'. embed_sparse sample_pj sample_run sample_tok sample_tm [''ab'', ''c''] (conservative 0) Fp32 None = Inr (ss, st) \<and>
     embed_sparse sample_pj sample_run sample_tok sample_tm [''ab'', ''c''] (conservative DEFAULT_MAX_WORKSPACE) Fp32 None
       = Inr (ss, st')"
proof -
  have "session_contract sample_run Fp32 sample_g sample_h (length (pj_weight sample_pj))"
    using sample_contract by (simp add: sample_pj_def)
  note r = embed_sparse_batching_invariant [OF sample_tokenizes this admitted_None sample_invariant(2),
      where texts = "[''ab'', ''c'']" and tm = sample_tm]
  from r [where cm = "conservative 0"] r [where cm = "conservative DEFAULT_MAX_WORKSPACE"] show ?thesis by blast
qed

text \<open>
  A batch the JIT guard refuses never reaches the session. All three routes return the typed
  refusal, whatever the session would do on any input, so no \<open>session.run()\<close> call happens.
\<close>

theorem guard_refuses_before_run:
  assumes "tok texts = Inr encs"
    and "guard_chunks guard (bin_pack (seq_lens_of encs) cm) (seq_lens_of encs) = Inl r"
  shows "embed_dense run tok tm texts cm v guard = Inl (Err (Rejection r)) \<and>
     embed_sparse pj run tok tm texts cm v guard = Inl (Err (Rejection r)) \<and>
     embed_both pj run tok tm texts cm v guard = Inl (Err (Rejection r))"
  using assms
  by (simp add: embed_dense_def embed_sparse_def embed_both_def embed_route_def tokenize_no_pad_def Let_def)

theorem guard_refuses_before_run_witness:
  "\<exists>r. embed_dense (\<lambda>ids am. Inl ''never'') sample_tok sample_tm [''a''] (conservative 0) Fp32 (Some (jit_guard_new 3 0)) =
     Inl (Err (Rejection r))"
proof -
  have "guard_chunks (Some (jit_guard_new 3 0)) (bin_pack (seq_lens_of (sample_encs [''a''])) (conservative 0))
      (seq_lens_of (sample_encs [''a''])) = 
      Inl \<lparr>rej_batch = 1, rej_seq = 3, rej_guard_seq = 3, rej_warmed_seq_ceiling = 0\<rparr>"
    by (simp add: sample_encs_def sample_tok_def bin_pack_def pack_order_def sorted_indices_def guard_chunks_def
        jit_guard_new_def admit_def)
  then show ?thesis
    using guard_refuses_before_run [of sample_tok "[''a'']" "sample_encs [''a'']"]
    by (auto simp: sample_encs_def sample_tok_def)
qed

end
