(* ===== verification/Trt_Cache.thy ===== *)
theory Trt_Cache
  imports Prelude "HOL-Library.Char_ord" "HOL-Library.List_Lexorder"
begin

text \<open>
  The TensorRT engine cache directory: its paths (\<open>src/embedder/trt_cache/paths.rs\<close>), the enumeration of
  plans by GPU compute capability (\<open>enumerate.rs\<close>, \<open>inspect.rs\<close>), the detection of that capability
  from the output of \<open>nvidia-smi\<close> (\<open>sm_detect.rs\<close>) and the destructive collection of plans of
  other capabilities (\<open>trt_cache_gc.rs\<close>).

  A directory is the list of its entries, in the order the file system returns them; \<open>None\<close> is a
  directory that cannot be read. Whether a file can be removed, and whether its size can be read,
  are fields of the entry. The facts: the capability filter is exact, the collector never
  removes a plan of the capability it is run for (nor anything that is not a plan or its sidecar), and
  it removes every removable plan of another one.
\<close>

section \<open>Directories\<close>

record dir_entry =
  de_name :: string
  de_is_file :: bool
  de_size :: "nat option"
  de_removable :: bool

type_synonym directory = "dir_entry list option"

definition strip_suffix :: "string \<Rightarrow> string \<Rightarrow> string option" where
  "strip_suffix suf s = (if str_ends_with s suf then Some (take (length s - length suf) s) else None)"

text \<open>\<open>Path::join\<close> with a relative name.\<close>

definition path_join :: "string \<Rightarrow> string \<Rightarrow> string" where
  "path_join dir name =
     (if dir = [] \<or> str_ends_with dir ''/'' then dir @ name else dir @ ''/'' @ name)"

definition TRT_ENGINE_SUBDIR :: string where "TRT_ENGINE_SUBDIR = ''trt-engines''"

definition TRT_TIMING_SUBDIR :: string where "TRT_TIMING_SUBDIR = ''trt-timing''"

definition engine_cache_path :: "string \<Rightarrow> string" where
  "engine_cache_path cache_dir = path_join cache_dir TRT_ENGINE_SUBDIR"

definition timing_cache_path :: "string \<Rightarrow> string" where
  "timing_cache_path cache_dir = path_join cache_dir TRT_TIMING_SUBDIR"

section \<open>Enumeration\<close>

definition matches_sm_suffix :: "string \<Rightarrow> string \<Rightarrow> bool" where
  "matches_sm_suffix name sm = str_ends_with name (''_'' @ sm @ ''.engine'')"

definition engine_entry :: "string option \<Rightarrow> dir_entry \<Rightarrow> bool" where
  "engine_entry sm e \<longleftrightarrow>
     de_is_file e \<and> str_ends_with (de_name e) ''.engine'' \<and>
     (case sm of Some target \<Rightarrow> matches_sm_suffix (de_name e) target | None \<Rightarrow> True)"

definition engine_files_for_sm :: "directory \<Rightarrow> string option \<Rightarrow> string list" where
  "engine_files_for_sm dir sm =
     (case dir of None \<Rightarrow> [] | Some es \<Rightarrow> map de_name (filter (engine_entry sm) es))"

definition count_engine_files_for_sm :: "directory \<Rightarrow> string option \<Rightarrow> nat" where
  "count_engine_files_for_sm dir sm = length (engine_files_for_sm dir sm)"

definition count_engine_files :: "directory \<Rightarrow> nat" where
  "count_engine_files dir = count_engine_files_for_sm dir None"

definition engine_basenames_for_sm :: "directory \<Rightarrow> string option \<Rightarrow> string list option" where
  "engine_basenames_for_sm dir sm =
     (case dir of None \<Rightarrow> None | Some es \<Rightarrow> Some (sort (map de_name (filter (engine_entry sm) es))))"

definition engine_basenames_in_dir_sorted :: "directory \<Rightarrow> string list option" where
  "engine_basenames_in_dir_sorted dir = engine_basenames_for_sm dir None"

fun count_step :: "nat \<times> nat \<Rightarrow> dir_entry \<Rightarrow> nat \<times> nat" where
  "count_step (engines, profiles) e =
     (if \<not> de_is_file e then (engines, profiles)
      else if str_ends_with (de_name e) ''.engine'' then (engines + 1, profiles)
      else if str_ends_with (de_name e) ''.profile'' then (engines, profiles + 1)
      else (engines, profiles))"

definition count_cache_entries :: "directory \<Rightarrow> nat \<times> nat" where
  "count_cache_entries dir = (case dir of None \<Rightarrow> (0, 0) | Some es \<Rightarrow> foldl count_step (0, 0) es)"

section \<open>The compute capability of a device\<close>

definition is_ascii_digit :: "char \<Rightarrow> bool" where
  "is_ascii_digit c \<longleftrightarrow> digit_val c \<noteq> None"

definition parse_compute_capability :: "string \<Rightarrow> string option" where
  "parse_compute_capability stdout =
     (case find (\<lambda>l. trim l \<noteq> []) (str_lines stdout) of
        None \<Rightarrow> None
      | Some l \<Rightarrow>
          (case split_once (CHR ''.'') (trim l) of
             None \<Rightarrow> None
           | Some (major, minor) \<Rightarrow>
               if major = [] \<or> minor = [] then None
               else if \<not> list_all is_ascii_digit major \<or> \<not> list_all is_ascii_digit minor then None
               else Some (''sm'' @ major @ minor)))"

text \<open>
  \<open>nvidia-smi\<close> is a parameter: it cannot be run, or it ends with a status and an output that may not
  be UTF-8.
\<close>

datatype smi_output = Smi_Unavailable | Smi_Exit bool "string option"

fun detect_sm_for_device :: "(nat \<Rightarrow> smi_output) \<Rightarrow> nat \<Rightarrow> string option" where
  "detect_sm_for_device smi device_id =
     (case smi device_id of
        Smi_Unavailable \<Rightarrow> None
      | Smi_Exit success out \<Rightarrow>
          if \<not> success then None
          else (case out of None \<Rightarrow> None | Some stdout \<Rightarrow> parse_compute_capability stdout))"

section \<open>Collection of stale plans\<close>

definition ENGINE_SIDE_SUFFIXES :: "string list" where
  "ENGINE_SIDE_SUFFIXES = [''.profile'', ''.timing_cache'']"

record gc_stats =
  plans_deleted :: nat
  bytes_freed :: nat
  other_sms_observed :: "string list"

definition str_rfind :: "string \<Rightarrow> string \<Rightarrow> nat option" where
  "str_rfind s pat =
     (let hits = filter (\<lambda>i. str_starts_with (drop i s) pat) [0..<length s + 1]
      in if hits = [] then None else Some (last hits))"

definition extract_sm_tag :: "string \<Rightarrow> string option" where
  "extract_sm_tag stem =
     (case str_rfind stem ''_sm'' of
        None \<Rightarrow> None
      | Some idx \<Rightarrow>
          (let after_underscore = drop (idx + 1) stem
           in if length after_underscore < 3 then None
              else let digits = drop 2 after_underscore
                   in if digits = [] \<or> \<not> list_all is_ascii_digit digits then None
                      else Some after_underscore))"

text \<open>The capability of a plan file the collector would delete.\<close>

definition stale_plan :: "string \<Rightarrow> dir_entry \<Rightarrow> (string \<times> string) option" where
  "stale_plan current_sm e =
     (if \<not> de_is_file e then None
      else case strip_suffix ''.engine'' (de_name e) of
             None \<Rightarrow> None
           | Some stem \<Rightarrow>
               (case extract_sm_tag stem of
                  None \<Rightarrow> None
                | Some plan_sm \<Rightarrow> if plan_sm = current_sm then None else Some (stem, plan_sm)))"

text \<open>First pass over the listing: the entries left, the statistics and the prefixes deleted.\<close>

fun plan_pass ::
  "string \<Rightarrow> dir_entry list \<Rightarrow> gc_stats \<Rightarrow> string list \<Rightarrow> dir_entry list \<times> gc_stats \<times> string list" where
  "plan_pass current_sm [] stats deletions = ([], stats, deletions)"
| "plan_pass current_sm (e # es) stats deletions =
     (case stale_plan current_sm e of
        None \<Rightarrow> (case plan_pass current_sm es stats deletions of (rest, out) \<Rightarrow> (e # rest, out))
      | Some (stem, plan_sm) \<Rightarrow>
          if de_removable e
          then plan_pass current_sm es
                 (stats\<lparr>plans_deleted := plans_deleted stats + 1,
                        bytes_freed := sat_add usize_max (bytes_freed stats) (case de_size e of None \<Rightarrow> 0 | Some n \<Rightarrow> n),
                        other_sms_observed :=
                          (if plan_sm \<in> set (other_sms_observed stats) then other_sms_observed stats
                           else other_sms_observed stats @ [plan_sm])\<rparr>)
                 (deletions @ [stem])
          else (case plan_pass current_sm es stats deletions of (rest, out) \<Rightarrow> (e # rest, out)))"

fun strip_first_suffix :: "string list \<Rightarrow> string \<Rightarrow> string option" where
  "strip_first_suffix [] name = None"
| "strip_first_suffix (s # ss) name =
     (case strip_suffix s name of Some p \<Rightarrow> Some p | None \<Rightarrow> strip_first_suffix ss name)"

definition stale_sidecar :: "string list \<Rightarrow> dir_entry \<Rightarrow> bool" where
  "stale_sidecar deletions e \<longleftrightarrow>
     de_is_file e \<and>
     (case strip_first_suffix ENGINE_SIDE_SUFFIXES (de_name e) of
        None \<Rightarrow> False
      | Some prefix_with_engine \<Rightarrow>
          (case strip_suffix ''.engine'' prefix_with_engine of
             None \<Rightarrow> False
           | Some pre \<Rightarrow> pre \<in> set deletions))"

fun sidecar_pass :: "string list \<Rightarrow> dir_entry list \<Rightarrow> gc_stats \<Rightarrow> dir_entry list \<times> gc_stats" where
  "sidecar_pass deletions [] stats = ([], stats)"
| "sidecar_pass deletions (e # es) stats =
     (if stale_sidecar deletions e \<and> de_removable e
      then sidecar_pass deletions es
             (stats\<lparr>bytes_freed := sat_add usize_max (bytes_freed stats) (case de_size e of None \<Rightarrow> 0 | Some n \<Rightarrow> n)\<rparr>)
      else (case sidecar_pass deletions es stats of (rest, st) \<Rightarrow> (e # rest, st)))"

text \<open>The directory is read twice; \<open>reread\<close> says whether the second read succeeds.\<close>

definition gc_stale_sm_plans :: "bool \<Rightarrow> directory \<Rightarrow> string \<Rightarrow> directory \<times> gc_stats" where
  "gc_stale_sm_plans reread dir current_sm =
     (let zero = \<lparr>plans_deleted = 0, bytes_freed = 0, other_sms_observed = []\<rparr>
      in case dir of
           None \<Rightarrow> (None, zero)
         | Some es \<Rightarrow>
             (case plan_pass current_sm es zero [] of
                (rest, stats, deletions) \<Rightarrow>
                  if deletions = [] then (Some rest, stats)
                  else if \<not> reread then (Some rest, stats)
                  else (case sidecar_pass deletions rest stats of (rest', stats') \<Rightarrow> (Some rest', stats'))))"

section \<open>Facts about names\<close>

lemma strip_suffix_Some: "strip_suffix suf s = Some p \<longleftrightarrow> s = p @ suf"
  by (auto simp: strip_suffix_def str_ends_with_def suffix_def)

lemma strip_suffix_append [simp]: "strip_suffix suf (p @ suf) = Some p"
  by (simp add: strip_suffix_Some)

lemma str_ends_with_iff: "str_ends_with s suf \<longleftrightarrow> (\<exists>p. s = p @ suf)"
  by (auto simp: str_ends_with_def suffix_def)

lemma last_filter_upt:
  assumes "k < n" and "P k" and "\<And>i. k < i \<Longrightarrow> i < n \<Longrightarrow> \<not> P i"
  shows "filter P [0..<n] \<noteq> [] \<and> last (filter P [0..<n]) = k"
proof -
  have "[0..<n] = [0..<k] @ k # [Suc k..<n]"
    using assms(1) by (metis upt_conv_Cons upt_add_eq_append le_add1 less_imp_add_positive add_0)
  moreover have "filter P [Suc k..<n] = []" using assms(3) by (auto simp: filter_empty_conv)
  ultimately show ?thesis using assms(2) by simp
qed

definition valid_sm :: "string \<Rightarrow> bool" where
  "valid_sm sm \<longleftrightarrow> take 2 sm = ''sm'' \<and> drop 2 sm \<noteq> [] \<and> list_all is_ascii_digit (drop 2 sm)"

lemma valid_sm_iff: "valid_sm sm \<longleftrightarrow> (\<exists>ds. sm = ''sm'' @ ds \<and> ds \<noteq> [] \<and> list_all is_ascii_digit ds)"
proof
  assume v: "valid_sm sm"
  then have "sm = ''sm'' @ drop 2 sm" unfolding valid_sm_def by (metis append_take_drop_id)
  then show "\<exists>ds. sm = ''sm'' @ ds \<and> ds \<noteq> [] \<and> list_all is_ascii_digit ds"
    using v unfolding valid_sm_def by blast
qed (auto simp: valid_sm_def)

lemma digit_not_underscore: "is_ascii_digit c \<Longrightarrow> c \<noteq> CHR ''_''"
  by (auto simp: is_ascii_digit_def digit_val_def)

lemma valid_sm_no_underscore: "valid_sm sm \<Longrightarrow> CHR ''_'' \<notin> set sm"
proof -
  assume "valid_sm sm"
  then obtain ds where ds: "sm = ''sm'' @ ds" "list_all is_ascii_digit ds" unfolding valid_sm_iff by blast
  then have "CHR ''_'' \<notin> set ds" unfolding list_all_iff using digit_not_underscore by blast
  then show ?thesis using ds(1) by simp
qed

lemma str_rfind_tag:
  assumes "valid_sm sm"
  shows "str_rfind (x @ ''_'' @ sm) ''_sm'' = Some (length x)"
proof -
  let ?s = "x @ ''_'' @ sm"
  have "\<not> str_starts_with (drop i ?s) ''_sm''" if "length x < i" for i
  proof
    assume "str_starts_with (drop i ?s) ''_sm''"
    then have "CHR ''_'' \<in> set (drop i ?s)"
      unfolding str_starts_with_def prefix_def by (metis append_Cons list.set_intros(1))
    moreover have "drop i ?s = drop (i - length x - 1) sm" using that by (cases "i - length x") auto
    ultimately show False using valid_sm_no_underscore [OF assms] by (metis in_set_dropD)
  qed
  then have "filter (\<lambda>i. str_starts_with (drop i ?s) ''_sm'') [0..<length ?s + 1] \<noteq> [] \<and>
      last (filter (\<lambda>i. str_starts_with (drop i ?s) ''_sm'') [0..<length ?s + 1]) = length x"
    using assms by (intro last_filter_upt) (auto simp: valid_sm_iff str_starts_with_def)
  then show ?thesis by (simp only: str_rfind_def Let_def if_False)
qed

lemma extract_sm_tag_append:
  assumes "valid_sm sm"
  shows "extract_sm_tag (x @ ''_'' @ sm) = Some sm"
proof -
  obtain ds where "sm = ''sm'' @ ds" "ds \<noteq> []" "list_all is_ascii_digit ds"
    using assms unfolding valid_sm_iff by blast
  then show ?thesis
    unfolding extract_sm_tag_def str_rfind_tag [OF assms] option.case by (cases ds) (simp_all add: Let_def)
qed

lemma str_rfind_Some: "str_rfind s pat = Some i \<Longrightarrow> i \<le> length s \<and> str_starts_with (drop i s) pat"
  by (auto simp: str_rfind_def Let_def split: if_splits dest!: last_in_set)

lemma extract_sm_tag_Some:
  assumes "extract_sm_tag stem = Some t"
  shows "valid_sm t \<and> (\<exists>x. stem = x @ ''_'' @ t)"
proof -
  obtain i where i: "str_rfind stem ''_sm'' = Some i" "t = drop (i + 1) stem"
    "drop 2 t \<noteq> []" "list_all is_ascii_digit (drop 2 t)"
    using assms by (auto simp: extract_sm_tag_def Let_def split: option.splits if_splits)
  then obtain zs where z: "drop i stem = ''_sm'' @ zs"
    using str_rfind_Some [OF i(1)] by (auto simp: str_starts_with_def prefix_def)
  then have "t = ''sm'' @ zs" using i(2) by (metis Suc_eq_plus1 append_Cons drop_Suc list.sel(3) tl_drop)
  then show ?thesis using i z by (metis append_Cons append_Nil append_take_drop_id valid_sm_def
      append_eq_conv_conj length_Cons list.size(3) numeral_2_eq_2)
qed

text \<open>The two ways the code reads the capability of a plan agree.\<close>

lemma matches_sm_suffix_iff:
  assumes "valid_sm sm"
  shows "matches_sm_suffix name sm \<longleftrightarrow>
    (\<exists>stem. strip_suffix ''.engine'' name = Some stem \<and> extract_sm_tag stem = Some sm)"
proof
  assume "matches_sm_suffix name sm"
  then obtain x where "name = (x @ ''_'' @ sm) @ ''.engine''"
    by (auto simp: matches_sm_suffix_def str_ends_with_iff)
  then show "\<exists>stem. strip_suffix ''.engine'' name = Some stem \<and> extract_sm_tag stem = Some sm"
    using extract_sm_tag_append [OF assms, of x] by (auto simp: strip_suffix_Some)
next
  assume "\<exists>stem. strip_suffix ''.engine'' name = Some stem \<and> extract_sm_tag stem = Some sm"
  then show "matches_sm_suffix name sm"
    by (auto simp: matches_sm_suffix_def str_ends_with_iff strip_suffix_Some dest!: extract_sm_tag_Some)
qed

section \<open>Facts about the collector\<close>

lemma plan_pass_entries:
  "fst (plan_pass sm es st del) = filter (\<lambda>e. \<not> (de_removable e \<and> stale_plan sm e \<noteq> None)) es"
  by (induction sm es st del rule: plan_pass.induct) (auto split: option.splits prod.splits)

lemma plan_pass_deletions:
  "snd (snd (plan_pass sm es st del)) =
     del @ map (fst \<circ> the \<circ> stale_plan sm) (filter (\<lambda>e. de_removable e \<and> stale_plan sm e \<noteq> None) es)"
  by (induction sm es st del rule: plan_pass.induct) (auto split: option.splits prod.splits)

lemma plan_pass_deleted:
  "plans_deleted (fst (snd (plan_pass sm es st del))) =
     plans_deleted st + length (filter (\<lambda>e. de_removable e \<and> stale_plan sm e \<noteq> None) es)"
  by (induction sm es st del rule: plan_pass.induct) (auto split: option.splits prod.splits)

lemma sidecar_pass_entries:
  "fst (sidecar_pass del es st) = filter (\<lambda>e. \<not> (stale_sidecar del e \<and> de_removable e)) es"
  by (induction del es st rule: sidecar_pass.induct) (auto split: prod.splits)

lemma sidecar_pass_deleted: "plans_deleted (snd (sidecar_pass del es st)) = plans_deleted st"
  by (induction del es st rule: sidecar_pass.induct) (auto split: prod.splits)

lemma stale_sidecar_Nil [simp]: "\<not> stale_sidecar [] e"
  by (simp add: stale_sidecar_def split: option.splits)

definition gc_prefixes :: "string \<Rightarrow> dir_entry list \<Rightarrow> string list" where
  "gc_prefixes sm es = map (fst \<circ> the \<circ> stale_plan sm) (filter (\<lambda>e. de_removable e \<and> stale_plan sm e \<noteq> None) es)"

lemma gc_entries:
  "fst (gc_stale_sm_plans reread (Some es) sm) =
     Some (filter (\<lambda>e. \<not> (de_removable e \<and>
       (stale_plan sm e \<noteq> None \<or> reread \<and> stale_sidecar (gc_prefixes sm es) e))) es)"
proof -
  let ?z = "\<lparr>plans_deleted = 0, bytes_freed = 0, other_sms_observed = []\<rparr>"
  obtain rest st del where pp: "plan_pass sm es ?z [] = (rest, st, del)" by (cases "plan_pass sm es ?z []") auto
  have r: "rest = filter (\<lambda>e. \<not> (de_removable e \<and> stale_plan sm e \<noteq> None)) es" "del = gc_prefixes sm es"
    using plan_pass_entries [of sm es ?z "[]"] plan_pass_deletions [of sm es ?z "[]"] pp
    by (auto simp: gc_prefixes_def)
  show ?thesis
    using sidecar_pass_entries [of del rest st] pp r
    by (cases "del = []"; cases reread)
      (auto simp: gc_stale_sm_plans_def conj_commute split: prod.splits intro!: filter_cong)
qed

lemma gc_deleted:
  "plans_deleted (snd (gc_stale_sm_plans reread (Some es) sm)) =
     length (filter (\<lambda>e. de_removable e \<and> stale_plan sm e \<noteq> None) es)"
proof -
  let ?z = "\<lparr>plans_deleted = 0, bytes_freed = 0, other_sms_observed = []\<rparr>"
  obtain rest st del where pp: "plan_pass sm es ?z [] = (rest, st, del)" by (cases "plan_pass sm es ?z []") auto
  show ?thesis
    using plan_pass_deleted [of sm es ?z "[]"] sidecar_pass_deleted [of del rest st] pp
    by (auto simp: gc_stale_sm_plans_def split: prod.splits)
qed

lemma stale_plan_Some:
  "stale_plan sm e = Some (stem, t) \<longleftrightarrow>
     de_is_file e \<and> de_name e = stem @ ''.engine'' \<and> extract_sm_tag stem = Some t \<and> t \<noteq> sm"
  by (auto simp: stale_plan_def strip_suffix_Some split: option.splits if_splits)

lemma strip_side_suffix:
  "strip_first_suffix ENGINE_SIDE_SUFFIXES name = Some p \<longleftrightarrow> name = p @ ''.profile'' \<or> name = p @ ''.timing_cache''"
proof -
  have "strip_suffix ''.profile'' (x @ ''.timing_cache'') = None" for x
    by (auto simp: strip_suffix_def str_ends_with_def suffix_def append_eq_append_conv2)
  then show ?thesis
    by (cases "strip_suffix ''.profile'' name"; cases "strip_suffix ''.timing_cache'' name")
      (auto simp: ENGINE_SIDE_SUFFIXES_def strip_suffix_Some)
qed

lemma stale_sidecar_iff:
  "stale_sidecar del e \<longleftrightarrow> de_is_file e \<and>
     (\<exists>stem\<in>set del. de_name e = stem @ ''.engine.profile'' \<or> de_name e = stem @ ''.engine.timing_cache'')"
proof -
  have "stale_sidecar del e \<longleftrightarrow> de_is_file e \<and>
      (\<exists>p pre. strip_first_suffix ENGINE_SIDE_SUFFIXES (de_name e) = Some p \<and>
        strip_suffix ''.engine'' p = Some pre \<and> pre \<in> set del)"
    by (auto simp: stale_sidecar_def split: option.splits)
  then show ?thesis unfolding strip_side_suffix strip_suffix_Some by auto
qed

lemma gc_prefixes_iff:
  "stem \<in> set (gc_prefixes sm es) \<longleftrightarrow> (\<exists>e\<in>set es. de_removable e \<and> (\<exists>t. stale_plan sm e = Some (stem, t)))"
  by (force simp: gc_prefixes_def image_iff)

text \<open>
  What every sweep of the cache owes its readers: entries disappear, nothing appears, and no plan
  of the capability being served disappears. Then the readers see the same plans as before.
\<close>

locale cache_sweep =
  fixes sweep :: "dir_entry list \<Rightarrow> dir_entry list" and sm :: string
  assumes sweep_filter: "\<exists>P. sweep es = filter P es \<and> (\<forall>e\<in>set es. engine_entry (Some sm) e \<longrightarrow> P e)"
begin

lemma sweep_keeps_plans: "engine_files_for_sm (Some (sweep es)) (Some sm) = engine_files_for_sm (Some es) (Some sm)"
proof -
  obtain P where P: "sweep es = filter P es" "\<forall>e\<in>set es. engine_entry (Some sm) e \<longrightarrow> P e"
    using sweep_filter by blast
  have "filter (engine_entry (Some sm)) (filter P es) = filter (engine_entry (Some sm)) es"
    using P(2) by (induction es) auto
  then show ?thesis using P(1) by (simp add: engine_files_for_sm_def)
qed

lemma sweep_count: "count_engine_files_for_sm (Some (sweep es)) (Some sm) = count_engine_files_for_sm (Some es) (Some sm)"
  by (simp add: count_engine_files_for_sm_def sweep_keeps_plans)

lemma sweep_subset: "set (sweep es) \<subseteq> set es"
  using sweep_filter [of es] by auto

end

lemma engine_entry_kept:
  assumes sm: "valid_sm sm" and e: "engine_entry (Some sm) e"
  shows "stale_plan sm e = None \<and> \<not> stale_sidecar del e"
proof
  have m: "matches_sm_suffix (de_name e) sm" "str_ends_with (de_name e) ''.engine''"
    using e by (auto simp: engine_entry_def)
  then obtain stem where "de_name e = stem @ ''.engine''" "extract_sm_tag stem = Some sm"
    using matches_sm_suffix_iff [OF sm] by (auto simp: strip_suffix_Some)
  then show "stale_plan sm e = None" by (simp add: stale_plan_def)
  show "\<not> stale_sidecar del e"
    using m(2) by (auto simp: stale_sidecar_iff str_ends_with_def suffix_def append_eq_append_conv2)
qed

text \<open>The collector keeps that promise for every capability it can be run for.\<close>

definition gc_sweep :: "bool \<Rightarrow> string \<Rightarrow> dir_entry list \<Rightarrow> dir_entry list" where
  "gc_sweep reread sm es = the (fst (gc_stale_sm_plans reread (Some es) sm))"

lemma gc_is_sweep: "valid_sm sm \<Longrightarrow> cache_sweep (gc_sweep reread sm) sm"
  by unfold_locales (use engine_entry_kept in \<open>auto simp: gc_sweep_def gc_entries intro!: exI\<close>)

interpretation gc_sm89: cache_sweep "gc_sweep reread ''sm89''" "''sm89''" for reread
  by (rule gc_is_sweep) (simp add: valid_sm_def is_ascii_digit_def digit_val_def)

lemma split_once_Some: "split_once c s = Some (l, r) \<Longrightarrow> s = l @ c # r"
  by (induction s arbitrary: l) (auto split: if_splits)

text \<open>A cache shared by two kinds of GPU, to run the properties on.\<close>

abbreviation plan_file :: "string \<Rightarrow> dir_entry" where
  "plan_file name \<equiv> \<lparr>de_name = name, de_is_file = True, de_size = Some 7, de_removable = True\<rparr>"

definition mixed_cache :: "dir_entry list" where
  "mixed_cache = [plan_file ''a_sm89.engine'', plan_file ''b_sm75.engine'', plan_file ''b_sm75.engine.profile'']"

lemma gc_mixed_cache:
  "gc_stale_sm_plans True (Some mixed_cache) ''sm89'' =
     (Some [plan_file ''a_sm89.engine''], \<lparr>plans_deleted = 1, bytes_freed = 14, other_sms_observed = [''sm75'']\<rparr>)"
proof -
  have t: "stale_plan ''sm89'' (plan_file ''a_sm89.engine'') = None"
      "stale_plan ''sm89'' (plan_file ''b_sm75.engine'') = Some (''b_sm75'', ''sm75'')"
      "stale_plan ''sm89'' (plan_file ''b_sm75.engine.profile'') = None"
      "\<not> stale_sidecar [''b_sm75''] (plan_file ''a_sm89.engine'')"
      "stale_sidecar [''b_sm75''] (plan_file ''b_sm75.engine.profile'')"
    by code_simp+
  show ?thesis
    by (simp add: gc_stale_sm_plans_def mixed_cache_def t sat_add_def usize_max_def)
qed

lemma valid_sm89: "valid_sm ''sm89''"
  by (simp add: valid_sm_def is_ascii_digit_def digit_val_def)

section \<open>Properties\<close>

text \<open>
  A plan file name matches at most one compute capability: \<open>sm12\<close> never matches a plan built for
  \<open>sm120\<close>, nor the reverse, so a worker never counts another GPU's plans as its own.
\<close>

theorem sm_filter_exact:
  assumes "valid_sm sm" and "valid_sm sm'" and "matches_sm_suffix name sm" and "matches_sm_suffix name sm'"
  shows "sm = sm'"
  using assms by (auto simp: matches_sm_suffix_iff)

theorem sm_filter_exact_witness:
  "\<not> (matches_sm_suffix ''k_sm120.engine'' ''sm120'' \<and> matches_sm_suffix ''k_sm120.engine'' ''sm12'')"
  using sm_filter_exact [of "''sm120''" "''sm12''" "''k_sm120.engine''"]
  by (auto simp: valid_sm_def is_ascii_digit_def digit_val_def)

text \<open>
  Whatever \<open>nvidia-smi\<close> prints, a detected capability is \<open>sm\<close> followed by decimal digits (the
  form the cache filters require), and the output \<open>major.minor\<close> of a device is read back as it is.
\<close>

theorem parse_compute_capability_sound:
  assumes "list_all is_ascii_digit major" "major \<noteq> []" "list_all is_ascii_digit minor" "minor \<noteq> []"
  shows "parse_compute_capability (major @ ''.'' @ minor @ [CHR 0x0A]) = Some (''sm'' @ major @ minor) \<and>
    (parse_compute_capability out = Some t \<longrightarrow> valid_sm t)"
proof
  have d: "\<not> is_ws c" "c \<noteq> CHR ''.''" "c \<noteq> CHR 0x0A" "c \<noteq> CHR 0x0D" if "is_ascii_digit c" for c
    using that by (auto simp: is_ascii_digit_def digit_val_def is_ws_def)
  let ?l = "major @ ''.'' @ minor"
  have ok: "\<forall>c\<in>set major \<union> set minor. \<not> is_ws c \<and> c \<noteq> CHR ''.'' \<and> c \<noteq> CHR 0x0A \<and> c \<noteq> CHR 0x0D"
  proof
    fix c assume "c \<in> set major \<union> set minor"
    then have "is_ascii_digit c" using assms by (auto simp: list_all_iff)
    then show "\<not> is_ws c \<and> c \<noteq> CHR ''.'' \<and> c \<noteq> CHR 0x0A \<and> c \<noteq> CHR 0x0D" using d by simp
  qed
  have dot: "\<not> is_ws (CHR ''.'')" by (simp add: is_ws_def)
  have no: "CHR 0x0A \<notin> set ?l" "CHR ''.'' \<notin> set major" using ok by auto
  have nws: "\<not> is_ws c" if "c \<in> set ?l" for c using that ok dot by auto
  have "last minor \<in> set minor" using assms(4) by simp
  then have "last ?l \<noteq> CHR 0x0D" using assms(4) ok by auto
  then have "str_lines (?l @ [CHR 0x0A]) = [?l]"
    using split_on_append_sep [OF no(1), of "[]"] by (simp add: str_lines_def)
  moreover have "trim ?l = ?l" using nws by (rule trim_no_ws)
  ultimately show "parse_compute_capability (major @ ''.'' @ minor @ [CHR 0x0A]) = Some (''sm'' @ major @ minor)"
    using assms split_once_append_sep [OF no(2), of minor] by (simp add: parse_compute_capability_def)
  show "parse_compute_capability out = Some t \<longrightarrow> valid_sm t"
    by (auto simp: parse_compute_capability_def valid_sm_iff split: option.splits if_splits)
qed

theorem parse_compute_capability_sound_witness:
  "parse_compute_capability ''12.0\<newline>'' = Some ''sm120''"
  using parse_compute_capability_sound [of "''12''" "''0''"] by (simp add: is_ascii_digit_def digit_val_def)

text \<open>
  C36: the destructive collector is safe for the capability it runs for. Every plan a worker of that
  capability would count is still there afterwards, and whatever was removed is a removable file that
  is a plan of another capability or the profile or timing sidecar of such a plan.
\<close>

theorem gc_safe:
  assumes "valid_sm sm" and "gc_stale_sm_plans reread (Some es) sm = (Some es', stats)"
  shows "engine_files_for_sm (Some es') (Some sm) = engine_files_for_sm (Some es) (Some sm) \<and>
    set es' \<subseteq> set es \<and>
    (\<forall>e\<in>set es - set es'. de_is_file e \<and> de_removable e \<and>
       (\<exists>stem t. extract_sm_tag stem = Some t \<and> t \<noteq> sm \<and>
          (de_name e = stem @ ''.engine'' \<or> de_name e = stem @ ''.engine.profile'' \<or>
           de_name e = stem @ ''.engine.timing_cache'')))"
proof -
  have sw: "gc_sweep reread sm es = es'" using assms(2) by (simp add: gc_sweep_def)
  have "\<exists>stem t. extract_sm_tag stem = Some t \<and> t \<noteq> sm \<and> de_is_file e \<and> de_removable e \<and>
          (de_name e = stem @ ''.engine'' \<or> de_name e = stem @ ''.engine.profile'' \<or>
           de_name e = stem @ ''.engine.timing_cache'')" if e: "e \<in> set es" "e \<notin> set es'" for e
  proof -
    have "de_removable e" "stale_plan sm e \<noteq> None \<or> stale_sidecar (gc_prefixes sm es) e"
      using e sw by (auto simp: gc_sweep_def gc_entries)
    then show ?thesis
      by (auto simp: stale_plan_Some stale_sidecar_iff gc_prefixes_iff)
  qed
  then show ?thesis
    using cache_sweep.sweep_keeps_plans [OF gc_is_sweep [OF assms(1), of reread], of es]
      cache_sweep.sweep_subset [OF gc_is_sweep [OF assms(1), of reread], of es] sw
    by blast
qed

theorem gc_safe_witness:
  "engine_files_for_sm (Some [plan_file ''a_sm89.engine'']) (Some ''sm89'') =
   engine_files_for_sm (Some mixed_cache) (Some ''sm89'')"
  using gc_safe [OF valid_sm89 gc_mixed_cache] by blast

text \<open>
  The collector is complete: it reports exactly the removable plans of other capabilities as
  deleted, and a plan of another capability is left only if the file system refused to remove it.
\<close>

theorem gc_complete:
  assumes "gc_stale_sm_plans reread (Some es) sm = (Some es', stats)"
  shows "plans_deleted stats = length (filter (\<lambda>e. de_removable e \<and> stale_plan sm e \<noteq> None) es) \<and>
    (\<forall>e\<in>set es'. stale_plan sm e \<noteq> None \<longrightarrow> \<not> de_removable e)"
  using gc_deleted [of reread es sm] gc_entries [of reread es sm] assms by auto

theorem gc_complete_witness:
  "length (filter (\<lambda>e. de_removable e \<and> stale_plan ''sm89'' e \<noteq> None) mixed_cache) = 1"
  using gc_complete [OF gc_mixed_cache] by simp

end
