(* ===== verification/Worker.thy ===== *)
theory Worker
  imports Embed_Pipeline Trt_Warmup "HOL-Library.Word"
begin

text \<open>
  One embedding worker: \<open>src/embedder/worker/\<close> (\<open>guard.rs\<close>, \<open>propagation.rs\<close>, \<open>probe.rs\<close>, \<open>dispatch.rs\<close>,
  \<open>startup.rs\<close>, \<open>run.rs\<close>, \<open>config.rs\<close>) and the request type of \<open>src/embedder/types.rs\<close>.

  A worker is a local state (are models loaded, which shapes did it warm, how many requests in a row
  failed) beside the state it shares with its peers: the two atomic counters, kept as 64-bit words
  because \<open>fetch_sub\<close> wraps, the warmed-sequence ceiling, the cost model and the engine cache.
  One pass of its loop is a function of that state and of what the channels hand it: the peer
  notifications, then a timeout, a closed channel or a request. What it sends (replies, suspect
  shapes, broadcasts) is the list of effects it returns. A panic ends the process (the release profile aborts). The loop itself
  is the function \<open>worker_run\<close> over the inputs of its passes.
\<close>

section \<open>Configuration and requests\<close>

record worker_config =
  wc_idle_timeout :: "nat option"
  wc_model_variant :: model_variant
  wc_max_seq_length :: nat
  wc_intra_threads :: nat
  wc_ep :: ep_selection
  wc_trt_warmup_shapes :: "shape list"
  wc_device_id :: nat
  wc_gpu_count :: nat
  wc_trt_max_workspace_bytes :: "nat option"
  wc_gpu_mem_limit_bytes :: "nat option"
  wc_jit_suspect_tx :: bool
  wc_engine_propagation_tx :: bool
  wc_prewarm_strict :: bool
  wc_circuit_breaker_threshold :: nat
  wc_trt_inband_jit_guard_enabled :: bool
  wc_trt_inband_jit_guard_seq :: nat
  wc_trt_cache_gc_enabled :: bool

text \<open>The sending half of a oneshot channel: which request it answers and whether the receiver is gone.\<close>

record reply_tx =
  tx_id :: nat
  tx_closed :: bool

datatype embed_request =
    Dense_Req "string list" reply_tx
  | Sparse_Req "string list" reply_tx
  | Both_Req "string list" reply_tx
  | Probe_Req "string list" reply_tx
  | AdaptiveWarmup_Req nat nat reply_tx

record probe_result =
  pr_rss_before :: nat
  pr_rss_after :: nat

datatype reply =
    Dense_Reply "(any_error, fl list list \<times> embed_stats) result"
  | Sparse_Reply "(any_error, sparse_embedding list \<times> embed_stats) result"
  | Both_Reply "(any_error, dual_embedding list \<times> embed_stats) result"
  | Probe_Reply "(any_error, probe_result) result"
  | Warmup_Ack "(any_error, nat) result"

datatype effect = Reply nat reply | Suspect shape | Broadcast shape

section \<open>State\<close>

record worker =
  wk_models :: bool
  wk_warmed_local :: "shape set"
  wk_failures :: nat

record 'w shared =
  sh_live :: "64 word"
  sh_loaded :: "64 word"
  sh_ceiling :: nat
  sh_cost_model :: cost_model
  sh_world :: 'w

text \<open>What a worker calls: its session, tokenizer, clock and weights, the engine cache, the model loader.\<close>

record 'w worker_env =
  en_session :: session
  en_tokenizer :: tokenizer
  en_timing :: timing
  en_projection :: projection
  en_cache :: "'w \<Rightarrow> directory"
  en_set_cache :: "directory \<Rightarrow> 'w \<Rightarrow> 'w"
  en_warm :: "'w warm_session"
  en_smi :: "nat \<Rightarrow> smi_output"
  en_sm :: "string option"
  en_load :: "(string, unit) result"
  en_rss_before :: "nat option"
  en_rss_after :: "nat option"

section \<open>Outcomes and the circuit breaker\<close>

datatype inference_outcome = Outcome_Ok | Failure | TrtFatal | CircuitBreak | Rejected

definition build_shape_guard :: "worker_config \<Rightarrow> nat \<Rightarrow> jit_guard option" where
  "build_shape_guard config warmed =
     (if wc_ep config = TensorRt \<and> wc_trt_inband_jit_guard_enabled config
      then Some (jit_guard_new (wc_trt_inband_jit_guard_seq config) warmed)
      else None)"

definition classify_inference_outcome :: "bool \<Rightarrow> bool \<Rightarrow> bool \<Rightarrow> nat \<Rightarrow> nat \<Rightarrow> inference_outcome" where
  "classify_inference_outcome trt_fatal guard_rejected is_error consecutive_failures circuit_breaker_threshold =
     (if trt_fatal then TrtFatal
      else if guard_rejected then Rejected
      else if is_error
      then let next_failures = consecutive_failures + 1
           in if circuit_breaker_threshold \<le> next_failures then CircuitBreak else Failure
      else Outcome_Ok)"

fun next_consecutive_failures :: "inference_outcome \<Rightarrow> nat \<Rightarrow> nat" where
  "next_consecutive_failures Outcome_Ok n = 0"
| "next_consecutive_failures CircuitBreak n = 0"
| "next_consecutive_failures Failure n = n + 1"
| "next_consecutive_failures TrtFatal n = n"
| "next_consecutive_failures Rejected n = n"

definition should_unload_on_outcome :: "inference_outcome \<Rightarrow> bool" where
  "should_unload_on_outcome outcome \<longleftrightarrow> outcome = CircuitBreak"

section \<open>After an inference\<close>

definition CHUNK_CACHE_HIT_THRESHOLD_MS :: nat where "CHUNK_CACHE_HIT_THRESHOLD_MS = 5000"

definition log_inference_complete :: "embed_stats \<Rightarrow> bool \<Rightarrow> bool \<Rightarrow> nat \<Rightarrow> effect list \<times> shape option" where
  "log_inference_complete stats jit_suspect_tx engine_propagation_tx batch_len =
     (let cache_hit = st_inference_ms stats < CHUNK_CACHE_HIT_THRESHOLD_MS;
          sh = (batch_len, st_max_chunk_seq stats)
      in if cache_hit then ([], None)
         else ((if jit_suspect_tx then [Suspect sh] else []) @ (if engine_propagation_tx then [Broadcast sh] else []),
               if engine_propagation_tx then Some sh else None))"

definition finalize_embed_route ::
  "worker_config \<Rightarrow> nat \<Rightarrow> nat \<Rightarrow> (any_error, 't \<times> embed_stats) result \<Rightarrow> shape set \<Rightarrow>
   inference_outcome \<times> effect list \<times> shape set" where
  "finalize_embed_route config consecutive_failures batch_len res warmed_local =
     (let guard_rejected = (case res of Inl e \<Rightarrow> is_trt_shape_rejected e | Inr _ \<Rightarrow> False);
          trt_fatal = (case res of Inl e \<Rightarrow> is_trt_engine_build_fatal e | Inr _ \<Rightarrow> False);
          (effs, warmed) = (case res of
              Inr (_, stats) \<Rightarrow>
                log_inference_complete stats (wc_jit_suspect_tx config) (wc_engine_propagation_tx config) batch_len
            | Inl _ \<Rightarrow> ([], None))
      in (classify_inference_outcome trt_fatal guard_rejected (is_err res) consecutive_failures
            (wc_circuit_breaker_threshold config),
          effs,
          case warmed of Some sh \<Rightarrow> insert sh warmed_local | None \<Rightarrow> warmed_local))"

section \<open>Peer notifications\<close>

text \<open>What \<open>try_recv\<close> returns until the channel is empty or closed.\<close>

datatype notice = Notice shape | Lagged nat

fun drain_engine_propagation ::
  "(shape \<Rightarrow> 's \<Rightarrow> 's) \<Rightarrow> notice list \<Rightarrow> shape set \<times> 's \<Rightarrow> shape set \<times> 's" where
  "drain_engine_propagation prewarm [] st = st"
| "drain_engine_propagation prewarm (Notice sh # ns) (warmed_local, s) =
     (if sh \<in> warmed_local then drain_engine_propagation prewarm ns (warmed_local, s)
      else drain_engine_propagation prewarm ns (insert sh warmed_local, prewarm sh s))"
| "drain_engine_propagation prewarm (Lagged n # ns) st = drain_engine_propagation prewarm ns st"

text \<open>Warming one shape between requests; a success raises the shared ceiling with \<open>fetch_max\<close>.\<close>

definition prewarm_one :: "'w worker_env \<Rightarrow> shape \<Rightarrow> 'w shared \<Rightarrow> prewarm_stats \<times> 'w shared" where
  "prewarm_one env sh s =
     (case trt_prewarm (en_cache env) (en_warm env) [sh] (en_sm env) (sh_world s) of (stats, w') \<Rightarrow>
        (stats,
         s\<lparr>sh_world := w',
           sh_ceiling := (if 0 < pw_warmed stats \<or> pw_fully_cached stats
                          then max (sh_ceiling s) (max (pw_max_warmed_seq stats) (snd sh))
                          else sh_ceiling s)\<rparr>))"

section \<open>Probing\<close>

definition probe_run_dense ::
  "session \<Rightarrow> nat option \<Rightarrow> nat option \<Rightarrow> array2 \<Rightarrow> array2 \<Rightarrow> (failure, probe_result) result" where
  "probe_run_dense run before after ids_array mask_array =
     (let rss_before = (case before of None \<Rightarrow> 0 | Some n \<Rightarrow> n)
      in case run ids_array mask_array of
           Inl e \<Rightarrow> Inl (Err (Msg e))
         | Inr _ \<Rightarrow> Inr \<lparr>pr_rss_before = rss_before,
                          pr_rss_after = (case after of None \<Rightarrow> rss_before | Some n \<Rightarrow> n)\<rparr>)"

definition run_probe_batch :: "'w worker_env \<Rightarrow> string list \<Rightarrow> (failure, probe_result) result" where
  "run_probe_batch env texts =
     rbind (tokenize_no_pad (en_tokenizer env) texts) (\<lambda>encs.
       let pad_to = max (case list_max (map (\<lambda>e. length (enc_ids e)) encs) of None \<Rightarrow> 1 | Some m \<Rightarrow> m) 1
       in rbind (build_chunk_arrays encs [0..<length texts] pad_to) (\<lambda>(ids_array, mask_array).
            probe_run_dense (en_session env) (en_rss_before env) (en_rss_after env) ids_array mask_array))"

section \<open>Dispatch\<close>

text \<open>
  The result of dispatching: the outcome, whether the loop skips to the next request, the effects and the
  two states; \<open>None\<close> is a panic.
\<close>

record 'w dispatched =
  dp_outcome :: inference_outcome
  dp_skip :: bool
  dp_effects :: "effect list"
  dp_warmed_local :: "shape set"
  dp_shared :: "'w shared"

text \<open>The three embedding routes differ in the pipeline they run and the reply they send.\<close>

definition dispatch_embed ::
  "worker_config \<Rightarrow> nat \<Rightarrow> ((any_error, 't \<times> embed_stats) result \<Rightarrow> reply) \<Rightarrow> string \<Rightarrow>
   (cost_model \<Rightarrow> (failure, 't \<times> embed_stats) result) \<Rightarrow> string list \<Rightarrow> reply_tx \<Rightarrow> shape set \<Rightarrow> 'w shared \<Rightarrow>
   'w dispatched option" where
  "dispatch_embed config failures mk what embed_fn texts tx warmed_local s =
     (if tx_closed tx
      then Some \<lparr>dp_outcome = Outcome_Ok, dp_skip = True, dp_effects = [], dp_warmed_local = warmed_local, dp_shared = s\<rparr>
      else case embed_with_trt_retry embed_fn (sh_cost_model s) of
             Inl Panic \<Rightarrow> None
           | Inl (Err e) \<Rightarrow>
               (let e' = Context what e
                in case finalize_embed_route config failures (length texts) (Inl e' :: (any_error, 't \<times> embed_stats) result)
                          warmed_local of
                     (outcome, effs, warmed') \<Rightarrow>
                       Some \<lparr>dp_outcome = outcome, dp_skip = False, dp_effects = effs @ [Reply (tx_id tx) (mk (Inl e'))],
                             dp_warmed_local = warmed', dp_shared = s\<rparr>)
           | Inr v \<Rightarrow>
               (case finalize_embed_route config failures (length texts) (Inr v) warmed_local of
                  (outcome, effs, warmed') \<Rightarrow>
                    Some \<lparr>dp_outcome = outcome, dp_skip = False, dp_effects = effs @ [Reply (tx_id tx) (mk (Inr v))],
                          dp_warmed_local = warmed', dp_shared = s\<rparr>))"

definition adaptive_warmup_non_trt_compile_ms :: nat where "adaptive_warmup_non_trt_compile_ms = 0"

fun dispatch_request ::
  "'w worker_env \<Rightarrow> worker_config \<Rightarrow> nat \<Rightarrow> jit_guard option \<Rightarrow> nat \<Rightarrow> shape set \<Rightarrow> embed_request \<Rightarrow> 'w shared \<Rightarrow>
   'w dispatched option" where
  "dispatch_request env config wid guard failures warmed_local (Dense_Req texts tx) s =
     dispatch_embed config failures Dense_Reply ''Dense embed error''
       (\<lambda>cm. embed_dense (en_session env) (en_tokenizer env) (en_timing env) texts cm (wc_model_variant config) guard)
       texts tx warmed_local s"
| "dispatch_request env config wid guard failures warmed_local (Sparse_Req texts tx) s =
     dispatch_embed config failures Sparse_Reply ''Sparse embed error''
       (\<lambda>cm. embed_sparse (en_projection env) (en_session env) (en_tokenizer env) (en_timing env) texts cm
               (wc_model_variant config) guard)
       texts tx warmed_local s"
| "dispatch_request env config wid guard failures warmed_local (Both_Req texts tx) s =
     dispatch_embed config failures Both_Reply ''Dual embed error''
       (\<lambda>cm. embed_both (en_projection env) (en_session env) (en_tokenizer env) (en_timing env) texts cm
               (wc_model_variant config) guard)
       texts tx warmed_local s"
| "dispatch_request env config wid guard failures warmed_local (Probe_Req texts tx) s =
     (case run_probe_batch env texts of
        Inl Panic \<Rightarrow> None
      | Inl (Err e) \<Rightarrow>
          Some \<lparr>dp_outcome = Outcome_Ok, dp_skip = False, dp_effects = [Reply (tx_id tx) (Probe_Reply (Inl e))],
                dp_warmed_local = warmed_local, dp_shared = s\<rparr>
      | Inr r \<Rightarrow>
          Some \<lparr>dp_outcome = Outcome_Ok, dp_skip = False, dp_effects = [Reply (tx_id tx) (Probe_Reply (Inr r))],
                dp_warmed_local = warmed_local, dp_shared = s\<rparr>)"
| "dispatch_request env config wid guard failures warmed_local (AdaptiveWarmup_Req batch seq tx) s =
     (if wc_ep config = TensorRt
      then case prewarm_one env (batch, seq) s of (stats, s') \<Rightarrow>
             let res = (if 0 < pw_warmed stats \<or> pw_fully_cached stats then Inr (pw_total_compile_ms stats)
                        else Inl (Msg (''adaptive warmup: no shapes warmed for ('' @ show_nat batch @ '', '' @ show_nat seq @
                                       '') on worker '' @ show_nat wid)))
             in Some \<lparr>dp_outcome = Outcome_Ok, dp_skip = False, dp_effects = [Reply (tx_id tx) (Warmup_Ack res)],
                      dp_warmed_local = warmed_local, dp_shared = s'\<rparr>
      else Some \<lparr>dp_outcome = Outcome_Ok, dp_skip = False,
                 dp_effects = [Reply (tx_id tx) (Warmup_Ack (Inr adaptive_warmup_non_trt_compile_ms))],
                 dp_warmed_local = warmed_local, dp_shared = s\<rparr>)"

fun reply_request_load_error :: "embed_request \<Rightarrow> any_error \<Rightarrow> effect" where
  "reply_request_load_error (Dense_Req _ tx) err = Reply (tx_id tx) (Dense_Reply (Inl err))"
| "reply_request_load_error (Sparse_Req _ tx) err = Reply (tx_id tx) (Sparse_Reply (Inl err))"
| "reply_request_load_error (Both_Req _ tx) err = Reply (tx_id tx) (Both_Reply (Inl err))"
| "reply_request_load_error (Probe_Req _ tx) err = Reply (tx_id tx) (Probe_Reply (Inl err))"
| "reply_request_load_error (AdaptiveWarmup_Req _ _ tx) err = Reply (tx_id tx) (Warmup_Ack (Inl err))"

section \<open>The request loop\<close>

datatype message = Elapsed | Channel_Closed | Request embed_request

datatype control = Continue | Exit | Exit_Error string | Abort

text \<open>The \<open>Drop\<close> of \<open>WorkerGuard\<close>, run whenever the worker function returns.\<close>

definition guard_drop :: "'w shared \<Rightarrow> 'w shared" where
  "guard_drop s = s\<lparr>sh_live := sh_live s - 1\<rparr>"

text \<open>A timeout is only waited for while models are loaded and a timeout is configured.\<close>

definition may_elapse :: "worker_config \<Rightarrow> worker \<Rightarrow> bool" where
  "may_elapse config wk \<longleftrightarrow> wc_idle_timeout config \<noteq> None \<and> wk_models wk"

definition drain_peers :: "'w worker_env \<Rightarrow> worker_config \<Rightarrow> notice list \<Rightarrow> worker \<Rightarrow> 'w shared \<Rightarrow> worker \<times> 'w shared" where
  "drain_peers env config notices wk s =
     (if wc_ep config = TensorRt \<and> wc_engine_propagation_tx config \<and> wk_models wk
      then case drain_engine_propagation (\<lambda>sh s. snd (prewarm_one env sh s)) notices (wk_warmed_local wk, s) of
             (warmed', s') \<Rightarrow> (wk\<lparr>wk_warmed_local := warmed'\<rparr>, s')
      else (wk, s))"

text \<open>The request arm after the models are known to be loaded.\<close>

definition serve_loaded ::
  "'w worker_env \<Rightarrow> worker_config \<Rightarrow> nat \<Rightarrow> embed_request \<Rightarrow> worker \<Rightarrow> 'w shared \<Rightarrow> effect list \<times> control \<times> worker \<times> 'w shared" where
  "serve_loaded env config wid req wk s =
     (case dispatch_request env config wid (build_shape_guard config (sh_ceiling s)) (wk_failures wk)
             (wk_warmed_local wk) req s of
        None \<Rightarrow> ([], Abort, wk, s)
      | Some d \<Rightarrow>
          let wk1 = wk\<lparr>wk_warmed_local := dp_warmed_local d\<rparr>; s1 = dp_shared d
          in if dp_skip d then (dp_effects d, Continue, wk1, s1)
             else let wk2 = wk1\<lparr>wk_failures := next_consecutive_failures (dp_outcome d) (wk_failures wk1)\<rparr>
                  in if dp_outcome d = TrtFatal
                     then (dp_effects d,
                           Exit_Error (''Worker '' @ show_nat wid @ '' hit fatal TRT engine build error; exiting''),
                           wk2\<lparr>wk_models := False\<rparr>, guard_drop s1)
                     else if should_unload_on_outcome (dp_outcome d)
                     then (dp_effects d, Continue, wk2\<lparr>wk_models := False\<rparr>, s1\<lparr>sh_loaded := sh_loaded s1 - 1\<rparr>)
                     else (dp_effects d, Continue, wk2, s1))"

fun worker_message ::
  "'w worker_env \<Rightarrow> worker_config \<Rightarrow> nat \<Rightarrow> message \<Rightarrow> worker \<Rightarrow> 'w shared \<Rightarrow> effect list \<times> control \<times> worker \<times> 'w shared" where
  "worker_message env config wid Elapsed wk s =
     ([], Continue, wk\<lparr>wk_models := False\<rparr>, s\<lparr>sh_loaded := sh_loaded s - 1\<rparr>)"
| "worker_message env config wid Channel_Closed wk s =
     (let s1 = (if wk_models wk then s\<lparr>sh_loaded := sh_loaded s - 1\<rparr> else s)
      in ([], Exit, wk\<lparr>wk_models := False\<rparr>, guard_drop s1))"
| "worker_message env config wid (Request req) wk s =
     (if wk_models wk then serve_loaded env config wid req wk s
      else case en_load env of
             Inr _ \<Rightarrow>
               serve_loaded env config wid req (wk\<lparr>wk_models := True\<rparr>) (s\<lparr>sh_loaded := sh_loaded s + 1\<rparr>)
           | Inl e \<Rightarrow> ([reply_request_load_error req (Msg (''Model reload failed: '' @ e))], Continue, wk, s))"

definition worker_iteration ::
  "'w worker_env \<Rightarrow> worker_config \<Rightarrow> nat \<Rightarrow> notice list \<Rightarrow> message \<Rightarrow> worker \<Rightarrow> 'w shared \<Rightarrow>
   effect list \<times> control \<times> worker \<times> 'w shared" where
  "worker_iteration env config wid notices msg wk s =
     (case drain_peers env config notices wk s of (wk', s') \<Rightarrow> worker_message env config wid msg wk' s')"

text \<open>
  A run of the loop. Before each pass the peers may have changed the shared state, and what the
  session, the tokenizer and the loader answer may differ from pass to pass.
\<close>

record 'w pass_input =
  pi_env :: "'w worker_env"
  pi_peers :: "'w shared \<Rightarrow> 'w shared"
  pi_notices :: "notice list"
  pi_message :: message

record pass_log =
  lg_before :: worker
  lg_effects :: "effect list"
  lg_control :: control
  lg_after :: worker

fun worker_run ::
  "worker_config \<Rightarrow> nat \<Rightarrow> 'w pass_input list \<Rightarrow> worker \<Rightarrow> 'w shared \<Rightarrow> pass_log list \<times> 'w shared" where
  "worker_run config wid [] wk s = ([], s)"
| "worker_run config wid (i # is) wk s =
     (case worker_iteration (pi_env i) config wid (pi_notices i) (pi_message i) wk (pi_peers i s) of
        (effs, ctl, wk', s') \<Rightarrow>
          (case ctl of
             Abort \<Rightarrow> ([], s')
           | Continue \<Rightarrow>
               (case worker_run config wid is wk' s' of
                  (trail, s'') \<Rightarrow>
                    (\<lparr>lg_before = wk, lg_effects = effs, lg_control = Continue, lg_after = wk'\<rparr> # trail, s''))
           | _ \<Rightarrow> ([\<lparr>lg_before = wk, lg_effects = effs, lg_control = ctl, lg_after = wk'\<rparr>], s')))"

section \<open>Startup\<close>

datatype startup_outcome = Startup_Failed string bool | Startup_Ready nat

text \<open>The flag of a failure says whether it was also sent on the readiness channel.\<close>

definition run_cache_gc :: "'w worker_env \<Rightarrow> worker_config \<Rightarrow> nat \<Rightarrow> 'w \<Rightarrow> 'w" where
  "run_cache_gc env config wid w =
     (if wid = 0 \<and> wc_trt_cache_gc_enabled config \<and> wc_ep config \<noteq> Cpu
      then case detect_sm_for_device (en_smi env) (wc_device_id config) of
             Some current_sm \<Rightarrow> en_set_cache env (fst (gc_stale_sm_plans True (en_cache env w) current_sm)) w
           | None \<Rightarrow> w
      else w)"

definition detected_sm_for_ep :: "'w worker_env \<Rightarrow> ep_selection \<Rightarrow> nat \<Rightarrow> string option" where
  "detected_sm_for_ep env ep device_id = (if ep = TensorRt then detect_sm_for_device (en_smi env) device_id else None)"

text \<open>Pre-warm of the worker's shard: it raises the ceiling of the JIT guard and, in strict mode, may refuse readiness.\<close>

definition prewarm_shard ::
  "'w worker_env \<Rightarrow> worker_config \<Rightarrow> nat \<Rightarrow> string option \<Rightarrow> 'w shared \<Rightarrow> string option \<times> 'w shared" where
  "prewarm_shard env config wid sm s =
     (if wc_ep config = TensorRt \<and> wc_trt_warmup_shapes config \<noteq> []
      then case trt_prewarm (en_cache env) (en_warm env) (wc_trt_warmup_shapes config) sm (sh_world s) of (stats, w2) \<Rightarrow>
             (if should_fail_readiness (pw_fresh_compiles stats) (pw_engine_count_after stats) (wc_prewarm_strict config)
              then Some (''Worker '' @ show_nat wid @ '' prewarm postcondition failed (fresh_compiles='' @
                     show_nat (pw_fresh_compiles stats) @ '', engine_count_after='' @
                     show_nat (pw_engine_count_after stats) @ ''); prewarm_strict=1: refusing to signal ready'')
              else None,
              s\<lparr>sh_world := w2, sh_ceiling := max (sh_ceiling s) (pw_max_warmed_seq stats)\<rparr>)
      else (None, s))"

definition startup_worker ::
  "'w worker_env \<Rightarrow> worker_config \<Rightarrow> nat \<Rightarrow> 'w shared \<Rightarrow> startup_outcome \<times> 'w shared" where
  "startup_worker env config wid s =
     (let pre_load_rss = (case en_rss_before env of None \<Rightarrow> 0 | Some n \<Rightarrow> n)
      in case en_load env of
           Inl e \<Rightarrow> (Startup_Failed (''Worker '' @ show_nat wid @ '' failed to load: '' @ e) True, s)
         | Inr _ \<Rightarrow>
             let s1 = s\<lparr>sh_world := run_cache_gc env config wid (sh_world s)\<rparr>;
                 sm = detected_sm_for_ep env (wc_ep config) (wc_device_id config)
             in case prewarm_shard env config wid sm s1 of
                  (Some e, s2) \<Rightarrow> (Startup_Failed e False, s2)
                | (None, s2) \<Rightarrow>
                    let post_load_rss = (case en_rss_after env of None \<Rightarrow> pre_load_rss | Some n \<Rightarrow> n)
                    in (Startup_Ready (post_load_rss - pre_load_rss), s2))"

section \<open>Facts\<close>

fun request_tx :: "embed_request \<Rightarrow> reply_tx" where
  "request_tx (Dense_Req _ tx) = tx"
| "request_tx (Sparse_Req _ tx) = tx"
| "request_tx (Both_Req _ tx) = tx"
| "request_tx (Probe_Req _ tx) = tx"
| "request_tx (AdaptiveWarmup_Req _ _ tx) = tx"

fun is_embedding :: "embed_request \<Rightarrow> bool" where
  "is_embedding (Probe_Req _ tx) = False"
| "is_embedding (AdaptiveWarmup_Req _ _ tx) = False"
| "is_embedding _ = True"

definition reply_ids :: "effect list \<Rightarrow> nat list" where
  "reply_ids effs = concat (map (\<lambda>e. case e of Reply i r \<Rightarrow> [i] | _ \<Rightarrow> []) effs)"

lemma reply_ids_simps [simp]:
  "reply_ids [] = []"
  "reply_ids (Reply i r # es) = i # reply_ids es"
  "reply_ids (Suspect sh # es) = reply_ids es"
  "reply_ids (Broadcast sh # es) = reply_ids es"
  "reply_ids (es @ fs) = reply_ids es @ reply_ids fs"
  by (simp_all add: reply_ids_def)

lemma log_inference_complete_no_reply [simp]:
  "reply_ids (fst (log_inference_complete stats j p n)) = []"
  by (simp add: log_inference_complete_def Let_def)

lemma finalize_no_reply:
  "finalize_embed_route config failures n res warmed = (outcome, effs, warmed') \<Longrightarrow> reply_ids effs = []"
  by (auto simp: finalize_embed_route_def Let_def split: sum.splits prod.splits)
    (metis fst_conv log_inference_complete_no_reply)

lemma finalize_outcome:
  "finalize_embed_route config failures n res warmed = (outcome, effs, warmed') \<Longrightarrow>
   outcome = classify_inference_outcome (case res of Inl e \<Rightarrow> is_trt_engine_build_fatal e | Inr _ \<Rightarrow> False)
     (case res of Inl e \<Rightarrow> is_trt_shape_rejected e | Inr _ \<Rightarrow> False) (is_err res) failures
     (wc_circuit_breaker_threshold config)"
  by (auto simp: finalize_embed_route_def Let_def split: prod.splits)

text \<open>What every dispatch does, whichever route the request takes.\<close>

lemma dispatch_embed_facts:
  assumes "dispatch_embed config failures mk what f texts tx warmed s = Some d"
  shows "dp_shared d = s \<and> dp_skip d = tx_closed tx \<and>
    reply_ids (dp_effects d) = (if tx_closed tx then [] else [tx_id tx]) \<and>
    (\<exists>fatal rejected err. dp_outcome d = classify_inference_outcome fatal rejected err failures (wc_circuit_breaker_threshold config))"
proof (cases "tx_closed tx")
  case True
  have "classify_inference_outcome False False False failures (wc_circuit_breaker_threshold config) = Outcome_Ok"
    by (simp add: classify_inference_outcome_def)
  then show ?thesis using assms True by (auto simp: dispatch_embed_def) metis
next
  case False
  obtain res outcome effs warmed' where r: "finalize_embed_route config failures (length texts) res warmed = (outcome, effs, warmed')"
    "d = \<lparr>dp_outcome = outcome, dp_skip = False, dp_effects = effs @ [Reply (tx_id tx) (mk res)], dp_warmed_local = warmed', dp_shared = s\<rparr>"
    using assms False
    by (cases "embed_with_trt_retry f (sh_cost_model s)" rule: sum.exhaust)
      (auto simp: dispatch_embed_def Let_def split: failure.splits prod.splits)
  show ?thesis using False r finalize_no_reply [OF r(1)] finalize_outcome [OF r(1)] by auto
qed

lemma prewarm_one_counters [simp]:
  "sh_loaded (snd (prewarm_one env sh s)) = sh_loaded s"
  "sh_live (snd (prewarm_one env sh s)) = sh_live s"
  "sh_cost_model (snd (prewarm_one env sh s)) = sh_cost_model s"
  "sh_ceiling s \<le> sh_ceiling (snd (prewarm_one env sh s))"
  by (auto simp: prewarm_one_def split: prod.splits)

lemma dispatch_facts:
  assumes "dispatch_request env config wid guard failures warmed req s = Some d"
  shows "sh_loaded (dp_shared d) = sh_loaded s \<and> sh_live (dp_shared d) = sh_live s \<and>
    sh_ceiling s \<le> sh_ceiling (dp_shared d) \<and>
    dp_skip d = (is_embedding req \<and> tx_closed (request_tx req)) \<and>
    reply_ids (dp_effects d) = (if is_embedding req \<and> tx_closed (request_tx req) then [] else [tx_id (request_tx req)]) \<and>
    (\<exists>fatal rejected err. dp_outcome d = classify_inference_outcome fatal rejected err failures (wc_circuit_breaker_threshold config))"
proof (cases req)
  case (Probe_Req texts tx)
  have "classify_inference_outcome False False False failures (wc_circuit_breaker_threshold config) = Outcome_Ok"
    by (simp add: classify_inference_outcome_def)
  then show ?thesis using assms Probe_Req by (auto split: sum.splits failure.splits intro!: exI [of _ False])
next
  case (AdaptiveWarmup_Req batch seq tx)
  have "classify_inference_outcome False False False failures (wc_circuit_breaker_threshold config) = Outcome_Ok"
    by (simp add: classify_inference_outcome_def)
  then show ?thesis
    using assms AdaptiveWarmup_Req prewarm_one_counters [where env = env and sh = "(batch, seq)" and s = s]
    by (cases "prewarm_one env (batch, seq) s") (auto simp: Let_def split: if_splits intro!: exI [of _ False])
qed (use assms in \<open>auto dest!: dispatch_embed_facts\<close>)

text \<open>The counter stays below the threshold, so it can never overflow its 64 bits.\<close>

definition below_threshold :: "worker_config \<Rightarrow> worker \<Rightarrow> bool" where
  "below_threshold config wk \<longleftrightarrow> wk_failures wk < max 1 (wc_circuit_breaker_threshold config)"

lemma classify_next_bound:
  assumes "n < max 1 t"
  shows "next_consecutive_failures (classify_inference_outcome fatal rejected err n t) n < max 1 t"
  using assms by (auto simp: classify_inference_outcome_def)

lemma below_threshold_step:
  assumes "below_threshold config wk"
    and "outcome = classify_inference_outcome fatal rejected err (wk_failures wk) (wc_circuit_breaker_threshold config)"
    and "wk_failures wk' = next_consecutive_failures outcome (wk_failures wk)"
  shows "below_threshold config wk'"
  using assms classify_next_bound [of "wk_failures wk"] by (simp only: below_threshold_def)

text \<open>
  The accounting of one served request: models stay loaded unless the breaker unloads them (and
  the counter follows) or the worker exits on a fatal error (and the counter does not).
\<close>

lemma serve_loaded_facts:
  assumes "serve_loaded env config wid req wk s = (effs, ctl, wk', s')" and "ctl \<noteq> Abort" and "wk_models wk"
  shows "(ctl = Continue \<or> (\<exists>m. ctl = Exit_Error m)) \<and>
    sh_loaded s' = sh_loaded s + of_bool (wk_models wk' \<or> ctl \<noteq> Continue) - 1 \<and>
    sh_live s' = sh_live s - of_bool (ctl \<noteq> Continue) \<and>
    (ctl \<noteq> Continue \<longrightarrow> \<not> wk_models wk') \<and> sh_ceiling s \<le> sh_ceiling s' \<and>
    reply_ids effs = (if is_embedding req \<and> tx_closed (request_tx req) then [] else [tx_id (request_tx req)]) \<and>
    (below_threshold config wk \<longrightarrow> below_threshold config wk')"
proof -
  obtain d where d: "dispatch_request env config wid (build_shape_guard config (sh_ceiling s)) (wk_failures wk)
      (wk_warmed_local wk) req s = Some d"
    using assms by (auto simp: serve_loaded_def split: option.splits)
  note f = dispatch_facts [OF d]
  obtain fatal rejected err where out: "dp_outcome d = classify_inference_outcome fatal rejected err (wk_failures wk)
      (wc_circuit_breaker_threshold config)" using f by blast
  have "below_threshold config wk \<longrightarrow> below_threshold config wk'"
  proof (cases "dp_skip d")
    case True
    then show ?thesis using assms(1) d by (auto simp: serve_loaded_def Let_def below_threshold_def)
  next
    case False
    then have "wk_failures wk' = next_consecutive_failures (dp_outcome d) (wk_failures wk)"
      using assms(1) d by (auto simp: serve_loaded_def Let_def split: if_splits)
    then show ?thesis using below_threshold_step [OF _ out] by blast
  qed
  then show ?thesis
    using assms f d
    by (auto simp: serve_loaded_def Let_def guard_drop_def should_unload_on_outcome_def split: if_splits)
qed

lemma drain_invariant:
  assumes "\<And>sh s. P s \<Longrightarrow> P (prewarm sh s)" and "P s"
  shows "P (snd (drain_engine_propagation prewarm ns (W, s)))"
  using assms(2)
proof (induction ns arbitrary: W s)
  case (Cons n ns)
  then show ?case using assms(1) by (cases n) auto
qed simp

lemma drain_peers_facts:
  assumes "drain_peers env config notices wk s = (wk', s')"
  shows "wk_models wk' = wk_models wk \<and> wk_failures wk' = wk_failures wk \<and> sh_loaded s' = sh_loaded s \<and>
    sh_live s' = sh_live s \<and> sh_ceiling s \<le> sh_ceiling s'"
proof -
  let ?P = "\<lambda>x. sh_loaded x = sh_loaded s \<and> sh_live x = sh_live s \<and> sh_ceiling s \<le> sh_ceiling x"
  have "?P (snd (drain_engine_propagation (\<lambda>sh s. snd (prewarm_one env sh s)) notices (wk_warmed_local wk, s)))"
    by (rule drain_invariant) (auto intro: order_trans prewarm_one_counters(4))
  then show ?thesis
    using assms by (auto simp: drain_peers_def split: if_splits prod.splits)
qed

fun is_fatal_exit :: "control \<Rightarrow> bool" where
  "is_fatal_exit (Exit_Error m) = True"
| "is_fatal_exit _ = False"

lemma worker_message_facts:
  assumes "worker_message env config wid msg wk s = (effs, ctl, wk', s')" and "ctl \<noteq> Abort"
    and "msg = Elapsed \<Longrightarrow> wk_models wk"
  shows "sh_loaded s' = sh_loaded s + of_bool (wk_models wk' \<or> is_fatal_exit ctl) - of_bool (wk_models wk) \<and>
    sh_live s' = sh_live s - of_bool (ctl \<noteq> Continue) \<and> (ctl \<noteq> Continue \<longrightarrow> \<not> wk_models wk') \<and>
    sh_ceiling s \<le> sh_ceiling s' \<and> (below_threshold config wk \<longrightarrow> below_threshold config wk')"
proof (cases msg)
  case (Request req)
  show ?thesis
  proof (cases "wk_models wk")
    case True
    then have "serve_loaded env config wid req wk s = (effs, ctl, wk', s')" using assms Request by simp
    from serve_loaded_facts [OF this assms(2) True] show ?thesis using True by auto
  next
    case False
    show ?thesis
    proof (cases "en_load env")
      case (Inr u)
      then have "serve_loaded env config wid req (wk\<lparr>wk_models := True\<rparr>) (s\<lparr>sh_loaded := sh_loaded s + 1\<rparr>) =
          (effs, ctl, wk', s')" using assms Request False by simp
      from serve_loaded_facts [OF this assms(2)] show ?thesis using False by (auto simp: below_threshold_def)
    qed (use assms Request False in auto)
  qed
qed (use assms in \<open>auto simp: Let_def guard_drop_def below_threshold_def split: if_splits\<close>)

lemma worker_message_replies:
  assumes "worker_message env config wid (Request req) wk s = (effs, ctl, wk', s')" and "ctl \<noteq> Abort"
  shows "reply_ids effs = [tx_id (request_tx req)] \<or>
    (reply_ids effs = [] \<and> is_embedding req \<and> tx_closed (request_tx req))"
proof (cases "wk_models wk")
  case True
  then have "serve_loaded env config wid req wk s = (effs, ctl, wk', s')" using assms by simp
  from serve_loaded_facts [OF this assms(2) True] show ?thesis by auto
next
  case False
  show ?thesis
  proof (cases "en_load env")
    case (Inl e)
    then show ?thesis using assms False by (cases req) auto
  next
    case (Inr u)
    then have "serve_loaded env config wid req (wk\<lparr>wk_models := True\<rparr>) (s\<lparr>sh_loaded := sh_loaded s + 1\<rparr>) =
        (effs, ctl, wk', s')" using assms False by simp
    from serve_loaded_facts [OF this assms(2)] show ?thesis by auto
  qed
qed

text \<open>
  What one pass of a worker's loop owes the pool it runs in: the counters move with the state of its
  models and its life, the ceiling only rises, the failure counter stays bounded. The pool is
  verified against this contract alone.
\<close>

locale worker_loop =
  fixes pass :: "notice list \<Rightarrow> message \<Rightarrow> worker \<Rightarrow> 'w shared \<Rightarrow> effect list \<times> control \<times> worker \<times> 'w shared"
    and config :: worker_config
  assumes pass_loaded: "pass ns msg wk s = (effs, ctl, wk', s') \<Longrightarrow> ctl \<noteq> Abort \<Longrightarrow> (msg = Elapsed \<Longrightarrow> wk_models wk) \<Longrightarrow>
      sh_loaded s' = sh_loaded s + of_bool (wk_models wk' \<or> is_fatal_exit ctl) - of_bool (wk_models wk)"
    and pass_live: "pass ns msg wk s = (effs, ctl, wk', s') \<Longrightarrow> ctl \<noteq> Abort \<Longrightarrow> (msg = Elapsed \<Longrightarrow> wk_models wk) \<Longrightarrow>
      sh_live s' = sh_live s - of_bool (ctl \<noteq> Continue)"
    and pass_exit: "pass ns msg wk s = (effs, ctl, wk', s') \<Longrightarrow> ctl \<noteq> Abort \<Longrightarrow> (msg = Elapsed \<Longrightarrow> wk_models wk) \<Longrightarrow>
      ctl \<noteq> Continue \<Longrightarrow> \<not> wk_models wk'"
    and pass_ceiling: "pass ns msg wk s = (effs, ctl, wk', s') \<Longrightarrow> ctl \<noteq> Abort \<Longrightarrow> (msg = Elapsed \<Longrightarrow> wk_models wk) \<Longrightarrow>
      sh_ceiling s \<le> sh_ceiling s'"
    and pass_failures: "pass ns msg wk s = (effs, ctl, wk', s') \<Longrightarrow> ctl \<noteq> Abort \<Longrightarrow> (msg = Elapsed \<Longrightarrow> wk_models wk) \<Longrightarrow>
      below_threshold config wk \<Longrightarrow> below_threshold config wk'"

lemma worker_iteration_facts:
  assumes "worker_iteration env config wid ns msg wk s = (effs, ctl, wk', s')" and "ctl \<noteq> Abort"
    and "msg = Elapsed \<Longrightarrow> wk_models wk"
  shows "sh_loaded s' = sh_loaded s + of_bool (wk_models wk' \<or> is_fatal_exit ctl) - of_bool (wk_models wk) \<and>
    sh_live s' = sh_live s - of_bool (ctl \<noteq> Continue) \<and> (ctl \<noteq> Continue \<longrightarrow> \<not> wk_models wk') \<and>
    sh_ceiling s \<le> sh_ceiling s' \<and> (below_threshold config wk \<longrightarrow> below_threshold config wk')"
proof -
  obtain wk1 s1 where d: "drain_peers env config ns wk s = (wk1, s1)" by (cases "drain_peers env config ns wk s")
  note f = drain_peers_facts [OF d]
  have "worker_message env config wid msg wk1 s1 = (effs, ctl, wk', s')"
    using assms(1) d by (simp add: worker_iteration_def)
  from worker_message_facts [OF this assms(2)] show ?thesis
    using f assms(3) by (auto simp: below_threshold_def)
qed

interpretation wl: worker_loop "worker_iteration env config wid" config for env config wid
  by unfold_locales (use worker_iteration_facts in blast)+

section \<open>Runs of the circuit breaker\<close>

text \<open>
  What a pass means for the breaker, read off the replies it sent. A pass that could not load the
  models, sent nothing, refused the shape or met the fatal engine error is neutral.
\<close>

datatype verdict = Good | Bad | Neutral

fun result_verdict :: "(any_error, 'a) result \<Rightarrow> verdict" where
  "result_verdict (Inr _) = Good"
| "result_verdict (Inl e) = (if is_trt_engine_build_fatal e \<or> is_trt_shape_rejected e then Neutral else Bad)"

fun reply_verdict :: "reply \<Rightarrow> verdict" where
  "reply_verdict (Dense_Reply r) = result_verdict r"
| "reply_verdict (Sparse_Reply r) = result_verdict r"
| "reply_verdict (Both_Reply r) = result_verdict r"
| "reply_verdict (Probe_Reply r) = Good"
| "reply_verdict (Warmup_Ack r) = Good"

fun effects_verdict :: "effect list \<Rightarrow> verdict" where
  "effects_verdict [] = Neutral"
| "effects_verdict (Reply i r # es) = reply_verdict r"
| "effects_verdict (_ # es) = effects_verdict es"

definition served :: "'w worker_env \<Rightarrow> worker \<Rightarrow> bool" where
  "served env wk \<longleftrightarrow> wk_models wk \<or> \<not> is_err (en_load env)"

definition pass_verdict :: "'w pass_input \<Rightarrow> pass_log \<Rightarrow> verdict" where
  "pass_verdict i l = (if served (pi_env i) (lg_before l) then effects_verdict (lg_effects l) else Neutral)"

definition run_verdicts :: "'w pass_input list \<Rightarrow> pass_log list \<Rightarrow> verdict list" where
  "run_verdicts is trail = map2 pass_verdict is trail"

text \<open>The failures since the last success.\<close>

definition failures_in_a_row :: "verdict list \<Rightarrow> nat" where
  "failures_in_a_row vs = length (filter (\<lambda>v. v = Bad) (takeWhile (\<lambda>v. v \<noteq> Good) (rev vs)))"

lemma failures_in_a_row_snoc [simp]:
  "failures_in_a_row [] = 0"
  "failures_in_a_row (vs @ [v]) = (case v of Good \<Rightarrow> 0 | Bad \<Rightarrow> Suc (failures_in_a_row vs) | Neutral \<Rightarrow> failures_in_a_row vs)"
  by (simp_all add: failures_in_a_row_def split: verdict.split)

text \<open>One step of the counter: what the three breaker functions do with a verdict.\<close>

fun breaker_next :: "nat \<Rightarrow> verdict \<Rightarrow> nat \<Rightarrow> nat" where
  "breaker_next t Good n = 0"
| "breaker_next t Bad n = (if t \<le> Suc n then 0 else Suc n)"
| "breaker_next t Neutral n = n"

lemma effects_verdict_append:
  "reply_ids effs = [] \<Longrightarrow> effects_verdict (effs @ es) = effects_verdict es"
  by (induction effs rule: effects_verdict.induct) auto

lemma effects_verdict_none: "reply_ids effs = [] \<Longrightarrow> effects_verdict effs = Neutral"
  by (induction effs rule: effects_verdict.induct) auto

lemma classify_verdict:
  "next_consecutive_failures (classify_inference_outcome (case r of Inl e \<Rightarrow> is_trt_engine_build_fatal e | Inr _ \<Rightarrow> False)
     (case r of Inl e \<Rightarrow> is_trt_shape_rejected e | Inr _ \<Rightarrow> False) (is_err r) n t) n = breaker_next t (result_verdict r) n"
  "classify_inference_outcome (case r of Inl e \<Rightarrow> is_trt_engine_build_fatal e | Inr _ \<Rightarrow> False)
     (case r of Inl e \<Rightarrow> is_trt_shape_rejected e | Inr _ \<Rightarrow> False) (is_err r) n t = CircuitBreak \<longleftrightarrow>
   result_verdict r = Bad \<and> t \<le> Suc n"
  by (cases r; auto simp: classify_inference_outcome_def)+

definition breaker_sound :: "worker_config \<Rightarrow> nat \<Rightarrow> 'w dispatched \<Rightarrow> bool" where
  "breaker_sound config n d \<longleftrightarrow>
     (let t = wc_circuit_breaker_threshold config; v = effects_verdict (dp_effects d)
      in if dp_skip d then v = Neutral
         else next_consecutive_failures (dp_outcome d) n = breaker_next t v n \<and>
              (dp_outcome d = CircuitBreak \<longleftrightarrow> v = Bad \<and> t \<le> Suc n))"

lemma dispatch_embed_breaker:
  assumes "dispatch_embed config n mk what f texts tx warmed s = Some d"
    and mk: "\<And>r. reply_verdict (mk r) = result_verdict r"
  shows "breaker_sound config n d"
proof (cases "tx_closed tx")
  case True
  then show ?thesis using assms(1) by (auto simp: dispatch_embed_def breaker_sound_def)
next
  case False
  obtain res outcome effs warmed' where r: "finalize_embed_route config n (length texts) res warmed = (outcome, effs, warmed')"
    "d = \<lparr>dp_outcome = outcome, dp_skip = False, dp_effects = effs @ [Reply (tx_id tx) (mk res)], dp_warmed_local = warmed', dp_shared = s\<rparr>"
    using assms(1) False
    by (cases "embed_with_trt_retry f (sh_cost_model s)" rule: sum.exhaust)
      (auto simp: dispatch_embed_def Let_def split: failure.splits prod.splits)
  have "effects_verdict (dp_effects d) = result_verdict res"
    using r(2) mk effects_verdict_append [OF finalize_no_reply [OF r(1)]] by simp
  then show ?thesis
    using r(2) finalize_outcome [OF r(1)] by (simp add: breaker_sound_def Let_def classify_verdict)
qed

lemma dispatch_breaker:
  assumes "dispatch_request env config wid guard n warmed req s = Some d"
  shows "breaker_sound config n d"
proof (cases req)
  case (Probe_Req texts tx)
  then show ?thesis
    using assms by (auto simp: breaker_sound_def split: sum.splits failure.splits)
next
  case (AdaptiveWarmup_Req batch seq tx)
  then show ?thesis
    using assms by (auto simp: breaker_sound_def Let_def split: if_splits prod.splits)
qed (use assms dispatch_embed_breaker in \<open>fastforce+\<close>)

text \<open>One pass of the loop, in terms of what it replied.\<close>

lemma serve_loaded_breaker:
  assumes "serve_loaded env config wid req wk s = (effs, ctl, wk', s')" and "ctl \<noteq> Abort" and "wk_models wk"
  shows "wk_failures wk' = breaker_next (wc_circuit_breaker_threshold config) (effects_verdict effs) (wk_failures wk) \<and>
    (ctl = Continue \<longrightarrow> (wk_models wk' \<longleftrightarrow>
       \<not> (effects_verdict effs = Bad \<and> wc_circuit_breaker_threshold config \<le> Suc (wk_failures wk))))"
proof -
  obtain d where d: "dispatch_request env config wid (build_shape_guard config (sh_ceiling s)) (wk_failures wk)
      (wk_warmed_local wk) req s = Some d"
    using assms by (auto simp: serve_loaded_def split: option.splits)
  show ?thesis
    using dispatch_breaker [OF d] assms d
    by (auto simp: serve_loaded_def breaker_sound_def Let_def should_unload_on_outcome_def split: if_splits)
qed

lemma iteration_breaker:
  assumes "worker_iteration env config wid ns msg wk s = (effs, ctl, wk', s')" and "ctl \<noteq> Abort"
  defines "v \<equiv> (if served env wk then effects_verdict effs else Neutral)" and "t \<equiv> wc_circuit_breaker_threshold config"
  shows "wk_failures wk' = breaker_next t v (wk_failures wk) \<and>
    (ctl = Continue \<and> (\<exists>req. msg = Request req) \<longrightarrow>
       (wk_models wk' \<longleftrightarrow> served env wk \<and> \<not> (v = Bad \<and> t \<le> Suc (wk_failures wk))))"
proof -
  obtain wk1 s1 where d: "drain_peers env config ns wk s = (wk1, s1)" by (cases "drain_peers env config ns wk s")
  note f = drain_peers_facts [OF d]
  have m: "worker_message env config wid msg wk1 s1 = (effs, ctl, wk', s')"
    using assms(1) d by (simp add: worker_iteration_def)
  show ?thesis
  proof (cases msg)
    case (Request req)
    show ?thesis
    proof (cases "wk_models wk")
      case True
      then have "serve_loaded env config wid req wk1 s1 = (effs, ctl, wk', s')" using m Request f by simp
      from serve_loaded_breaker [OF this assms(2)] show ?thesis
        using True f Request by (simp add: v_def t_def served_def)
    next
      case False
      show ?thesis
      proof (cases "en_load env")
        case (Inr u)
        then have "serve_loaded env config wid req (wk1\<lparr>wk_models := True\<rparr>) (s1\<lparr>sh_loaded := sh_loaded s1 + 1\<rparr>) =
            (effs, ctl, wk', s')" using m Request False f by simp
        from serve_loaded_breaker [OF this assms(2)] show ?thesis
          using Inr f Request by (simp add: v_def t_def served_def)
      qed (use m Request False f in \<open>auto simp: v_def served_def\<close>)
    qed
  qed (use m f in \<open>auto simp: v_def Let_def\<close>)
qed

lemma breaker_next_mod:
  assumes "n = k mod max 1 t"
  shows "breaker_next t Bad n = Suc k mod max 1 t" "t \<le> Suc n \<longleftrightarrow> max 1 t dvd Suc k"
proof -
  have "n < max 1 t" using assms by simp
  have e: "Suc k mod max 1 t = (if Suc n = max 1 t then 0 else Suc n)"
    using assms mod_Suc [of k "max 1 t"] by simp
  then show "breaker_next t Bad n = Suc k mod max 1 t" using \<open>n < max 1 t\<close> by auto
  show "t \<le> Suc n \<longleftrightarrow> max 1 t dvd Suc k"
    using e \<open>n < max 1 t\<close> by (auto simp: dvd_eq_mod_eq_0 split: if_splits)
qed

lemma worker_run_breaker:
  assumes "worker_run config wid is wk s = (trail, s')" and "wk_failures wk = failures_in_a_row vs mod max 1 t"
    and "t = wc_circuit_breaker_threshold config" and "k < length trail"
  shows "wk_failures (lg_after (trail ! k)) = failures_in_a_row (vs @ take (Suc k) (run_verdicts is trail)) mod max 1 t \<and>
    (\<forall>req. pi_message (is ! k) = Request req \<and> lg_control (trail ! k) = Continue \<longrightarrow>
       (wk_models (lg_after (trail ! k)) \<longleftrightarrow> served (pi_env (is ! k)) (lg_before (trail ! k)) \<and>
          \<not> (run_verdicts is trail ! k = Bad \<and> max 1 t dvd failures_in_a_row (vs @ take (Suc k) (run_verdicts is trail)))))"
  using assms
proof (induction config wid "is" wk s arbitrary: trail vs k s' rule: worker_run.induct)
  case (2 config wid i "is" wk s)
  obtain effs ctl wk1 s1 where p: "worker_iteration (pi_env i) config wid (pi_notices i) (pi_message i) wk (pi_peers i s) =
      (effs, ctl, wk1, s1)" by (metis prod_cases4)
  define v where "v = (if served (pi_env i) wk then effects_verdict effs else Neutral)"
  have na: "ctl \<noteq> Abort" using 2(2) 2(5) p by auto
  note ib = iteration_breaker [OF p na, folded v_def 2(4)]
  let ?l = "\<lparr>lg_before = wk, lg_effects = effs, lg_control = ctl, lg_after = wk1\<rparr>"
  obtain rest where trail: "trail = ?l # rest" and rest: "rest = [] \<or> (ctl = Continue \<and> worker_run config wid is wk1 s1 = (rest, s'))"
    using 2(2) p na by (cases ctl) (auto split: prod.splits)
  have rv: "run_verdicts (i # is) trail = v # run_verdicts is rest"
    by (simp add: run_verdicts_def trail pass_verdict_def v_def)
  have nths: "trail ! 0 = ?l" "trail ! Suc j = rest ! j" for j using trail by simp_all
  have n1: "wk_failures wk1 = failures_in_a_row (vs @ [v]) mod max 1 t"
    using ib 2(3) breaker_next_mod(1) [OF 2(3)] by (cases v) (auto simp del: breaker_next.simps(2))
  show ?case
  proof (cases k)
    case 0
    have "v = Bad \<and> t \<le> Suc (wk_failures wk) \<longleftrightarrow> v = Bad \<and> max 1 t dvd failures_in_a_row (vs @ [v])"
      using breaker_next_mod(2) [OF 2(3)] by (cases v) auto
    then show ?thesis using ib n1 nths(1) by (simp add: 0 rv)
  next
    case (Suc j)
    then have j: "j < length rest" using 2(5) trail by simp
    then have "ctl = Continue" "worker_run config wid is wk1 s1 = (rest, s')" using rest by auto
    from 2(1) [OF p [symmetric] refl refl this n1 2(4) j] show ?thesis
      by (simp add: Suc rv nths)
  qed
qed simp

section \<open>Guarded requests and ceilings\<close>

lemma route_contexts: "''Dense embed error'' \<in> set route_contexts" "''Sparse embed error'' \<in> set route_contexts"
    "''Dual embed error'' \<in> set route_contexts"
  by (simp_all add: route_contexts_def)

lemma guard_chunks_dangerous:
  assumes "c \<in> set chunks" "gs \<le> chunk_seq lens c" "warmed < chunk_seq lens c"
  shows "\<exists>r. guard_chunks (Some (jit_guard_new gs warmed)) chunks lens = Inl r"
proof (cases "guard_chunk_list (jit_guard_new gs warmed) chunks lens")
  case (Inr u)
  then show ?thesis using assms by (auto simp: guard_chunk_list_Inr_iff admit_Inr_iff jit_guard_new_def)
qed (auto simp: guard_chunks_def)

lemma dispatch_embed_rejected:
  assumes "\<And>cm. cm = sh_cost_model s \<Longrightarrow> f cm = Inl (Err (Rejection r))" and "what \<in> set route_contexts"
    and "\<not> tx_closed tx"
  shows "dispatch_embed config failures mk what f texts tx W s =
    Some \<lparr>dp_outcome = Rejected, dp_skip = False,
          dp_effects = [Reply (tx_id tx) (mk (Inl (Context what (Rejection r))))], dp_warmed_local = W, dp_shared = s\<rparr>"
  using assms rejection_not_oom [of r] rejection_not_fatal(2) [OF assms(2), of r]
  by (simp add: dispatch_embed_def embed_with_trt_retry_def finalize_embed_route_def classify_inference_outcome_def Let_def)

lemma route_refused:
  assumes "tok texts = Inr encs"
    and "guard_chunks guard (bin_pack (seq_lens_of encs) cm) (seq_lens_of encs) = Inl r"
  shows "embed_route extract row init run tok tm texts cm guard = Inl (Err (Rejection r))"
  using assms by (simp add: embed_route_def tokenize_no_pad_def Let_def)

lemma prewarm_one_ceiling:
  assumes "prewarm_one env sh s = (stats, s')"
  shows "sh_ceiling s' = (if 0 < pw_warmed stats then max (sh_ceiling s) (snd sh) else sh_ceiling s)"
proof -
  obtain st w where t: "trt_prewarm (en_cache env) (en_warm env) [sh] (en_sm env) (sh_world s) = (st, w)"
    by (cases "trt_prewarm (en_cache env) (en_warm env) [sh] (en_sm env) (sh_world s)")
  have "(if pw_warmed st = 0 then pw_max_warmed_seq st = 0 else pw_max_warmed_seq st = snd sh) \<and>
      (pw_fully_cached st \<longrightarrow> 0 < pw_warmed st)"
    using prewarm_single [OF t] .
  then show ?thesis using assms t by (auto simp: prewarm_one_def split: if_splits)
qed

section \<open>A concrete worker\<close>

definition sample_env :: "unit worker_env" where
  "sample_env = \<lparr>en_session = sample_run, en_tokenizer = sample_tok, en_timing = sample_tm, en_projection = sample_pj,
     en_cache = (\<lambda>w. None), en_set_cache = (\<lambda>d w. w), en_warm = cold_session, en_smi = (\<lambda>d. Smi_Unavailable),
     en_sm = None, en_load = Inl ''no space left on device'', en_rss_before = Some 10, en_rss_after = Some 30\<rparr>"

definition sample_config :: worker_config where
  "sample_config = \<lparr>wc_idle_timeout = Some 60, wc_model_variant = Fp32, wc_max_seq_length = 8192, wc_intra_threads = 1,
     wc_ep = TensorRt, wc_trt_warmup_shapes = [], wc_device_id = 0, wc_gpu_count = 1, wc_trt_max_workspace_bytes = None,
     wc_gpu_mem_limit_bytes = None, wc_jit_suspect_tx = True, wc_engine_propagation_tx = True, wc_prewarm_strict = True,
     wc_circuit_breaker_threshold = 2, wc_trt_inband_jit_guard_enabled = True, wc_trt_inband_jit_guard_seq = 3,
     wc_trt_cache_gc_enabled = False\<rparr>"

definition sample_shared :: "unit shared" where
  "sample_shared = \<lparr>sh_live = 1, sh_loaded = 1, sh_ceiling = 0, sh_cost_model = conservative 0, sh_world = ()\<rparr>"

definition sample_worker :: "bool \<Rightarrow> worker" where
  "sample_worker loaded = \<lparr>wk_models = loaded, wk_warmed_local = {}, wk_failures = 1\<rparr>"

text \<open>A worker whose tokenizer fails: the second failing request in a row drops the models, the third reloads them.\<close>

definition failing_input :: "unit pass_input" where
  "failing_input = \<lparr>pi_env = sample_env\<lparr>en_tokenizer := \<lambda>ts. Inl ''bad'', en_load := Inr ()\<rparr>, pi_peers = id, pi_notices = [],
     pi_message = Request (Dense_Req [''a''] \<lparr>tx_id = 7, tx_closed = False\<rparr>)\<rparr>"

lemma plain_messages:
  "\<not> is_trt_engine_build_fatal (Context ''Dense embed error'' (Msg ''Tokenization failed: bad''))"
  "\<not> is_trt_shape_rejected (Context ''Dense embed error'' (Msg ''Tokenization failed: bad''))"
  "\<not> is_trt_jit_oom (Msg ''Tokenization failed: bad'')"
  by code_simp+

lemma failing_pass:
  assumes "n < 2"
  shows "worker_iteration (pi_env failing_input) sample_config 0 [] (pi_message failing_input)
      \<lparr>wk_models = m, wk_warmed_local = {}, wk_failures = n\<rparr> s =
    ([Reply 7 (Dense_Reply (Inl (Context ''Dense embed error'' (Msg ''Tokenization failed: bad''))))], Continue,
     \<lparr>wk_models = (n = 0), wk_warmed_local = {}, wk_failures = 1 - n\<rparr>,
     s\<lparr>sh_loaded := sh_loaded s + of_bool (\<not> m) - of_bool (n = 1)\<rparr>)"
  using assms plain_messages
  by (cases "n = 0"; cases m)
    (simp_all add: failing_input_def worker_iteration_def drain_peers_def sample_config_def serve_loaded_def
      dispatch_embed_def embed_dense_def embed_route_def tokenize_no_pad_def embed_with_trt_retry_def
      finalize_embed_route_def classify_inference_outcome_def should_unload_on_outcome_def Let_def sample_env_def)

section \<open>Properties\<close>

text \<open>
  Every request a worker takes is answered exactly once, on every path: success, error, guard
  refusal, failed model reload. The only requests left without an answer are embedding requests
  whose client had already gone before inference started.
\<close>

theorem worker_replies_once:
  assumes "worker_message env config wid (Request req) wk s = (effs, ctl, wk', s')" and "ctl \<noteq> Abort"
  shows "reply_ids effs = [tx_id (request_tx req)] \<or>
    (reply_ids effs = [] \<and> is_embedding req \<and> tx_closed (request_tx req))"
  using assms by (rule worker_message_replies)

theorem worker_replies_once_witness:
  "\<exists>effs wk' s'. worker_message sample_env sample_config 0 (Request (Dense_Req [''a''] \<lparr>tx_id = 7, tx_closed = True\<rparr>))
     (sample_worker False) sample_shared = (effs, Continue, wk', s') \<and> reply_ids effs = [7]"
proof -
  have eq: "worker_message sample_env sample_config 0 (Request (Dense_Req [''a''] \<lparr>tx_id = 7, tx_closed = True\<rparr>))
      (sample_worker False) sample_shared =
    ([Reply 7 (Dense_Reply (Inl (Msg ''Model reload failed: no space left on device'')))], Continue,
      sample_worker False, sample_shared)"
    by (simp add: sample_env_def sample_worker_def)
  from worker_replies_once [OF eq] show ?thesis using eq by simp
qed

text \<open>
  C21: the circuit breaker of the request loop is exact. In every run of the loop that starts with a
  clean counter, whatever the peers, the session, the tokenizer and the loader do between and during
  the passes, the counter after each pass is the number of failed embeddings since the last success,
  modulo the threshold, and a pass that serves a request leaves the models in memory unless that
  request itself failed and brought the number of failures in a row to a multiple of the threshold.
  Shape refusals, clients that have gone, failed reloads and idle timeouts leave the row alone; replies
  to the internal probe and warm-up end it, also when they report an error.
\<close>

theorem breaker_exact:
  assumes "worker_run config wid is wk s = (trail, s')" and "wk_failures wk = 0" and "k < length trail"
  defines "t \<equiv> max 1 (wc_circuit_breaker_threshold config)"
    and "row \<equiv> failures_in_a_row (take (Suc k) (run_verdicts is trail))"
  shows "wk_failures (lg_after (trail ! k)) = row mod t \<and>
    (\<forall>req. pi_message (is ! k) = Request req \<and> lg_control (trail ! k) = Continue \<longrightarrow>
       (wk_models (lg_after (trail ! k)) \<longleftrightarrow> served (pi_env (is ! k)) (lg_before (trail ! k)) \<and>
          \<not> (run_verdicts is trail ! k = Bad \<and> t dvd row)))"
  using worker_run_breaker [OF assms(1) _ refl assms(3), of "[]"] assms(2) by (simp add: t_def row_def)

theorem breaker_exact_witness:
  "\<exists>trail s'. worker_run sample_config 0 (replicate 3 failing_input) (sample_worker True\<lparr>wk_failures := 0\<rparr>) sample_shared =
     (trail, s') \<and> length trail = 3 \<and>
   map (wk_models \<circ> lg_after) trail = [True, False, True] \<and> map (wk_failures \<circ> lg_after) trail = [1, 0, 1]"
proof -
  obtain trail s' where run: "worker_run sample_config 0 (replicate 3 failing_input) (sample_worker True\<lparr>wk_failures := 0\<rparr>)
      sample_shared = (trail, s')" by fastforce
  have io: "pi_notices failing_input = []" "pi_peers failing_input s = s" for s
    by (simp_all add: failing_input_def)
  have trail: "map lg_effects trail = replicate 3 [Reply 7 (Dense_Reply (Inl (Context ''Dense embed error''
        (Msg ''Tokenization failed: bad''))))]" "map lg_control trail = replicate 3 Continue"
    using run by (auto simp: numeral_3_eq_3 sample_worker_def io failing_pass)
  then have len: "length trail = 3" by (metis length_map length_replicate)
  have served: "served (pi_env failing_input) wk" for wk by (simp add: served_def failing_input_def)
  have vs: "run_verdicts (replicate 3 failing_input) trail = [Bad, Bad, Bad]"
    using trail len plain_messages by (auto simp: run_verdicts_def numeral_3_eq_3 length_Suc_conv pass_verdict_def served)
  have "wk_failures (lg_after (trail ! k)) = Suc k mod 2 \<and> wk_models (lg_after (trail ! k)) = (\<not> even (Suc k))" if "k < 3" for k
  proof -
    have "failures_in_a_row (take (Suc k) [Bad, Bad, Bad]) = Suc k \<and> [Bad, Bad, Bad] ! k = Bad \<and>
        pi_message (replicate 3 failing_input ! k) = pi_message failing_input \<and> lg_control (trail ! k) = Continue"
      using that trail(2) by (auto simp: failures_in_a_row_def numeral_3_eq_3 less_Suc_eq map_eq_Cons_conv)
    then show ?thesis
      using breaker_exact [OF run, of k] that len vs served
      by (simp add: sample_config_def sample_worker_def failing_input_def flip: numeral_2_eq_2)
  qed
  from this [of 0] this [of 1] this [of 2] show ?thesis
    using run len by (auto simp: numeral_3_eq_3 length_Suc_conv)
qed

text \<open>
  A peer's engine notification is acted on exactly once. Draining the channel warms each distinct
  announced shape the worker has not warmed (or announced) itself, in order of arrival, and
  remembers them all; repeated and lagged notices cost nothing.
\<close>

theorem drain_once:
  assumes "drain_engine_propagation (\<lambda>sh trace. trace @ [sh]) ns (W, []) = (W', trace)"
  shows "W' = W \<union> {sh. Notice sh \<in> set ns} \<and> distinct trace \<and> set trace = {sh. Notice sh \<in> set ns} - W"
proof -
  have "W' = W \<union> {sh. Notice sh \<in> set ns} \<and>
      (distinct tr \<and> set tr \<subseteq> W \<longrightarrow> distinct trace \<and> set trace = set tr \<union> ({sh. Notice sh \<in> set ns} - W))"
    if "drain_engine_propagation (\<lambda>sh trace. trace @ [sh]) ns (W, tr) = (W', trace)" for W tr
    using that
  proof (induction ns arbitrary: W tr)
    case (Cons n ns)
    show ?case
    proof (cases n)
      case (Notice sh)
      show ?thesis
      proof (cases "sh \<in> W")
        case True
        then show ?thesis using Cons.IH [of W tr] Cons.prems Notice by auto
      next
        case False
        then show ?thesis using Cons.IH [of "insert sh W" "tr @ [sh]"] Cons.prems Notice by auto
      qed
    next
      case (Lagged k)
      then show ?thesis using Cons.IH [of W tr] Cons.prems by auto
    qed
  qed auto
  from this [OF assms] show ?thesis by auto
qed

theorem drain_once_witness:
  "distinct [(2, 512), (1, 128 :: nat)] \<and> set [(2 :: nat, 512), (1, 128)] = {(2, 512), (1, 128), (8, 64)} - {(8, 64 :: nat)}"
proof -
  have eq: "drain_engine_propagation (\<lambda>sh trace. trace @ [sh])
      [Notice (2, 512), Notice (8, 64), Lagged 3, Notice (1, 128), Notice (2, 512)] ({(8, 64)}, []) =
      ({(1, 128), (2, 512), (8, 64)}, [(2, 512), (1, 128)])"
    by auto
  from drain_once [OF eq] show ?thesis by auto
qed

text \<open>
  C22: a dangerous request is refused and nothing else happens. If some chunk of the batch reaches the
  guard length and lies above the warmed ceiling, the client gets an error that becomes HTTP 503,
  the session is not run, and the worker and the shared state are untouched: models stay loaded and
  the failure counter does not move. All three routes agree.
\<close>

theorem worker_guard_refusal:
  assumes "wc_ep config = TensorRt" "wc_trt_inband_jit_guard_enabled config"
    and "en_tokenizer env texts = Inr encs"
    and "c \<in> set (bin_pack (seq_lens_of encs) (sh_cost_model s))"
      "wc_trt_inband_jit_guard_seq config \<le> chunk_seq (seq_lens_of encs) c" "sh_ceiling s < chunk_seq (seq_lens_of encs) c"
    and "\<not> tx_closed tx"
  shows "\<exists>r. http_status (into_response (app_error_from (Context what (Rejection r)))) = 503 \<and>
    serve_loaded env config wid (Dense_Req texts tx) wk s =
      ([Reply (tx_id tx) (Dense_Reply (Inl (Context ''Dense embed error'' (Rejection r))))], Continue, wk, s) \<and>
    serve_loaded env config wid (Sparse_Req texts tx) wk s =
      ([Reply (tx_id tx) (Sparse_Reply (Inl (Context ''Sparse embed error'' (Rejection r))))], Continue, wk, s) \<and>
    serve_loaded env config wid (Both_Req texts tx) wk s =
      ([Reply (tx_id tx) (Both_Reply (Inl (Context ''Dual embed error'' (Rejection r))))], Continue, wk, s)"
proof -
  obtain r where r: "guard_chunks (build_shape_guard config (sh_ceiling s)) (bin_pack (seq_lens_of encs) (sh_cost_model s))
      (seq_lens_of encs) = Inl r"
    using guard_chunks_dangerous [OF assms(4-6)] assms(1,2) by (auto simp: build_shape_guard_def)
  note ref = route_refused [where tok = "en_tokenizer env" and texts = texts, OF assms(3) r]
  show ?thesis
    by (rule exI [of _ r])
      (simp add: serve_loaded_def dispatch_embed_rejected [OF _ route_contexts(1) assms(7)]
        dispatch_embed_rejected [OF _ route_contexts(2) assms(7)] dispatch_embed_rejected [OF _ route_contexts(3) assms(7)]
        embed_dense_def embed_sparse_def embed_both_def ref app_error_from_def should_unload_on_outcome_def)
qed

theorem worker_guard_refusal_witness:
  "\<exists>r. serve_loaded sample_env sample_config 0 (Dense_Req [''a''] \<lparr>tx_id = 7, tx_closed = False\<rparr>) (sample_worker True)
     sample_shared = ([Reply 7 (Dense_Reply (Inl (Context ''Dense embed error'' (Rejection r))))], Continue,
       sample_worker True, sample_shared)"
proof -
  have "en_tokenizer sample_env [''a''] = Inr (sample_encs [''a''])"
    by (simp add: sample_env_def sample_encs_def sample_tok_def)
  moreover have "[0] \<in> set (bin_pack (seq_lens_of (sample_encs [''a''])) (sh_cost_model sample_shared))"
    "chunk_seq (seq_lens_of (sample_encs [''a''])) [0] = 3"
    by (simp_all add: sample_encs_def sample_tok_def bin_pack_def pack_order_def sorted_indices_def)
  ultimately show ?thesis
    using worker_guard_refusal [where env = sample_env and config = sample_config and texts = "[''a'']"
        and s = sample_shared and tx = "\<lparr>tx_id = 7, tx_closed = False\<rparr>" and wid = 0 and wk = "sample_worker True" and c = "[0]"]
    by (fastforce simp: sample_config_def sample_shared_def)
qed

text \<open>
  The ceiling the guard trusts is only raised by a successful warm-up. Warming a shape on behalf of a
  peer or of the adaptive task leaves the ceiling alone when the run failed and otherwise raises
  it to at most that shape's sequence length.
\<close>

theorem ceiling_raised_by_success:
  "prewarm_one env sh s = (stats, s') \<Longrightarrow>
   sh_ceiling s' = (if 0 < pw_warmed stats then max (sh_ceiling s) (snd sh) else sh_ceiling s)"
  by (rule prewarm_one_ceiling)

theorem ceiling_raised_by_success_witness:
  "\<exists>stats s'. prewarm_one sample_env (1, 8192) sample_shared = (stats, s') \<and> sh_ceiling s' \<le> 8192"
proof -
  obtain stats s' where eq: "prewarm_one sample_env (1, 8192) sample_shared = (stats, s')"
    by (cases "prewarm_one sample_env (1, 8192) sample_shared")
  from ceiling_raised_by_success [OF eq] show ?thesis using eq by (auto simp: sample_shared_def)
qed

text \<open>
  A failing internal probe counts as a success for the circuit breaker: whatever the number of
  failures in a row before it, the counter is 0 after it, although the session just failed.
\<close>

theorem failed_probe_resets_breaker:
  assumes "run_probe_batch env texts = Inl (Err e)"
  shows "serve_loaded env config wid (Probe_Req texts tx) wk s =
    ([Reply (tx_id tx) (Probe_Reply (Inl e))], Continue, wk\<lparr>wk_failures := 0\<rparr>, s)"
  using assms by (simp add: serve_loaded_def should_unload_on_outcome_def)

theorem failed_probe_resets_breaker_witness:
  "wk_failures (sample_worker True) = 1 \<and>
   (\<exists>effs wk' s'. serve_loaded (sample_env\<lparr>en_tokenizer := \<lambda>ts. Inl ''bad''\<rparr>) sample_config 0
      (Probe_Req [''x''] \<lparr>tx_id = 1, tx_closed = False\<rparr>) (sample_worker True) sample_shared = (effs, Continue, wk', s') \<and>
      wk_failures wk' = 0)"
proof -
  have "run_probe_batch (sample_env\<lparr>en_tokenizer := \<lambda>ts. Inl ''bad''\<rparr>) [''x''] =
      Inl (Err (Msg (''Tokenization failed: '' @ ''bad'')))"
    by (simp add: run_probe_batch_def tokenize_no_pad_def)
  from failed_probe_resets_breaker [OF this] show ?thesis by (simp add: sample_worker_def)
qed

end
