(* ===== verification/Sysinfo.thy ===== *)
theory Sysinfo
  imports Prelude
begin

text \<open>
  Memory and GPU detection: \<open>src/sysinfo.rs\<close>. The files that are read are an argument (the content of a
  readable file by its path), as are the platform, the environment, the output of \<open>sysctl\<close> and the driver directory. A path is written with
  single slashes; the kernel resolves a doubled slash or a dot component to the same file.

  The walk up the cgroup hierarchy is specified by the deepest ancestor that sets a usable limit, and
  the detection chain by the first source that answers.
\<close>

section \<open>Types\<close>

datatype memory_source = Override | CgroupV2 | CgroupV1 | HostRam

fun show_memory_source :: "memory_source \<Rightarrow> string" where
  "show_memory_source Override = ''override''"
| "show_memory_source CgroupV2 = ''cgroup_v2''"
| "show_memory_source CgroupV1 = ''cgroup_v1''"
| "show_memory_source HostRam = ''host_ram''"

record memory_reading =
  available_bytes :: nat
  mem_source :: memory_source

type_synonym file_system = "string \<Rightarrow> string option"

type_synonym environment = "string \<Rightarrow> string option"

section \<open>Reading limits\<close>

definition ONE_TIB :: nat where "ONE_TIB = 1024 * 1024 * 1024 * 1024"

definition env_override :: "environment \<Rightarrow> nat option" where
  "env_override env = Option.bind (env ''BGE_M3_AVAILABLE_MEMORY_BYTES'') parse_usize"

text \<open>The components of a path below the mount point; \<open>Path\<close> drops empty and dot components.\<close>

definition path_components :: "string \<Rightarrow> string list" where
  "path_components s = filter (\<lambda>c. c \<noteq> [] \<and> c \<noteq> ''.'') (split_on (CHR ''/'') s)"

definition memory_max_path :: "string \<Rightarrow> string list \<Rightarrow> string" where
  "memory_max_path mnt comps = mnt @ concat (map (\<lambda>c. ''/'' @ c) comps) @ ''/memory.max''"

definition memory_max_limit :: "file_system \<Rightarrow> string \<Rightarrow> nat option" where
  "memory_max_limit fs path =
     (case fs path of
        None \<Rightarrow> None
      | Some raw \<Rightarrow>
          if trim raw \<noteq> ''max''
          then case parse_usize (trim raw) of
                 Some bytes \<Rightarrow> if bytes < ONE_TIB then Some bytes else None
               | None \<Rightarrow> None
          else None)"

text \<open>The loop, on the reversed components: \<open>current.parent()\<close> drops the last, the mount point ends it.\<close>

fun walk_up :: "file_system \<Rightarrow> string \<Rightarrow> string list \<Rightarrow> nat option" where
  "walk_up fs mnt rcomps =
     (case memory_max_limit fs (memory_max_path mnt (rev rcomps)) of
        Some bytes \<Rightarrow> Some bytes
      | None \<Rightarrow> (case rcomps of [] \<Rightarrow> None | _ # parent \<Rightarrow> walk_up fs mnt parent))"

declare walk_up.simps [simp del]

definition unified_path :: "string \<Rightarrow> string option" where
  "unified_path content =
     map_option (drop 3) (find (\<lambda>line. str_starts_with line ''0::'') (str_lines content))"

definition cgroup_v2_walk :: "file_system \<Rightarrow> string \<Rightarrow> string \<Rightarrow> memory_reading option" where
  "cgroup_v2_walk fs cgroup_fs_root proc_self_cgroup =
     Option.bind (fs proc_self_cgroup) (\<lambda>content.
     Option.bind (unified_path content) (\<lambda>rel.
       map_option (\<lambda>bytes. \<lparr>available_bytes = bytes, mem_source = CgroupV2\<rparr>)
         (walk_up fs cgroup_fs_root (rev (path_components rel)))))"

definition cgroup_v1_limit :: "file_system \<Rightarrow> memory_reading option" where
  "cgroup_v1_limit fs =
     (case Option.bind (fs ''/sys/fs/cgroup/memory/memory.limit_in_bytes'') (\<lambda>raw. parse_usize (trim raw)) of
        Some bytes \<Rightarrow>
          if bytes < ONE_TIB then Some \<lparr>available_bytes = bytes, mem_source = CgroupV1\<rparr> else None
      | None \<Rightarrow> None)"

definition cgroup_memory :: "file_system \<Rightarrow> memory_reading option" where
  "cgroup_memory fs =
     (case cgroup_v2_walk fs ''/sys/fs/cgroup'' ''/proc/self/cgroup'' of
        Some r \<Rightarrow> Some r
      | None \<Rightarrow> cgroup_v1_limit fs)"

definition second_field :: "string \<Rightarrow> nat option" where
  "second_field s = (case split_ws s of _ # f # _ \<Rightarrow> parse_usize f | _ \<Rightarrow> None)"

text \<open>The multiplications wrap, as in a release build.\<close>

definition linux_meminfo_available :: "file_system \<Rightarrow> nat option" where
  "linux_meminfo_available fs =
     Option.bind (fs ''/proc/meminfo'') (\<lambda>content.
     Option.bind (find (\<lambda>line. str_starts_with line ''MemAvailable:'') (str_lines content)) (\<lambda>line.
       map_option (\<lambda>kb. kb * 1024 mod 2 ^ 64) (second_field line)))"

definition page_size_bytes :: nat where "page_size_bytes = 4096"

definition linux_rss :: "file_system \<Rightarrow> nat option" where
  "linux_rss fs =
     Option.bind (fs ''/proc/self/statm'') (\<lambda>raw.
       map_option (\<lambda>rss_pages. rss_pages * page_size_bytes mod 2 ^ 64) (second_field raw))"

section \<open>The detection chain\<close>

text \<open>A build is for one platform; \<open>sysctl\<close> is what \<open>sysctl -n hw.memsize\<close> printed, \<open>None\<close> when it could not be run.\<close>

datatype target_os = Linux_Os | MacOs | Other_Os

definition macos_host_ram :: "string option \<Rightarrow> nat option" where
  "macos_host_ram sysctl = Option.bind sysctl (\<lambda>out. parse_usize (trim out))"

definition host_ram :: "target_os \<Rightarrow> file_system \<Rightarrow> string option \<Rightarrow> nat option" where
  "host_ram os fs sysctl =
     (case os of Linux_Os \<Rightarrow> linux_meminfo_available fs | MacOs \<Rightarrow> macos_host_ram sysctl | Other_Os \<Rightarrow> None)"

definition read_process_rss_bytes :: "target_os \<Rightarrow> file_system \<Rightarrow> nat option" where
  "read_process_rss_bytes os fs = (if os = Linux_Os then linux_rss fs else None)"

definition detect_available_memory :: "target_os \<Rightarrow> environment \<Rightarrow> file_system \<Rightarrow> string option \<Rightarrow> memory_reading" where
  "detect_available_memory os env fs sysctl =
     (case env_override env of
        Some bytes \<Rightarrow> \<lparr>available_bytes = bytes, mem_source = Override\<rparr>
      | None \<Rightarrow>
          (case (if os = Linux_Os then cgroup_memory fs else None) of
             Some r \<Rightarrow> r
           | None \<Rightarrow>
               (case host_ram os fs sysctl of
                  Some bytes \<Rightarrow> \<lparr>available_bytes = bytes, mem_source = HostRam\<rparr>
                | None \<Rightarrow> \<lparr>available_bytes = 4 * 1024 * 1024 * 1024, mem_source = HostRam\<rparr>)))"

text \<open>The driver directory is the number of its readable entries, \<open>None\<close> when it cannot be opened.\<close>

definition count_nvidia_gpus_from_proc :: "nat option \<Rightarrow> nat option" where
  "count_nvidia_gpus_from_proc driver_dir =
     (case driver_dir of None \<Rightarrow> None | Some n \<Rightarrow> if 0 < n then Some n else None)"

definition detect_gpu_count :: "nat option \<Rightarrow> nat option \<Rightarrow> nat" where
  "detect_gpu_count driver_dir override_val =
     (case override_val of
        Some n \<Rightarrow> max n 1
      | None \<Rightarrow> (case count_nvidia_gpus_from_proc driver_dir of Some n \<Rightarrow> n | None \<Rightarrow> 1))"

section \<open>Facts\<close>

abbreviation limit_at :: "file_system \<Rightarrow> string \<Rightarrow> string list \<Rightarrow> nat \<Rightarrow> nat option" where
  "limit_at fs mnt comps k \<equiv> memory_max_limit fs (memory_max_path mnt (take k comps))"

lemma memory_max_limit_bound: "memory_max_limit fs p = Some b \<Longrightarrow> b < ONE_TIB"
  by (auto simp: memory_max_limit_def split: option.splits if_splits)

lemma last_Some_Suc:
  "(\<exists>k\<le>Suc n. f k = Some b \<and> (\<forall>j\<in>{k<..Suc n}. f j = None)) \<longleftrightarrow>
     (case f (Suc n) of Some b' \<Rightarrow> b' = b | None \<Rightarrow> \<exists>k\<le>n. f k = Some b \<and> (\<forall>j\<in>{k<..n}. f j = None))"
proof -
  have ins: "{k<..Suc n} = insert (Suc n) {k<..n}" if "k \<le> n" for k using that by auto
  have "(\<exists>k\<le>Suc n. f k = Some b \<and> (\<forall>j\<in>{k<..Suc n}. f j = None)) \<longleftrightarrow>
      f (Suc n) = Some b \<or> (\<exists>k\<le>n. f k = Some b \<and> (\<forall>j\<in>{k<..Suc n}. f j = None))"
    by (auto simp: le_Suc_eq ex_disj_distrib conj_disj_distribR)
  also have "(\<exists>k\<le>n. f k = Some b \<and> (\<forall>j\<in>{k<..Suc n}. f j = None)) \<longleftrightarrow>
      (\<exists>k\<le>n. f k = Some b \<and> f (Suc n) = None \<and> (\<forall>j\<in>{k<..n}. f j = None))"
    by (intro ex_cong1 conj_cong refl) (simp add: ins)
  finally show ?thesis by (auto split: option.split)
qed

text \<open>The walk returns the limit of the deepest ancestor that has one.\<close>

lemma walk_up_Some_iff:
  "walk_up fs mnt (rev comps) = Some b \<longleftrightarrow>
     (\<exists>k\<le>length comps. limit_at fs mnt comps k = Some b \<and>
        (\<forall>j\<in>{k<..length comps}. limit_at fs mnt comps j = None))"
proof (induction comps rule: rev_induct)
  case Nil
  show ?case by (auto simp: walk_up.simps split: option.splits)
next
  case (snoc c comps)
  let ?L = "limit_at fs mnt (comps @ [c])" and ?n = "length comps"
  have same: "(\<exists>k\<le>?n. ?L k = Some b \<and> (\<forall>j\<in>{k<..?n}. ?L j = None)) \<longleftrightarrow>
      (\<exists>k\<le>?n. limit_at fs mnt comps k = Some b \<and> (\<forall>j\<in>{k<..?n}. limit_at fs mnt comps j = None))"
    by (intro ex_cong1 conj_cong ball_cong) auto
  have "walk_up fs mnt (rev (comps @ [c])) =
      (case ?L (Suc ?n) of Some b' \<Rightarrow> Some b' | None \<Rightarrow> walk_up fs mnt (rev comps))"
    by (simp add: walk_up.simps [of _ _ "c # _"] split: option.split)
  then show ?case
    using snoc.IH last_Some_Suc [of ?n ?L b] same by (simp split: option.split)
qed

lemma walk_up_bound: "walk_up fs mnt (rev comps) = Some b \<Longrightarrow> b < ONE_TIB"
  unfolding walk_up_Some_iff by (auto dest: memory_max_limit_bound)

lemma cgroup_memory_bound: "cgroup_memory fs = Some r \<Longrightarrow> available_bytes r < ONE_TIB \<and> mem_source r \<in> {CgroupV1, CgroupV2}"
  by (auto simp: cgroup_memory_def cgroup_v2_walk_def cgroup_v1_limit_def bind_eq_Some_conv
      split: option.splits if_splits dest!: walk_up_bound)

section \<open>Properties\<close>

text \<open>A host as an example: a task two levels below the mount point, limited at the middle level.\<close>

definition sample_fs :: file_system where
  "sample_fs path =
     (if path = ''/proc/self/cgroup'' then Some (''0::/ecs.slice/task'' @ [CHR 0x0A])
      else if path = ''/sys/fs/cgroup/ecs.slice/task/memory.max'' then Some (''max'' @ [CHR 0x0A])
      else if path = ''/sys/fs/cgroup/ecs.slice/memory.max'' then Some (''8589934592'' @ [CHR 0x0A])
      else if path = ''/sys/fs/cgroup/memory.max'' then Some (''max'' @ [CHR 0x0A])
      else None)"

text \<open>
  C40: the cgroup walk returns the limit of the deepest ancestor of the container's cgroup, itself
  included, whose \<open>memory.max\<close> holds a number below 1 TiB, and nothing when there is no such ancestor.
\<close>

theorem cgroup_v2_walk_deepest:
  assumes "fs proc = Some content" and "unified_path content = Some rel"
  shows "cgroup_v2_walk fs mnt proc = Some r \<longleftrightarrow>
    mem_source r = CgroupV2 \<and>
    (\<exists>k\<le>length (path_components rel).
       memory_max_limit fs (memory_max_path mnt (take k (path_components rel))) = Some (available_bytes r) \<and>
       (\<forall>j\<in>{k<..length (path_components rel)}.
          memory_max_limit fs (memory_max_path mnt (take j (path_components rel))) = None))"
  by (cases r) (auto simp: cgroup_v2_walk_def assms simp flip: walk_up_Some_iff)

theorem cgroup_v2_walk_deepest_witness:
  "cgroup_v2_walk sample_fs ''/sys/fs/cgroup'' ''/proc/self/cgroup'' =
     Some \<lparr>available_bytes = 8589934592, mem_source = CgroupV2\<rparr>"
proof -
  have "sample_fs ''/proc/self/cgroup'' = Some (''0::/ecs.slice/task'' @ [CHR 0x0A])"
      "unified_path (''0::/ecs.slice/task'' @ [CHR 0x0A]) = Some ''/ecs.slice/task''"
    by code_simp+
  note deepest = cgroup_v2_walk_deepest [where fs = sample_fs and proc = "''/proc/self/cgroup''" and mnt = "''/sys/fs/cgroup''", OF this]
  have comps: "path_components ''/ecs.slice/task'' = [''ecs.slice'', ''task'']" by code_simp
  have "memory_max_limit sample_fs (memory_max_path ''/sys/fs/cgroup'' [''ecs.slice'']) = Some 8589934592"
    "memory_max_limit sample_fs (memory_max_path ''/sys/fs/cgroup'' [''ecs.slice'', ''task'']) = None"
    by (simp_all add: memory_max_limit_def memory_max_path_def sample_fs_def trim_def is_ws_def
        parse_unsigned_def digit_val_def usize_max_def ONE_TIB_def)
  then show ?thesis
    unfolding deepest comps by (intro conjI exI [of _ 1]) (auto simp: numeral_2_eq_2 le_Suc_eq)
qed

lemma host_ram_bound: "host_ram os fs sysctl = Some n \<Longrightarrow> n \<le> usize_max"
  by (cases os)
    (auto simp: host_ram_def linux_meminfo_available_def macos_host_ram_def usize_max_def dest: parse_unsigned_bound
      split: bind_splits)

text \<open>
  Memory detection takes the first source that answers: a parsable override verbatim, then on Linux a
  cgroup limit (always below 1 TiB), then the platform's memory, then 4 GiB; the reported source says
  which one it was, and the value is always one that fits \<open>usize\<close>.
\<close>

theorem detect_available_memory_chain:
  "(mem_source (detect_available_memory os env fs sysctl) = Override \<longleftrightarrow> env_override env \<noteq> None) \<and>
   (mem_source (detect_available_memory os env fs sysctl) \<in> {CgroupV1, CgroupV2} \<longleftrightarrow>
      env_override env = None \<and> os = Linux_Os \<and> cgroup_memory fs \<noteq> None) \<and>
   available_bytes (detect_available_memory os env fs sysctl) =
     (case env_override env of Some b \<Rightarrow> b
      | None \<Rightarrow> (case (if os = Linux_Os then cgroup_memory fs else None) of Some r \<Rightarrow> min (available_bytes r) (ONE_TIB - 1)
      | None \<Rightarrow> (case host_ram os fs sysctl of Some b \<Rightarrow> b | None \<Rightarrow> 4294967296))) \<and>
   available_bytes (detect_available_memory os env fs sysctl) \<le> usize_max"
proof -
  have "n \<le> usize_max" if "env_override env = Some n" for n
    using that by (auto simp: env_override_def dest: parse_unsigned_bound split: bind_splits)
  moreover have "ONE_TIB \<le> usize_max" by (simp add: ONE_TIB_def usize_max_def)
  ultimately show ?thesis
    by (auto simp: detect_available_memory_def usize_max_def split: option.split if_splits
        dest!: cgroup_memory_bound dest: host_ram_bound)
qed

end
