(* ===== verification/Config.thy ===== *)
theory Config
  imports Worker Sysinfo
begin

text \<open>
  The configuration of \<open>src/config.rs\<close>: every setting is read through a lookup function, so the
  environment is an argument. Numbers are parsed as \<open>str::parse\<close> does, the warm-up grid and the
  explicit cost model have parsers of their own. A log line has no effect on the result and is left out; the
  condition of the coverage warning is kept as a predicate.
\<close>

section \<open>Floating-point literals\<close>

text \<open>\<open>str::parse::<f64>\<close>: a sign, then a special word or decimal digits with a point and an exponent.\<close>

definition take_digits :: "string \<Rightarrow> string \<times> string" where
  "take_digits s = (takeWhile (\<lambda>c. digit_val c \<noteq> None) s, dropWhile (\<lambda>c. digit_val c \<noteq> None) s)"

definition digits_val :: "string \<Rightarrow> nat" where
  "digits_val ds = (case parse_digits 0 ds of Some n \<Rightarrow> n | None \<Rightarrow> 0)"

definition parse_exponent :: "string \<Rightarrow> int option" where
  "parse_exponent s =
     (case s of
        [] \<Rightarrow> Some 0
      | c # t \<Rightarrow>
          if lower_char c = CHR ''e''
          then let neg = (t \<noteq> [] \<and> hd t = CHR ''-'');
                   ds = (if t \<noteq> [] \<and> (hd t = CHR ''-'' \<or> hd t = CHR ''+'') then tl t else t)
               in if ds \<noteq> [] \<and> list_all (\<lambda>d. digit_val d \<noteq> None) ds
                  then Some (if neg then - int (digits_val ds) else int (digits_val ds))
                  else None
          else None)"

definition pow10 :: "int \<Rightarrow> rat" where
  "pow10 e = (if 0 \<le> e then 10 ^ nat e else 1 / 10 ^ nat (- e))"

definition parse_decimal :: "string \<Rightarrow> rat option" where
  "parse_decimal s =
     (let (ip, r1) = take_digits s;
          (fp, r2) = (case r1 of c # t \<Rightarrow> if c = CHR ''.'' then take_digits t else ([], r1) | [] \<Rightarrow> ([], r1))
      in if ip = [] \<and> fp = [] then None
         else map_option (\<lambda>e. of_nat (digits_val (ip @ fp)) * pow10 (e - int (length fp))) (parse_exponent r2))"

definition parse_f64 :: "string \<Rightarrow> fl option" where
  "parse_f64 s =
     (let neg = (s \<noteq> [] \<and> hd s = CHR ''-'');
          body = (if s \<noteq> [] \<and> (hd s = CHR ''-'' \<or> hd s = CHR ''+'') then tl s else s);
          low = to_lowercase body
      in if low = ''nan'' then Some NaN
         else if low = ''inf'' \<or> low = ''infinity'' then Some (Inf neg)
         else map_option (\<lambda>q. r64 (if neg then - q else q)) (parse_decimal body))"

section \<open>The settings\<close>

definition show_model_variant :: "model_variant \<Rightarrow> string" where
  "show_model_variant v = (case v of Fp32 \<Rightarrow> ''fp32'' | Fp16 \<Rightarrow> ''fp16'' | Int8 \<Rightarrow> ''int8'')"

definition show_ep :: "ep_selection \<Rightarrow> string" where
  "show_ep e = (case e of Cpu \<Rightarrow> ''cpu'' | Cuda \<Rightarrow> ''cuda'' | TensorRt \<Rightarrow> ''tensorrt'')"

definition DEFAULT_GPU_VRAM_BUDGET_BYTES :: nat where
  "DEFAULT_GPU_VRAM_BUDGET_BYTES = 10 * 1024 * 1024 * 1024"

definition MODEL_MAX_SEQ :: nat where "MODEL_MAX_SEQ = 8192"

record config =
  cf_cache_dir :: string
  cf_bind_addr :: string
  cf_tls_cert_path :: "string option"
  cf_tls_key_path :: "string option"
  cf_workers :: nat
  cf_intra_threads :: nat
  cf_max_batch :: nat
  cf_max_seq_length :: nat
  cf_idle_timeout :: "nat option"
  cf_model_variant :: model_variant
  cf_memory_safety_factor :: fl
  cf_cost_model_override :: "cost_model option"
  cf_heartbeat_secs :: nat
  cf_ep :: ep_selection
  cf_gpu_count :: nat
  cf_gpu_vram_budget_bytes :: "nat option"
  cf_trt_max_workspace_bytes :: "nat option"
  cf_gpu_mem_limit_bytes :: "nat option"
  cf_adaptive_warmup_enabled :: bool
  cf_engine_propagation_enabled :: bool
  cf_adaptive_warmup_quiet_secs :: nat
  cf_adaptive_warmup_max_shapes_per_hour :: nat
  cf_trt_warmup_shapes :: "shape list"
  cf_warmup_only :: bool
  cf_prewarm_strict :: bool
  cf_max_body_bytes :: nat
  cf_circuit_breaker_threshold :: nat
  cf_trt_inband_jit_guard_enabled :: bool
  cf_trt_inband_jit_guard_seq :: nat
  cf_trt_cache_gc_enabled :: bool

type_synonym lookup = "string \<Rightarrow> string option"

definition DEFAULT_TRT_WARMUP_SHAPES :: "shape list" where
  "DEFAULT_TRT_WARMUP_SHAPES =
     [(1, 128), (1, 512), (1, 2048), (1, 8192), (2, 128), (2, 512), (2, 2048), (2, 8192),
      (4, 128), (4, 512), (4, 2048), (4, 8192), (8, 128), (8, 512), (8, 2048), (8, 8192),
      (16, 128), (16, 512), (16, 2048), (16, 8192), (32, 128), (32, 512), (32, 2048), (32, 8192)]"

definition parse_shape_token :: "string \<Rightarrow> shape option" where
  "parse_shape_token token =
     (case split_once (CHR ''x'') (trim token) of
        None \<Rightarrow> None
      | Some (b, s) \<Rightarrow>
          Option.bind (parse_usize b) (\<lambda>batch. map_option (\<lambda>seq. (batch, seq)) (parse_usize s)))"

definition parse_trt_warmup_shapes :: "string option \<Rightarrow> shape list" where
  "parse_trt_warmup_shapes raw =
     (case raw of
        None \<Rightarrow> DEFAULT_TRT_WARMUP_SHAPES
      | Some val \<Rightarrow>
          if trim val = [] then DEFAULT_TRT_WARMUP_SHAPES
          else let parsed = List.map_filter parse_shape_token (split_on (CHR '','') val)
               in if parsed = [] then DEFAULT_TRT_WARMUP_SHAPES else parsed)"

text \<open>The condition under which \<open>warn_if_small_batch_coverage_missing\<close> warns.\<close>

definition small_batch_coverage_missing :: "shape list \<Rightarrow> bool" where
  "small_batch_coverage_missing shapes \<longleftrightarrow>
     \<not> list_ex (\<lambda>(b, _). b = 1) shapes \<or> \<not> list_ex (\<lambda>(b, _). b = 2) shapes"

definition truthy :: "string option \<Rightarrow> bool" where
  "truthy v \<longleftrightarrow> v = Some ''1'' \<or> v = Some ''true'' \<or> v = Some ''yes''"

definition explicit_off :: "string option \<Rightarrow> bool" where
  "explicit_off v \<longleftrightarrow> v = Some ''0'' \<or> v = Some ''false'' \<or> v = Some ''no''"

definition setting :: "lookup \<Rightarrow> nat \<Rightarrow> string \<Rightarrow> nat \<Rightarrow> nat" where
  "setting lookup bound key default_val =
     (case Option.bind (lookup key) (parse_unsigned bound) of Some n \<Rightarrow> n | None \<Rightarrow> default_val)"

definition legacy_token_budget :: "nat \<Rightarrow> nat \<Rightarrow> cost_model" where
  "legacy_token_budget token_budget max_seq_length =
     (let cost_per_position = fl_add r64 CONSERVATIVE_A (fl_mul r64 CONSERVATIVE_B (nat_to_f64 max_seq_length))
      in conservative (fl_to_unsigned usize_max (fl_mul r64 (nat_to_f64 token_budget) cost_per_position)))"

definition resolve_cost_model_override :: "lookup \<Rightarrow> nat \<Rightarrow> cost_model option" where
  "resolve_cost_model_override lookup max_seq_length =
     (let max_workspace = setting lookup usize_max ''BGE_M3_AVAILABLE_MEMORY_BYTES'' DEFAULT_MAX_WORKSPACE
      in if truthy (lookup ''BGE_M3_DISABLE_AUTO_BUDGET'') then Some (conservative max_workspace)
         else case Option.bind (lookup ''BGE_M3_TOKEN_BUDGET'') parse_usize of
           Some token_budget \<Rightarrow> Some (legacy_token_budget token_budget max_seq_length)
         | None \<Rightarrow>
             (case (Option.bind (lookup ''BGE_M3_COST_MODEL_A'') parse_f64,
                    Option.bind (lookup ''BGE_M3_COST_MODEL_B'') parse_f64) of
                (Some a, Some b) \<Rightarrow> Some \<lparr>cm_a = a, cm_b = b, max_workspace_bytes = max_workspace\<rparr>
              | _ \<Rightarrow> None))"

definition resolve_max_seq_length :: "lookup \<Rightarrow> nat" where
  "resolve_max_seq_length lookup =
     (let raw = setting lookup usize_max ''BGE_M3_MAX_SEQ_LENGTH'' MODEL_MAX_SEQ
      in if raw = 0 \<or> MODEL_MAX_SEQ < raw then MODEL_MAX_SEQ else raw)"

definition resolve_model_variant :: "lookup \<Rightarrow> model_variant" where
  "resolve_model_variant lookup =
     (if lookup ''BGE_M3_MODEL'' = Some ''fp32'' then Fp32
      else if lookup ''BGE_M3_MODEL'' = Some ''int8'' then Int8 else Fp16)"

definition resolve_safety_factor :: "lookup \<Rightarrow> fl" where
  "resolve_safety_factor lookup =
     fl_clamp (r64 (1 / 10)) (Fin 1)
       (case Option.bind (lookup ''BGE_M3_MEMORY_SAFETY_FACTOR'') parse_f64 of
          Some x \<Rightarrow> x | None \<Rightarrow> r64 (7 / 10))"

definition resolve_ep :: "lookup \<Rightarrow> ep_selection" where
  "resolve_ep lookup =
     (if lookup ''BGE_M3_EP'' = Some ''cuda'' then Cuda
      else if lookup ''BGE_M3_EP'' = Some ''tensorrt'' then TensorRt else Cpu)"

definition resolve_engine_propagation :: "lookup \<Rightarrow> bool \<Rightarrow> bool" where
  "resolve_engine_propagation lookup adaptive =
     (if lookup ''BGE_M3_ENGINE_PROPAGATION_ENABLED'' = Some ''0'' then False
      else if lookup ''BGE_M3_ENGINE_PROPAGATION_ENABLED'' = Some ''1'' then True
      else adaptive)"

definition gpu_cost_model_override :: "ep_selection \<Rightarrow> nat option \<Rightarrow> cost_model option \<Rightarrow> cost_model option" where
  "gpu_cost_model_override ep gpu_vram_budget_bytes cost_model_override =
     (if ep = Cpu then cost_model_override
      else Some (conservative (case gpu_vram_budget_bytes of Some v \<Rightarrow> v | None \<Rightarrow> DEFAULT_GPU_VRAM_BUDGET_BYTES)))"

text \<open>
  \<open>driver_dir\<close> is the number of entries of the NVIDIA driver directory, if there is one, for the GPU count. The
  build has the \<open>cache-gc\<close> feature, which adds the last field.
\<close>

definition from_lookup :: "nat option \<Rightarrow> lookup \<Rightarrow> config" where
  "from_lookup driver_dir lookup =
     (let max_seq_length = resolve_max_seq_length lookup;
          idle_timeout_secs = setting lookup usize_max ''BGE_M3_IDLE_TIMEOUT_SECS'' 300;
          ep = resolve_ep lookup;
          gpu_vram_budget_bytes = Option.bind (lookup ''BGE_M3_GPU_VRAM_BUDGET_BYTES'') parse_usize;
          adaptive = truthy (lookup ''BGE_M3_ADAPTIVE_WARMUP_ENABLED'')
      in \<lparr>cf_cache_dir = (case lookup ''BGE_M3_CACHE_DIR'' of Some d \<Rightarrow> d | None \<Rightarrow> ''/cache''),
          cf_bind_addr = (case lookup ''BGE_M3_BIND'' of Some d \<Rightarrow> d | None \<Rightarrow> ''0.0.0.0:8081''),
          cf_tls_cert_path = lookup ''BGE_M3_TLS_CERT_PATH'',
          cf_tls_key_path = lookup ''BGE_M3_TLS_KEY_PATH'',
          cf_workers = max (setting lookup usize_max ''BGE_M3_WORKERS'' 2) 1,
          cf_intra_threads = max (setting lookup usize_max ''BGE_M3_INTRA_THREADS'' 1) 1,
          cf_max_batch = max (setting lookup usize_max ''BGE_M3_MAX_BATCH'' 256) 1,
          cf_max_seq_length = max_seq_length,
          cf_idle_timeout = (if 0 < idle_timeout_secs then Some idle_timeout_secs else None),
          cf_model_variant = resolve_model_variant lookup,
          cf_memory_safety_factor = resolve_safety_factor lookup,
          cf_cost_model_override =
            gpu_cost_model_override ep gpu_vram_budget_bytes (resolve_cost_model_override lookup max_seq_length),
          cf_heartbeat_secs = setting lookup usize_max ''BGE_M3_HEARTBEAT_SECS'' 60,
          cf_ep = ep,
          cf_gpu_count = detect_gpu_count driver_dir (Option.bind (lookup ''BGE_M3_GPU_COUNT'') parse_usize),
          cf_gpu_vram_budget_bytes = gpu_vram_budget_bytes,
          cf_trt_max_workspace_bytes = Option.bind (lookup ''BGE_M3_TRT_MAX_WORKSPACE_BYTES'') parse_usize,
          cf_gpu_mem_limit_bytes = Option.bind (lookup ''BGE_M3_GPU_MEM_LIMIT_BYTES'') parse_usize,
          cf_adaptive_warmup_enabled = adaptive,
          cf_engine_propagation_enabled = resolve_engine_propagation lookup adaptive,
          cf_adaptive_warmup_quiet_secs = setting lookup usize_max ''BGE_M3_ADAPTIVE_WARMUP_QUIET_SECS'' 3,
          cf_adaptive_warmup_max_shapes_per_hour =
            setting lookup u32_max ''BGE_M3_ADAPTIVE_WARMUP_MAX_SHAPES_PER_HOUR'' 12,
          cf_trt_warmup_shapes = parse_trt_warmup_shapes (lookup ''BGE_M3_TRT_WARMUP_SHAPES''),
          cf_warmup_only = truthy (lookup ''BGE_M3_WARMUP_ONLY''),
          cf_prewarm_strict = (\<not> explicit_off (lookup ''BGE_M3_PREWARM_STRICT'')),
          cf_max_body_bytes = setting lookup usize_max ''BGE_M3_MAX_BODY_BYTES'' 33554432,
          cf_circuit_breaker_threshold = max (setting lookup usize_max ''BGE_M3_CIRCUIT_BREAKER_THRESHOLD'' 5) 1,
          cf_trt_inband_jit_guard_enabled = (\<not> explicit_off (lookup ''BGE_M3_TRT_INBAND_JIT_GUARD'')),
          cf_trt_inband_jit_guard_seq = max (setting lookup usize_max ''BGE_M3_TRT_INBAND_JIT_GUARD_SEQ'' 4096) 1,
          cf_trt_cache_gc_enabled = truthy (lookup ''BGE_M3_TRT_CACHE_GC_ENABLED'')\<rparr>)"

definition validate :: "config \<Rightarrow> (string, unit) result" where
  "validate cfg =
     (case (cf_tls_cert_path cfg, cf_tls_key_path cfg) of
        (Some _, None) \<Rightarrow> Inl ''TLS misconfiguration: BGE_M3_TLS_CERT_PATH and BGE_M3_TLS_KEY_PATH must both be set or both be absent''
      | (None, Some _) \<Rightarrow> Inl ''TLS misconfiguration: BGE_M3_TLS_CERT_PATH and BGE_M3_TLS_KEY_PATH must both be set or both be absent''
      | _ \<Rightarrow> Inr ())"

definition from_env :: "nat option \<Rightarrow> lookup \<Rightarrow> (string, config) result" where
  "from_env driver_dir env = (let cfg = from_lookup driver_dir env in rbind (validate cfg) (\<lambda>_. Inr cfg))"

section \<open>Facts\<close>

lemma bind_parse_bound: "Option.bind v (parse_unsigned bound) = Some n \<Longrightarrow> n \<le> bound"
  by (cases v) (auto dest: parse_unsigned_bound)

lemma setting_le: "d \<le> bound \<Longrightarrow> setting lookup bound key d \<le> bound"
  by (auto simp: setting_def dest: bind_parse_bound split: option.split)

lemma resolve_max_seq_length_range: "1 \<le> resolve_max_seq_length lookup \<and> resolve_max_seq_length lookup \<le> 8192"
  by (auto simp: resolve_max_seq_length_def Let_def MODEL_MAX_SEQ_def)

lemma detect_gpu_count_pos: "1 \<le> detect_gpu_count d v"
  by (auto simp: detect_gpu_count_def count_nvidia_gpus_from_proc_def split: option.split)

lemma parse_trt_warmup_shapes_nonempty: "parse_trt_warmup_shapes raw \<noteq> []"
  by (auto simp: parse_trt_warmup_shapes_def DEFAULT_TRT_WARMUP_SHAPES_def Let_def split: option.split)

lemma resolve_safety_factor_range:
  "if Option.bind (lookup ''BGE_M3_MEMORY_SAFETY_FACTOR'') parse_f64 = Some NaN then resolve_safety_factor lookup = NaN
   else fl_le (r64 (1 / 10)) (resolve_safety_factor lookup) \<and> fl_le (resolve_safety_factor lookup) (Fin 1)"
proof -
  have one: "r64 1 = Fin 1" using f64.rnd_int_exact [of 1] by simp
  have "fl_le (r64 (1 / 10)) (Fin 1)" "fl_le (Fin 0) (r64 (1 / 10))"
    using f64.rnd_mono [of "1 / 10" 1] f64.rnd_nonneg [of "1 / 10"] by (simp_all add: one)
  then obtain lo where lo: "r64 (1 / 10) = Fin lo" "lo \<le> 1" by (cases "r64 (1 / 10)") auto
  have d: "r64 (7 / 10) \<noteq> NaN" by (simp add: r64_def fl_round_def Let_def)
  have nan: "fl_clamp (Fin lo) (Fin 1) NaN = NaN" by (simp add: fl_clamp_def)
  show ?thesis
    using fl_clamp_range [OF lo(2)] d nan
    by (fastforce simp: resolve_safety_factor_def lo(1) split: option.splits)
qed

text \<open>The pair of coefficients the environment sets directly, when it is the one that counts.\<close>

definition explicit_coefficients :: "lookup \<Rightarrow> (fl \<times> fl) option" where
  "explicit_coefficients lookup =
     (if resolve_ep lookup \<noteq> Cpu \<or> truthy (lookup ''BGE_M3_DISABLE_AUTO_BUDGET'') \<or>
         Option.bind (lookup ''BGE_M3_TOKEN_BUDGET'') parse_usize \<noteq> None
      then None
      else case (Option.bind (lookup ''BGE_M3_COST_MODEL_A'') parse_f64, Option.bind (lookup ''BGE_M3_COST_MODEL_B'') parse_f64) of
             (Some a, Some b) \<Rightarrow> Some (a, b)
           | _ \<Rightarrow> None)"

lemma conservative_workspace: "max_workspace_bytes (conservative w) = w"
  by (simp add: conservative_def)

lemma override_range:
  assumes "cf_cost_model_override (from_lookup d lookup) = Some cm"
  shows "max_workspace_bytes cm \<le> usize_max \<and>
    (wf_cost_model cm \<or> explicit_coefficients lookup = Some (cm_a cm, cm_b cm))"
proof -
  have b: "DEFAULT_MAX_WORKSPACE \<le> usize_max" "DEFAULT_GPU_VRAM_BUDGET_BYTES \<le> usize_max"
    by (simp_all add: DEFAULT_MAX_WORKSPACE_def DEFAULT_GPU_VRAM_BUDGET_BYTES_def usize_max_def)
  show ?thesis
    using assms b conservative_workspace
    by (auto simp: from_lookup_def Let_def gpu_cost_model_override_def resolve_cost_model_override_def legacy_token_budget_def
        explicit_coefficients_def setting_le fl_to_unsigned_bound
        dest: bind_parse_bound split: if_splits option.splits)
qed

text \<open>What the rest of the server takes for granted of its configuration.\<close>

definition wf_config :: "config \<Rightarrow> bool" where
  "wf_config cfg \<longleftrightarrow>
     cf_workers cfg \<in> {1..usize_max} \<and> cf_intra_threads cfg \<in> {1..usize_max} \<and>
     cf_max_batch cfg \<in> {1..usize_max} \<and> cf_max_seq_length cfg \<in> {1..8192} \<and>
     cf_circuit_breaker_threshold cfg \<in> {1..usize_max} \<and> cf_trt_inband_jit_guard_seq cfg \<in> {1..usize_max} \<and>
     cf_adaptive_warmup_max_shapes_per_hour cfg \<le> u32_max \<and>
     1 \<le> cf_gpu_count cfg \<and> cf_idle_timeout cfg \<noteq> Some 0 \<and> cf_trt_warmup_shapes cfg \<noteq> [] \<and>
     (cf_ep cfg = Cpu \<or> (\<exists>w\<le>usize_max. cf_cost_model_override cfg = Some (conservative w)))"

lemma from_lookup_wf: "wf_config (from_lookup d env)"
proof -
  have u: "1 \<le> usize_max" "2 \<le> usize_max" "5 \<le> usize_max" "256 \<le> usize_max" "4096 \<le> usize_max" "12 \<le> u32_max"
      "DEFAULT_GPU_VRAM_BUDGET_BYTES \<le> usize_max"
    by (simp_all add: usize_max_def u32_max_def DEFAULT_GPU_VRAM_BUDGET_BYTES_def)
  have g: "resolve_ep env = Cpu \<or>
      (\<exists>w\<le>usize_max. gpu_cost_model_override (resolve_ep env) (Option.bind v parse_usize) c = Some (conservative w))" for v c
    using u(7) by (auto simp: gpu_cost_model_override_def dest: bind_parse_bound split: option.split)
  show ?thesis
    using u g by (simp add: wf_config_def from_lookup_def Let_def setting_le resolve_max_seq_length_range [simplified]
        detect_gpu_count_pos [simplified] parse_trt_warmup_shapes_nonempty)
qed

subsection \<open>The warm-up grid\<close>

fun join :: "char \<Rightarrow> string list \<Rightarrow> string" where
  "join c [] = []"
| "join c [t] = t"
| "join c (t # u # ts) = t @ c # join c (u # ts)"

lemma split_on_join:
  "ts \<noteq> [] \<Longrightarrow> list_all (\<lambda>t. c \<notin> set t) ts \<Longrightarrow> split_on c (join c ts) = ts"
  by (induction c ts rule: join.induct) (simp_all add: split_on_no_sep split_on_append_sep)

lemma parse_shape_token_blank: "trim t = [] \<Longrightarrow> parse_shape_token t = None"
  by (simp add: parse_shape_token_def)

lemma trim_NilD: "trim s = [] \<Longrightarrow> list_all is_ws s"
proof -
  assume "trim s = []"
  then have "\<forall>c\<in>set (dropWhile is_ws s). is_ws c" by (simp add: trim_def dropWhile_eq_Nil_conv)
  then have "dropWhile is_ws s = []" using hd_dropWhile [of is_ws s] hd_in_set by metis
  then show "list_all is_ws s" by (simp add: dropWhile_eq_Nil_conv list_all_iff)
qed

lemma trim_blank: "list_all is_ws s \<Longrightarrow> trim s = []"
  by (simp add: trim_def list_all_iff flip: dropWhile_eq_Nil_conv)

lemma join_blank: "list_all is_ws (join c ts) \<Longrightarrow> t \<in> set ts \<Longrightarrow> list_all is_ws t"
  by (induction c ts rule: join.induct) auto

lemma parse_trt_warmup_shapes_tokens:
  assumes "ts \<noteq> []" and "list_all (\<lambda>t. CHR '','' \<notin> set t) ts"
  shows "parse_trt_warmup_shapes (Some (join (CHR '','') ts)) =
    (let p = List.map_filter parse_shape_token ts in if p = [] then DEFAULT_TRT_WARMUP_SHAPES else p)"
proof (cases "trim (join (CHR '','') ts) = []")
  case True
  then have "parse_shape_token t = None" if "t \<in> set ts" for t
    using join_blank [OF trim_NilD [OF True] that] by (simp add: parse_shape_token_blank trim_blank)
  then have "List.map_filter parse_shape_token ts = []" by (induction ts) (simp_all add: List.map_filter_def)
  with True show ?thesis by (simp add: parse_trt_warmup_shapes_def)
next
  case False
  then show ?thesis by (simp add: parse_trt_warmup_shapes_def split_on_join assms)
qed

definition show_shape :: "shape \<Rightarrow> string" where
  "show_shape sh = show_nat (fst sh) @ CHR ''x'' # show_nat (snd sh)"

lemma not_in_show_nat: "digit_val c = None \<Longrightarrow> c \<notin> set (show_nat n)"
  using set_show_nat by blast

lemma parse_shape_token_show:
  assumes "b \<le> usize_max" and "s \<le> usize_max"
  shows "parse_shape_token (show_shape (b, s)) = Some (b, s)"
proof -
  have x: "CHR ''x'' \<notin> set (show_nat b)" by (rule not_in_show_nat) code_simp
  have "\<not> is_ws c" if "c \<in> set (show_shape (b, s))" for c
  proof -
    have "\<not> is_ws (CHR ''x'')" by code_simp
    then show ?thesis using that set_show_nat is_ws_not_digit unfolding show_shape_def by fastforce
  qed
  then have "trim (show_shape (b, s)) = show_shape (b, s)" by (rule trim_no_ws)
  then show ?thesis
    using assms x by (simp add: parse_shape_token_def show_shape_def split_once_append_sep parse_unsigned_show_nat)
qed

lemma comma_not_in_show_shape: "CHR '','' \<notin> set (show_shape sh)"
proof -
  have "digit_val (CHR '','') = None" by code_simp
  then show ?thesis by (simp add: show_shape_def not_in_show_nat)
qed

subsection \<open>The legacy token budget\<close>

lemma legacy_token_budget_exact:
  assumes "t \<le> 2 ^ 36" and "m \<le> 8192"
  shows "legacy_token_budget t m = conservative (t * (16384 + 8 * m))"
proof -
  have m: "nat_to_f64 m = Fin (of_nat m)" and t: "nat_to_f64 t = Fin (of_nat t)"
    using assms by (simp_all add: nat_to_f64_exact)
  have q: "fl_mul r64 (Fin 8) (Fin (of_nat m)) = Fin (of_nat (8 * m))"
    using f64.fl_mul_nat_exact [of 8 m] assms(2) by simp
  have c: "fl_add r64 (Fin 16384) (Fin (of_nat (8 * m))) = Fin (of_nat (16384 + 8 * m))"
    using f64.fl_add_nat_exact [of 16384 "8 * m"] assms(2) by simp
  have le: "t * (16384 + 8 * m) \<le> 2 ^ 36 * 2 ^ 17" using assms by (intro mult_le_mono) auto
  have w: "fl_mul r64 (Fin (of_nat t)) (Fin (of_nat (16384 + 8 * m))) = r64 (of_nat (t * (16384 + 8 * m)))"
    by (simp only: fl_mul.simps of_nat_mult)
  have "t * (16384 + 8 * m) \<le> 2 ^ 36 * (16384 + 8 * 8192)" using assms by (intro mult_le_mono) auto
  then have b: "t * (16384 + 8 * m) \<le> 2 ^ 53 - 1" by simp
  show ?thesis
    using b by (simp only: legacy_token_budget_def Let_def CONSERVATIVE_A_def CONSERVATIVE_B_def m t q c w
        f64.rnd_int_exact [OF b] fl_to_unsigned_nat) (simp add: usize_max_def)
qed

lemma conservative_cost_small:
  assumes "c \<le> 2 ^ 23" and "s \<le> 8192"
  shows "chunk_cost (conservative w) c s = c * s * (16384 + 8 * s)"
proof -
  have n: "c * s \<le> 2 ^ 23 * 8192" using assms by (rule mult_le_mono)
  then have "8 * (c * s) * s \<le> 8 * (2 ^ 23 * 8192) * 8192" using assms by (intro mult_le_mono) auto
  then have "chunk_cost (conservative w) c s = 16384 * (c * s) + 8 * (c * s) * s"
    using n by (intro chunk_cost_conservative) auto
  then show ?thesis by (simp add: algebra_simps)
qed

section \<open>Properties\<close>

text \<open>
  C29: what every environment gives. Whatever the variables hold, the worker, thread and batch
  counts, the breaker threshold and the guard length are at least 1 and within their machine type, the
  maximal length is in [1, 8192], a timeout is never 0 seconds, the warm-up grid is never empty, and a
  GPU provider always comes with a conservative cost model over its VRAM budget. Two fields are only as good as
  the text behind them. The safety factor is in [0.1, 1] unless the variable spells NaN, and then it is NaN. A
  cost model fixed by the environment has a 64-bit workspace and finite, non-negative coefficients, unless
  both coefficients were given directly: these are taken over unchecked.
\<close>

theorem from_lookup_well_formed:
  "wf_config (from_lookup d env) \<and>
   (if Option.bind (env ''BGE_M3_MEMORY_SAFETY_FACTOR'') parse_f64 = Some NaN
    then cf_memory_safety_factor (from_lookup d env) = NaN
    else fl_le (r64 (1 / 10)) (cf_memory_safety_factor (from_lookup d env)) \<and>
      fl_le (cf_memory_safety_factor (from_lookup d env)) (Fin 1)) \<and>
   (case cf_cost_model_override (from_lookup d env) of
      None \<Rightarrow> True
    | Some cm \<Rightarrow> max_workspace_bytes cm \<le> usize_max \<and>
        (explicit_coefficients env = Some (cm_a cm, cm_b cm) \<or> wf_cost_model cm))"
proof -
  have "cf_memory_safety_factor (from_lookup d env) = resolve_safety_factor env" by (simp add: from_lookup_def Let_def)
  then show ?thesis
    using from_lookup_wf resolve_safety_factor_range [of env] override_range [of d env] by (auto split: option.split)
qed

text \<open>
  A warm-up grid written as comma-separated \<open>BxL\<close> tokens is read back shape by shape, in order; tokens
  that are not of this form, wherever they stand, are skipped without disturbing the others.
\<close>

theorem warmup_shapes_roundtrip:
  assumes "shapes \<noteq> []" and "list_all (\<lambda>(b, s). b \<le> usize_max \<and> s \<le> usize_max) shapes"
    and "list_all (\<lambda>t. CHR '','' \<notin> set t) tokens"
    and "filter (\<lambda>t. parse_shape_token t \<noteq> None) tokens = map show_shape shapes"
  shows "parse_trt_warmup_shapes (Some (join (CHR '','') tokens)) = shapes"
proof -
  have "List.map_filter parse_shape_token tokens = List.map_filter parse_shape_token (map show_shape shapes)"
    unfolding assms(4) [symmetric] by (induction tokens) (auto simp: List.map_filter_def)
  also have "\<dots> = shapes"
    using assms(2) by (induction shapes) (auto simp: List.map_filter_def parse_shape_token_show)
  finally show ?thesis
    using assms(1,3,4) by (subst parse_trt_warmup_shapes_tokens) auto
qed

theorem warmup_shapes_roundtrip_witness:
  "parse_trt_warmup_shapes (Some (join (CHR '','') [''1x128'', ''bogus'', ''4x512'', ''x''])) = [(1, 128), (4, 512)]"
proof (rule warmup_shapes_roundtrip)
  have "[''1x128'', ''4x512''] = map show_shape [(1, 128), (4, 512)]"
    by (simp add: show_shape_def show_nat.simps digit_char_def char_of_def bit_0)
  moreover have "parse_shape_token ''bogus'' = None" "parse_shape_token ''x'' = None"
    by (simp_all add: parse_shape_token_def trim_def is_ws_def parse_unsigned_def)
  moreover have "parse_shape_token (show_shape (1, 128)) = Some (1, 128)" "parse_shape_token (show_shape (4, 512)) = Some (4, 512)"
    by (rule parse_shape_token_show; simp add: usize_max_def)+
  ultimately show "filter (\<lambda>t. parse_shape_token t \<noteq> None) [''1x128'', ''bogus'', ''4x512'', ''x''] =
      map show_shape [(1, 128), (4, 512)]" by simp
qed (simp_all add: usize_max_def)

text \<open>
  \<open>BGE_M3_TOKEN_BUDGET\<close> still means a number of tokens. With a budget of \<open>t\<close> tokens and no GPU, a chunk whose
  padded size is at most \<open>t\<close> tokens always fits, and a chunk padded to the maximal length fits exactly
  then, however the other variables are set.
\<close>

theorem token_budget_counts_tokens:
  assumes "\<not> truthy (env ''BGE_M3_DISABLE_AUTO_BUDGET'')" and "resolve_ep env = Cpu"
    and "Option.bind (env ''BGE_M3_TOKEN_BUDGET'') parse_usize = Some t" and "t \<le> 2 ^ 36"
    and "c \<le> 2 ^ 23" and "s \<le> cf_max_seq_length (from_lookup d env)"
  shows "\<exists>cm. cf_cost_model_override (from_lookup d env) = Some cm \<and>
    (if s = cf_max_seq_length (from_lookup d env) then fits cm c s \<longleftrightarrow> c * s \<le> t
     else fits cm c s \<or> t < c * s)"
proof -
  define m where "m = resolve_max_seq_length env"
  have m: "m \<le> 8192" and s: "s \<le> m"
    using resolve_max_seq_length_range [of env] assms(6) by (simp_all add: m_def from_lookup_def Let_def)
  define cm where "cm = legacy_token_budget t m"
  have cf: "cf_cost_model_override (from_lookup d env) = Some cm" "cf_max_seq_length (from_lookup d env) = m"
    using assms(1-3) by (simp_all add: from_lookup_def Let_def gpu_cost_model_override_def resolve_cost_model_override_def m_def cm_def)
  have cm: "cm = conservative (t * (16384 + 8 * m))" unfolding cm_def by (rule legacy_token_budget_exact [OF assms(4) m])
  have f: "fits cm c s \<longleftrightarrow> c * s * (16384 + 8 * s) \<le> t * (16384 + 8 * m)"
    using conservative_cost_small [OF assms(5), of s "t * (16384 + 8 * m)"] s m
    by (simp add: fits_def cm) (simp add: conservative_def)
  have "c * s * (16384 + 8 * s) \<le> t * (16384 + 8 * m)" if "c * s \<le> t" using that s by (intro mult_le_mono) auto
  then show ?thesis using cf f by (auto simp: not_less)
qed

theorem token_budget_counts_tokens_witness:
  "\<exists>cm. cf_cost_model_override (from_lookup None [''BGE_M3_TOKEN_BUDGET'' \<mapsto> ''16384'']) = Some cm \<and>
     fits cm 2 8192 \<and> \<not> fits cm 3 8192"
proof -
  define env where "env = [''BGE_M3_TOKEN_BUDGET'' \<mapsto> ''16384'']"
  have m: "cf_max_seq_length (from_lookup None env) = 8192"
    by (simp add: env_def from_lookup_def Let_def resolve_max_seq_length_def setting_def MODEL_MAX_SEQ_def)
  have t: "Option.bind (env ''BGE_M3_TOKEN_BUDGET'') parse_usize = Some 16384"
    by (simp add: env_def parse_unsigned_def digit_val_def usize_max_def)
  have e: "\<not> truthy (env ''BGE_M3_DISABLE_AUTO_BUDGET'')" "resolve_ep env = Cpu"
    by (simp_all add: env_def truthy_def resolve_ep_def)
  show ?thesis
    using token_budget_counts_tokens [OF e t, of 2 8192 None] token_budget_counts_tokens [OF e t, of 3 8192 None]
    unfolding m env_def [symmetric] by auto
qed

end
