(* ===== verification/Pool.thy ===== *)
theory Pool
  imports Worker
begin

text \<open>
  The worker pool of \<open>src/embedder/pool.rs\<close>: how many workers are spawned and with which configuration,
  the sequential start-up, the request methods, and the pool as a system of workers that
  interleave.

  The interleaving is a step relation on the phases of the workers and the state they share. It is
  proved correct for every worker loop that keeps the \<open>worker_loop\<close> contract of theory Worker, and
  interpreted on the loop and start-up modelled there: the values of the two counters behind
  \<open>/health\<close> are known exactly in every reachable state. The loaded counter is not always the number of workers with models: one leaving on a
  fatal engine error stays counted, and one that unloads before the init task has counted it makes the counter wrap until then.
\<close>

section \<open>Spawning\<close>

definition clamp_workers :: "worker_config \<Rightarrow> nat \<Rightarrow> nat" where
  "clamp_workers config n =
     (let gpu_count = max (wc_gpu_count config) 1
      in if wc_ep config \<noteq> Cpu \<and> gpu_count < n then gpu_count else n)"

definition queue_capacity :: "nat \<Rightarrow> nat" where "queue_capacity n = n * 4"

definition to_u32_or :: "nat \<Rightarrow> nat \<Rightarrow> nat" where
  "to_u32_or d x = (if x \<le> u32_max then x else d)"

definition make_worker_config :: "worker_config \<Rightarrow> nat \<Rightarrow> nat \<Rightarrow> worker_config" where
  "make_worker_config config n wid =
     (let gpu_count = max (wc_gpu_count config) 1;
          wc = config\<lparr>wc_device_id := to_u32_or 0 wid mod to_u32_or 1 gpu_count\<rparr>
      in if wc_ep config = TensorRt \<and> 1 < n \<and> wc_trt_warmup_shapes config \<noteq> []
         then wc\<lparr>wc_trt_warmup_shapes := shard_shapes (wc_trt_warmup_shapes config) wid n\<rparr>
         else wc)"

section \<open>Waiting for a worker\<close>

datatype ready_recv = Recv_Msg "(string, nat) result" | Recv_Closed

datatype join_result = Join_Ok | Join_Err string | Join_Panic string

text \<open>
  A biased select: the readiness message wins over the end of the worker when both are there. \<open>None\<close>:
  neither is, the task keeps waiting.
\<close>

fun await_worker_signal :: "nat \<Rightarrow> ready_recv option \<Rightarrow> join_result option \<Rightarrow> (string, nat) result option" where
  "await_worker_signal wid (Some (Recv_Msg (Inr delta))) _ = Some (Inr delta)"
| "await_worker_signal wid (Some (Recv_Msg (Inl e))) _ =
     Some (Inl (''Worker '' @ show_nat wid @ '' failed to load models: '' @ e))"
| "await_worker_signal wid (Some Recv_Closed) _ =
     Some (Inl (''Worker '' @ show_nat wid @ '' exited before signaling readiness''))"
| "await_worker_signal wid None (Some Join_Ok) =
     Some (Inl (''Worker '' @ show_nat wid @ '' exited cleanly without signaling readiness''))"
| "await_worker_signal wid None (Some (Join_Err e)) =
     Some (Inl (''Worker '' @ show_nat wid @ '' exited with error before signaling ready: '' @ e))"
| "await_worker_signal wid None (Some (Join_Panic e)) =
     Some (Inl (''Worker '' @ show_nat wid @ '' panicked before signaling ready: '' @ e))"
| "await_worker_signal wid None None = None"

text \<open>What the start-up of a worker makes visible to the init task.\<close>

fun startup_signal :: "startup_outcome \<Rightarrow> ready_recv option \<times> join_result option" where
  "startup_signal (Startup_Ready d) = (Some (Recv_Msg (Inr d)), None)"
| "startup_signal (Startup_Failed e True) = (Some (Recv_Msg (Inl e)), Some (Join_Err e))"
| "startup_signal (Startup_Failed e False) = (None, Some (Join_Err e))"

text \<open>The init task: workers one at a time, the first failure ends it.\<close>

fun init_workers ::
  "(nat \<Rightarrow> 'w shared \<Rightarrow> startup_outcome \<times> 'w shared) \<Rightarrow> nat list \<Rightarrow> nat list \<Rightarrow> 'w shared \<Rightarrow>
   (string, nat list) result \<times> 'w shared" where
  "init_workers start [] rss_deltas s = (Inr rss_deltas, s)"
| "init_workers start (wid # wids) rss_deltas s =
     (case start wid s of (out, s1) \<Rightarrow>
        (case await_worker_signal wid (fst (startup_signal out)) (snd (startup_signal out)) of
           Some (Inr delta) \<Rightarrow>
             init_workers start wids (rss_deltas @ [delta]) (s1\<lparr>sh_loaded := sh_loaded s1 + 1\<rparr>)
         | Some (Inl e) \<Rightarrow> (Inl e, guard_drop s1)
         | None \<Rightarrow> (Inl ''pending'', s1)))"

definition init_task ::
  "(nat \<Rightarrow> 'w shared \<Rightarrow> startup_outcome \<times> 'w shared) \<Rightarrow> nat \<Rightarrow> 'w shared \<Rightarrow> (string, nat) result \<times> 'w shared" where
  "init_task start n s =
     (case init_workers start (0 # [1..<n]) [] s of
        (Inr rss_deltas, s') \<Rightarrow> (Inr (median_usize rss_deltas), s')
      | (Inl e, s') \<Rightarrow> (Inl e, s'))"

section \<open>Calling the pool\<close>

text \<open>A request method: send, then wait for the reply; the reply channel may be dropped unanswered.\<close>

definition pool_call :: "bool \<Rightarrow> (any_error, 'r) result option \<Rightarrow> (any_error, 'r) result" where
  "pool_call chan_closed answer =
     (if chan_closed then Inl (Msg ''EmbedPool channel closed'')
      else case answer of None \<Rightarrow> Inl (Msg ''Worker dropped reply sender'') | Some r \<Rightarrow> r)"

definition pool_dense ::
  "bool \<Rightarrow> (string list \<Rightarrow> (any_error, fl list list \<times> embed_stats) result option) \<Rightarrow> string list \<Rightarrow>
   (any_error, fl list list \<times> embed_stats) result" where
  "pool_dense chan_closed answer texts = pool_call chan_closed (answer texts)"

definition pool_sparse ::
  "bool \<Rightarrow> (string list \<Rightarrow> (any_error, sparse_embedding list \<times> embed_stats) result option) \<Rightarrow> string list \<Rightarrow>
   (any_error, sparse_embedding list \<times> embed_stats) result" where
  "pool_sparse chan_closed answer texts = pool_call chan_closed (answer texts)"

definition pool_both ::
  "bool \<Rightarrow> (string list \<Rightarrow> (any_error, dual_embedding list \<times> embed_stats) result option) \<Rightarrow> string list \<Rightarrow>
   (any_error, dual_embedding list \<times> embed_stats) result" where
  "pool_both chan_closed answer texts = pool_call chan_closed (answer texts)"

definition pool_probe ::
  "bool \<Rightarrow> (string list \<Rightarrow> (any_error, probe_result) result option) \<Rightarrow> string list \<Rightarrow> (any_error, probe_result) result" where
  "pool_probe chan_closed answer texts = pool_call chan_closed (answer texts)"

definition queue_depth :: "nat \<Rightarrow> nat \<Rightarrow> nat" where
  "queue_depth max_capacity capacity = max_capacity - capacity"

section \<open>The pool as a system\<close>

datatype phase = Unspawned | Starting | Serving worker | Exited bool

record 'w pool =
  pl_phases :: "phase list"
  pl_pending :: nat
  pl_init_ok :: bool
  pl_shared :: "'w shared"

definition fresh_worker :: worker where
  "fresh_worker = \<lparr>wk_models = True, wk_warmed_local = {}, wk_failures = 0\<rparr>"

fun after_pass :: "control \<Rightarrow> worker \<Rightarrow> phase" where
  "after_pass Continue wk = Serving wk"
| "after_pass Exit wk = Exited False"
| "after_pass (Exit_Error m) wk = Exited True"
| "after_pass Abort wk = Serving wk"

definition pool_start :: "nat \<Rightarrow> cost_model \<Rightarrow> 'w \<Rightarrow> 'w pool" where
  "pool_start n cm w =
     \<lparr>pl_phases = replicate n Unspawned, pl_pending = 0, pl_init_ok = True,
      pl_shared = \<lparr>sh_live = of_nat n, sh_loaded = 0, sh_ceiling = 0, sh_cost_model = cm, sh_world = w\<rparr>\<rparr>"

text \<open>
  The steps: the init task spawns the next worker when all before it have signalled and been
  counted, a worker finishes its start-up, the init task counts a signal, a worker makes a pass of
  its loop, the startup probe installs a new cost model.
\<close>

inductive pool_step ::
  "(nat \<Rightarrow> notice list \<Rightarrow> message \<Rightarrow> worker \<Rightarrow> 'w shared \<Rightarrow> effect list \<times> control \<times> worker \<times> 'w shared) \<Rightarrow>
   (nat \<Rightarrow> 'w shared \<Rightarrow> startup_outcome \<times> 'w shared) \<Rightarrow> (nat \<Rightarrow> worker_config) \<Rightarrow> 'w pool \<Rightarrow> 'w pool \<Rightarrow> bool"
  for pass start cfg where
  spawn: "i < length (pl_phases p) \<Longrightarrow> pl_phases p ! i = Unspawned \<Longrightarrow>
    \<forall>j<i. pl_phases p ! j \<noteq> Unspawned \<and> pl_phases p ! j \<noteq> Starting \<Longrightarrow> pl_pending p = 0 \<Longrightarrow> pl_init_ok p \<Longrightarrow>
    pool_step pass start cfg p (p\<lparr>pl_phases := (pl_phases p)[i := Starting]\<rparr>)"
| ready: "i < length (pl_phases p) \<Longrightarrow> pl_phases p ! i = Starting \<Longrightarrow> start i (pl_shared p) = (Startup_Ready d, s') \<Longrightarrow>
    pool_step pass start cfg p
      (p\<lparr>pl_phases := (pl_phases p)[i := Serving fresh_worker], pl_pending := pl_pending p + 1, pl_shared := s'\<rparr>)"
| failed: "i < length (pl_phases p) \<Longrightarrow> pl_phases p ! i = Starting \<Longrightarrow> start i (pl_shared p) = (Startup_Failed e b, s') \<Longrightarrow>
    pool_step pass start cfg p
      (p\<lparr>pl_phases := (pl_phases p)[i := Exited False], pl_init_ok := False, pl_shared := guard_drop s'\<rparr>)"
| counted: "pl_pending p = Suc k \<Longrightarrow>
    pool_step pass start cfg p
      (p\<lparr>pl_pending := k, pl_shared := (pl_shared p)\<lparr>sh_loaded := sh_loaded (pl_shared p) + 1\<rparr>\<rparr>)"
| iterate: "i < length (pl_phases p) \<Longrightarrow> pl_phases p ! i = Serving wk \<Longrightarrow> (msg = Elapsed \<Longrightarrow> may_elapse (cfg i) wk) \<Longrightarrow>
    pass i ns msg wk (pl_shared p) = (effs, ctl, wk', s') \<Longrightarrow> ctl \<noteq> Abort \<Longrightarrow>
    pool_step pass start cfg p (p\<lparr>pl_phases := (pl_phases p)[i := after_pass ctl wk'], pl_shared := s'\<rparr>)"
| retune: "pool_step pass start cfg p (p\<lparr>pl_shared := (pl_shared p)\<lparr>sh_cost_model := cm\<rparr>\<rparr>)"

inductive pool_reachable ::
  "(nat \<Rightarrow> notice list \<Rightarrow> message \<Rightarrow> worker \<Rightarrow> 'w shared \<Rightarrow> effect list \<times> control \<times> worker \<times> 'w shared) \<Rightarrow>
   (nat \<Rightarrow> 'w shared \<Rightarrow> startup_outcome \<times> 'w shared) \<Rightarrow> (nat \<Rightarrow> worker_config) \<Rightarrow> 'w pool \<Rightarrow> 'w pool \<Rightarrow> bool"
  for pass start cfg p0 where
  reach_init: "pool_reachable pass start cfg p0 p0"
| reach_step: "pool_reachable pass start cfg p0 p \<Longrightarrow> pool_step pass start cfg p p' \<Longrightarrow> pool_reachable pass start cfg p0 p'"

text \<open>The pool of the server: every worker runs the loop and start-up of theory Worker with its own configuration.\<close>

definition server_pass ::
  "(nat \<Rightarrow> 'w worker_env) \<Rightarrow> worker_config \<Rightarrow> nat \<Rightarrow> nat \<Rightarrow> notice list \<Rightarrow> message \<Rightarrow> worker \<Rightarrow> 'w shared \<Rightarrow>
   effect list \<times> control \<times> worker \<times> 'w shared" where
  "server_pass env config n wid = worker_iteration (env wid) (make_worker_config config n wid) wid"

definition server_start ::
  "(nat \<Rightarrow> 'w worker_env) \<Rightarrow> worker_config \<Rightarrow> nat \<Rightarrow> nat \<Rightarrow> 'w shared \<Rightarrow> startup_outcome \<times> 'w shared" where
  "server_start env config n wid s = startup_worker (env wid) (make_worker_config config n wid) wid s"

section \<open>Counting phases\<close>

fun holds_models :: "phase \<Rightarrow> bool" where
  "holds_models (Serving wk) = wk_models wk"
| "holds_models _ = False"

fun has_exited :: "phase \<Rightarrow> bool" where
  "has_exited (Exited b) = True"
| "has_exited _ = False"

fun exited_fatally :: "phase \<Rightarrow> bool" where
  "exited_fatally (Exited b) = b"
| "exited_fatally _ = False"

definition tally :: "('a \<Rightarrow> bool) \<Rightarrow> 'a list \<Rightarrow> nat" where
  "tally P xs = length (filter P xs)"

lemma tally_update:
  assumes "i < length xs"
  shows "tally P (xs[i := x]) + of_bool (P (xs ! i)) = tally P xs + of_bool (P x)"
proof -
  have "tally P (take i xs @ y # drop (Suc i) xs) = tally P (take i xs) + of_bool (P y) + tally P (drop (Suc i) xs)" for y
    by (simp add: tally_def)
  from this [of x] this [of "xs ! i"] show ?thesis
    using assms by (simp add: upd_conv_take_nth_drop flip: id_take_nth_drop)
qed

lemma tally_word_update:
  assumes "i < length xs"
  shows "(of_nat (tally P (xs[i := x])) :: 64 word) = of_nat (tally P xs) + of_bool (P x) - of_bool (P (xs ! i))"
proof -
  have "(of_nat (tally P (xs[i := x]) + of_bool (P (xs ! i))) :: 64 word) = of_nat (tally P xs + of_bool (P x))"
    by (simp only: tally_update [OF assms])
  then show ?thesis by (simp add: algebra_simps)
qed

lemma tally_le: "tally P xs \<le> length xs"
  by (simp add: tally_def)

section \<open>Invariants\<close>

definition counters_inv :: "'w pool \<Rightarrow> bool" where
  "counters_inv p \<longleftrightarrow>
     sh_loaded (pl_shared p) + of_nat (pl_pending p) =
       of_nat (tally holds_models (pl_phases p)) + of_nat (tally exited_fatally (pl_phases p)) \<and>
     sh_live (pl_shared p) = of_nat (length (pl_phases p)) - of_nat (tally has_exited (pl_phases p))"

text \<open>Workers start one at a time, in order, and each is counted before the next is spawned.\<close>

definition sequential_inv :: "'w pool \<Rightarrow> bool" where
  "sequential_inv p \<longleftrightarrow>
     (\<forall>j<length (pl_phases p). \<forall>i<j. pl_phases p ! j \<noteq> Unspawned \<longrightarrow>
        pl_phases p ! i \<noteq> Unspawned \<and> pl_phases p ! i \<noteq> Starting) \<and>
     pl_pending p + tally (\<lambda>ph. ph = Starting) (pl_phases p) \<le> 1"

definition breakers_inv :: "(nat \<Rightarrow> worker_config) \<Rightarrow> 'w pool \<Rightarrow> bool" where
  "breakers_inv cfg p \<longleftrightarrow>
     (\<forall>i<length (pl_phases p). \<forall>wk. pl_phases p ! i = Serving wk \<longrightarrow> below_threshold (cfg i) wk)"

lemma after_pass_simps:
  assumes "ctl \<noteq> Abort"
  shows "holds_models (after_pass ctl wk) = (wk_models wk \<and> ctl = Continue)"
    and "exited_fatally (after_pass ctl wk) = is_fatal_exit ctl"
    and "has_exited (after_pass ctl wk) = (ctl \<noteq> Continue)"
    and "after_pass ctl wk \<noteq> Starting" and "after_pass ctl wk \<noteq> Unspawned"
  using assms by (cases ctl; simp)+

locale pool_workers =
  fixes pass :: "nat \<Rightarrow> notice list \<Rightarrow> message \<Rightarrow> worker \<Rightarrow> 'w shared \<Rightarrow> effect list \<times> control \<times> worker \<times> 'w shared"
    and start :: "nat \<Rightarrow> 'w shared \<Rightarrow> startup_outcome \<times> 'w shared"
    and cfg :: "nat \<Rightarrow> worker_config"
  assumes loop: "worker_loop (pass i) (cfg i)"
    and start_counters: "start i s = (out, s') \<Longrightarrow>
      sh_loaded s' = sh_loaded s \<and> sh_live s' = sh_live s \<and> sh_ceiling s \<le> sh_ceiling s'"
begin

lemma step_counters:
  assumes step: "pool_step pass start cfg p p'" and inv: "counters_inv p"
  shows "counters_inv p'"
  using step
proof cases
  case (spawn i)
  then show ?thesis using inv by (simp add: counters_inv_def tally_word_update)
next
  case (ready i d s')
  then show ?thesis
    using inv start_counters [OF ready(4)]
    by (simp add: counters_inv_def tally_word_update fresh_worker_def algebra_simps)
next
  case (failed i e b s')
  then show ?thesis
    using inv start_counters [OF failed(4)]
    by (simp add: counters_inv_def tally_word_update guard_drop_def algebra_simps)
next
  case (counted k)
  then show ?thesis using inv by (simp add: counters_inv_def algebra_simps)
next
  case (iterate i wk msg ns effs ctl wk' s')
  have el: "msg = Elapsed \<Longrightarrow> wk_models wk" using iterate by (simp add: may_elapse_def)
  note wl = worker_loop.pass_loaded [OF loop iterate(5,6) el] worker_loop.pass_live [OF loop iterate(5,6) el]
    worker_loop.pass_exit [OF loop iterate(5,6) el]
  have b: "(of_bool (wk_models wk' \<or> is_fatal_exit ctl) :: 64 word) =
      of_bool (wk_models wk' \<and> ctl = Continue) + of_bool (is_fatal_exit ctl)"
    using wl(3) by (cases ctl) auto
  have P: "of_nat (pl_pending p) = of_nat (tally holds_models (pl_phases p)) +
      of_nat (tally exited_fatally (pl_phases p)) - sh_loaded (pl_shared p)"
    using inv by (simp add: counters_inv_def eq_diff_eq add.commute)
  show ?thesis
    using iterate(1-3) inv
    by (simp add: counters_inv_def tally_word_update after_pass_simps [OF iterate(6)] wl(1,2) b P)
next
  case (retune cm)
  then show ?thesis using inv by (simp add: counters_inv_def)
qed

lemma step_sequential:
  assumes step: "pool_step pass start cfg p p'" and inv: "sequential_inv p"
  shows "sequential_inv p'"
proof -
  let ?S = "\<lambda>ph. ph = Starting"
  have mono: "sequential_inv p'" if upd: "pl_phases p' = (pl_phases p)[i := x]" "i < length (pl_phases p)"
      "x \<noteq> Unspawned" "pl_phases p ! i \<noteq> Unspawned" "x \<noteq> Starting"
      and cnt: "pl_pending p' \<le> pl_pending p + of_bool (pl_phases p ! i = Starting)" for i x
  proof -
    have ord: "pl_phases p' ! k \<noteq> Unspawned \<and> pl_phases p' ! k \<noteq> Starting"
      if "j < length (pl_phases p)" "k < j" "pl_phases p' ! j \<noteq> Unspawned" for j k
    proof -
      have "pl_phases p ! j \<noteq> Unspawned" using that upd by (cases "j = i") auto
      then have "pl_phases p ! k \<noteq> Unspawned \<and> pl_phases p ! k \<noteq> Starting"
        using inv that unfolding sequential_inv_def by blast
      then show ?thesis using upd by (cases "k = i") auto
    qed
    have "pl_pending p' + tally ?S (pl_phases p') \<le> 1"
      using inv tally_update [OF upd(2), of ?S x] upd(1,5) cnt by (simp add: sequential_inv_def)
    then show ?thesis using ord upd(1) by (simp add: sequential_inv_def)
  qed
  from step show ?thesis
  proof cases
    case (spawn i)
    have none: "tally ?S (pl_phases p) = 0"
    proof -
      have "pl_phases p ! j \<noteq> Starting" if "j < length (pl_phases p)" for j
      proof (cases "i < j")
        case True
        then have "pl_phases p ! j = Unspawned" using that spawn(3) inv unfolding sequential_inv_def by blast
        then show ?thesis by simp
      next
        case False
        then show ?thesis using spawn(3,4) by (cases "j = i") auto
      qed
      then show ?thesis by (auto simp: tally_def filter_empty_conv in_set_conv_nth)
    qed
    have "tally ?S ((pl_phases p)[i := Starting]) = 1"
      using tally_update [OF spawn(2), of ?S Starting] spawn(3) none by simp
    then show ?thesis
      using spawn inv unfolding sequential_inv_def
      by (auto simp: nth_list_update split: if_splits)
  next
    case (ready i d s')
    then show ?thesis by (intro mono [of i "Serving fresh_worker"]) auto
  next
    case (failed i e b s')
    then show ?thesis by (intro mono [of i "Exited False"]) auto
  next
    case (iterate i wk msg ns effs ctl wk' s')
    then show ?thesis using after_pass_simps(4,5) [OF iterate(6)] by (intro mono [of i "after_pass ctl wk'"]) auto
  qed (use inv in \<open>auto simp: sequential_inv_def\<close>)
qed

lemma step_breakers:
  assumes step: "pool_step pass start cfg p p'" and inv: "breakers_inv cfg p"
  shows "breakers_inv cfg p'"
  using step
proof cases
  case (iterate i wk msg ns effs ctl wk' s')
  have el: "msg = Elapsed \<Longrightarrow> wk_models wk" using iterate by (simp add: may_elapse_def)
  have "below_threshold (cfg i) wk" using inv iterate by (auto simp: breakers_inv_def)
  from worker_loop.pass_failures [OF loop iterate(5,6) el this]
  show ?thesis using inv iterate by (cases ctl) (auto simp: breakers_inv_def nth_list_update)
qed (use inv in \<open>auto simp: breakers_inv_def nth_list_update fresh_worker_def below_threshold_def split: if_splits\<close>)

lemma step_ceiling: "pool_step pass start cfg p p' \<Longrightarrow> sh_ceiling (pl_shared p) \<le> sh_ceiling (pl_shared p')"
proof (induction rule: pool_step.induct)
  case (iterate i p wk msg ns effs ctl wk' s')
  then show ?case using worker_loop.pass_ceiling [OF loop, of i ns msg wk "pl_shared p"] by (auto simp: may_elapse_def)
qed (use start_counters in \<open>auto simp: guard_drop_def\<close>)

lemma step_length: "pool_step pass start cfg p p' \<Longrightarrow> length (pl_phases p') = length (pl_phases p)"
  by (induction rule: pool_step.induct) auto

lemma reachable_inv:
  assumes "pool_reachable pass start cfg (pool_start n cm w) p"
  shows "counters_inv p \<and> sequential_inv p \<and> breakers_inv cfg p \<and> length (pl_phases p) = n"
  using assms
proof induction
  case reach_init
  have "tally P (replicate n Unspawned) = 0" if "\<not> P Unspawned" for P using that by (simp add: tally_def)
  then show ?case
    by (auto simp: pool_start_def counters_inv_def sequential_inv_def breakers_inv_def)
qed (metis step_counters step_sequential step_breakers step_length)

lemma init_workers_counters:
  "case init_workers start wids rss s of
     (Inr out, s') \<Rightarrow> sh_loaded s' = sh_loaded s + of_nat (length wids) \<and> sh_live s' = sh_live s
   | (Inl e, s') \<Rightarrow> sh_live s' = sh_live s - 1 \<and> (\<exists>k<length wids. sh_loaded s' = sh_loaded s + of_nat k)"
proof (induction wids arbitrary: rss s)
  case (Cons wid wids)
  obtain out s1 where st: "start wid s = (out, s1)" by (cases "start wid s")
  note c = start_counters [OF st]
  show ?case
  proof (cases out)
    case (Startup_Ready d)
    then show ?thesis
      using Cons.IH [where rss = "rss @ [d]" and s = "s1\<lparr>sh_loaded := sh_loaded s1 + 1\<rparr>"] st c
      by (auto simp: algebra_simps split: prod.splits sum.splits)
  next
    case (Startup_Failed e b)
    then show ?thesis using st c by (cases b) (auto simp: guard_drop_def intro!: exI [of _ 0])
  qed
qed simp

lemma init_task_counters:
  "case init_task start n s of
     (Inr rss, s') \<Rightarrow> sh_loaded s' = sh_loaded s + of_nat (max 1 n) \<and> sh_live s' = sh_live s
   | (Inl e, s') \<Rightarrow> sh_live s' = sh_live s - 1 \<and> (\<exists>k<max 1 n. sh_loaded s' = sh_loaded s + of_nat k)"
proof -
  have "length (0 # [1..<n]) = max 1 n" by auto
  then show ?thesis
    using init_workers_counters [where wids = "0 # [1..<n]" and rss = "[]" and s = s]
    by (auto simp: init_task_def simp del: init_workers.simps split: prod.splits sum.splits)
qed

lemma reachable_ceiling:
  assumes "pool_reachable pass start cfg p0 p"
  shows "sh_ceiling (pl_shared p0) \<le> sh_ceiling (pl_shared p)"
  using assms by induction (auto intro: order_trans step_ceiling)

end

lemma startup_counters:
  assumes "startup_worker env config wid s = (out, s')"
  shows "sh_loaded s' = sh_loaded s \<and> sh_live s' = sh_live s \<and> sh_ceiling s \<le> sh_ceiling s'"
  using assms by (auto simp: startup_worker_def prewarm_shard_def Let_def split: sum.splits if_splits prod.splits)

interpretation server: pool_workers "server_pass env config n" "server_start env config n" "make_worker_config config n"
  for env config n
proof (rule pool_workers.intro)
  show "worker_loop (server_pass env config n i) (make_worker_config config n i)" for i
    unfolding server_pass_def by (rule wl.worker_loop_axioms)
qed (simp add: server_start_def startup_counters)

section \<open>Facts about configurations\<close>

lemma make_worker_config_shapes:
  "wc_trt_warmup_shapes (make_worker_config config n wid) =
     (if wc_ep config = TensorRt then shard_shapes (wc_trt_warmup_shapes config) wid n else wc_trt_warmup_shapes config)"
  by (auto simp: make_worker_config_def shard_shapes_def Let_def enumerate_simps)

lemma make_worker_config_device:
  "wc_device_id (make_worker_config config n wid) = to_u32_or 0 wid mod to_u32_or 1 (max (wc_gpu_count config) 1)"
  by (simp add: make_worker_config_def Let_def)

text \<open>The counters as numbers.\<close>

lemma reachable_counters_pending:
  assumes "pool_reachable (server_pass env config n) (server_start env config n) (make_worker_config config n)
      (pool_start n cm w) p"
    and "n < 2 ^ 63"
  shows "unat (sh_live (pl_shared p)) = n - tally has_exited (pl_phases p) \<and>
    unat (sh_loaded (pl_shared p)) =
      (if pl_pending p \<le> tally holds_models (pl_phases p) + tally exited_fatally (pl_phases p)
       then tally holds_models (pl_phases p) + tally exited_fatally (pl_phases p) - pl_pending p
       else 2 ^ 64 - 1) \<and>
    pl_pending p \<le> 1"
proof -
  let ?k = "tally holds_models (pl_phases p) + tally exited_fatally (pl_phases p)"
  have inv: "counters_inv p" "length (pl_phases p) = n" "pl_pending p \<le> 1"
    using server.reachable_inv [OF assms(1)] by (auto simp: sequential_inv_def)
  have b: "tally P (pl_phases p) \<le> n" for P using tally_le [of P "pl_phases p"] inv(2) by simp
  have live: "sh_live (pl_shared p) = of_nat (n - tally has_exited (pl_phases p))"
    using inv b by (simp add: counters_inv_def)
  have loaded: "sh_loaded (pl_shared p) = of_nat ?k - of_nat (pl_pending p)"
    using inv(1) by (simp add: counters_inv_def eq_diff_eq)
  have k: "?k < 2 ^ 64" using b [of holds_models] b [of exited_fatally] assms(2) by simp
  have u: "unat (of_nat j :: 64 word) = j" if "j < 2 ^ 64" for j using that by (simp add: unat_of_nat)
  have "unat (sh_loaded (pl_shared p)) = (if pl_pending p \<le> ?k then ?k - pl_pending p else 2 ^ 64 - 1)"
  proof (cases "pl_pending p \<le> ?k")
    case True
    then have "sh_loaded (pl_shared p) = of_nat (?k - pl_pending p)" unfolding loaded by simp
    then show ?thesis using True k u [of "?k - pl_pending p"] by simp
  next
    case False
    then have "?k = 0" "pl_pending p = 1" using inv(3) by linarith+
    then have "sh_loaded (pl_shared p) = - 1" unfolding loaded by simp
    then show ?thesis using False by (simp add: unsigned_minus_1_eq_mask mask_eq_exp_minus_1)
  qed
  moreover have "unat (sh_live (pl_shared p)) = n - tally has_exited (pl_phases p)"
    unfolding live using assms(2) by (intro u) simp
  ultimately show ?thesis using inv(3) by blast
qed

lemma reachable_counters:
  assumes "pool_reachable (server_pass env config n) (server_start env config n) (make_worker_config config n)
      (pool_start n cm w) p"
    and "n < 2 ^ 63" and "pl_pending p = 0"
  shows "unat (sh_live (pl_shared p)) = n - tally has_exited (pl_phases p) \<and>
    unat (sh_loaded (pl_shared p)) = tally holds_models (pl_phases p) + tally exited_fatally (pl_phases p)"
  using reachable_counters_pending [OF assms(1,2)] assms(3) by simp

section \<open>A pool whose engine cannot be built\<close>

definition fatal_env :: "unit worker_env" where
  "fatal_env = sample_env\<lparr>en_session := \<lambda>ids am. Inl ''failed to build engine'', en_load := Inr ()\<rparr>"

definition fatal_config :: worker_config where
  "fatal_config = sample_config\<lparr>wc_trt_inband_jit_guard_enabled := False, wc_engine_propagation_tx := False\<rparr>"

lemma fatal_message: "is_trt_engine_build_fatal (Context ''Dense embed error'' (Msg ''failed to build engine''))"
    "\<not> is_trt_jit_oom (Msg ''failed to build engine'')"
  by code_simp+

lemma fatal_iteration:
  "\<exists>effs m wk'. worker_iteration fatal_env (make_worker_config fatal_config 1 0) 0 []
     (Request (Dense_Req [''a''] \<lparr>tx_id = 0, tx_closed = False\<rparr>)) fresh_worker s =
     (effs, Exit_Error m, wk', guard_drop s)"
proof -
  let ?c = "make_worker_config fatal_config 1 0"
  have "embed_dense (en_session fatal_env) (en_tokenizer fatal_env) (en_timing fatal_env) [''a''] cm (wc_model_variant ?c) None =
      Inl (Err (Msg ''failed to build engine''))" for cm
    by (simp add: embed_dense_def embed_route_def tokenize_no_pad_def fatal_env_def sample_env_def sample_tok_def
        guard_chunks_def bin_pack_def pack_order_def sorted_indices_def chunk_tensor_def build_chunk_arrays_def
        from_shape_vec_def chunk_pad_def list_max_def Let_def)
  moreover have "build_shape_guard ?c k = None" "wc_engine_propagation_tx ?c = False" for k
    by (simp_all add: build_shape_guard_def fatal_config_def make_worker_config_def Let_def sample_config_def)
  ultimately show ?thesis
    using fatal_message
    by (simp add: worker_iteration_def drain_peers_def fresh_worker_def serve_loaded_def dispatch_embed_def
        embed_with_trt_retry_def finalize_embed_route_def classify_inference_outcome_def Let_def)
qed

text \<open>A pool of one worker whose start-up succeeds: spawned, ready, counted.\<close>

lemma one_worker_signalled:
  fixes cm w
  defines "p0 \<equiv> pool_start 1 cm w"
  assumes "server_start env config 1 0 (pl_shared p0) = (Startup_Ready d, pl_shared p0)"
  shows "pool_reachable (server_pass env config 1) (server_start env config 1) (make_worker_config config 1) p0
    (p0\<lparr>pl_phases := [Serving fresh_worker], pl_pending := 1\<rparr>)"
proof -
  let ?pass = "server_pass env config 1" and ?start = "server_start env config 1" and ?cfg = "make_worker_config config 1"
  have "pool_step ?pass ?start ?cfg p0 (p0\<lparr>pl_phases := [Starting]\<rparr>)" (is "pool_step _ _ _ _ ?p1")
    using pool_step.spawn [of 0 p0 ?pass ?start ?cfg] by (simp add: p0_def pool_start_def)
  then have r1: "pool_reachable ?pass ?start ?cfg p0 ?p1" by (rule reach_step [OF reach_init])
  have "pool_step ?pass ?start ?cfg ?p1 (p0\<lparr>pl_phases := [Serving fresh_worker], pl_pending := 1\<rparr>)"
    using pool_step.ready [of 0 ?p1 ?start d "pl_shared p0" ?pass ?cfg] assms(2) by (simp add: p0_def pool_start_def)
  then show ?thesis by (rule reach_step [OF r1])
qed

lemma one_worker_ready:
  fixes cm w
  defines "p0 \<equiv> pool_start 1 cm w"
  assumes "server_start env config 1 0 (pl_shared p0) = (Startup_Ready d, pl_shared p0)"
  shows "pool_reachable (server_pass env config 1) (server_start env config 1) (make_worker_config config 1) p0
    (p0\<lparr>pl_phases := [Serving fresh_worker], pl_shared := (pl_shared p0)\<lparr>sh_loaded := 1\<rparr>\<rparr>)"
proof -
  let ?pass = "server_pass env config 1" and ?start = "server_start env config 1" and ?cfg = "make_worker_config config 1"
  have r2: "pool_reachable ?pass ?start ?cfg p0 (p0\<lparr>pl_phases := [Serving fresh_worker], pl_pending := 1\<rparr>)"
    (is "pool_reachable _ _ _ _ ?p2")
    using assms unfolding p0_def by (intro one_worker_signalled)
  have "pool_step ?pass ?start ?cfg ?p2
      (p0\<lparr>pl_phases := [Serving fresh_worker], pl_shared := (pl_shared p0)\<lparr>sh_loaded := 1\<rparr>\<rparr>)" (is "pool_step _ _ _ _ ?p3")
    using pool_step.counted [of ?p2 0 ?pass ?start ?cfg] by (simp add: p0_def pool_start_def)
  then show ?thesis by (rule reach_step [OF r2])
qed

lemma fatal_start:
  "server_start (\<lambda>i. fatal_env) fatal_config 1 0 s = (Startup_Ready 20, s)"
  by (simp add: server_start_def startup_worker_def prewarm_shard_def fatal_env_def fatal_config_def sample_env_def
      sample_config_def make_worker_config_def run_cache_gc_def Let_def)

text \<open>The worker unloads on its idle timeout before the init task has counted it.\<close>

lemma idle_before_counted:
  "\<exists>p. pool_reachable (server_pass (\<lambda>i. fatal_env) fatal_config 1) (server_start (\<lambda>i. fatal_env) fatal_config 1)
      (make_worker_config fatal_config 1) (pool_start 1 (conservative 0) ()) p \<and> pl_pending p = 1 \<and>
    pl_phases p = [Serving (fresh_worker\<lparr>wk_models := False\<rparr>)]"
proof -
  let ?pass = "server_pass (\<lambda>i. fatal_env) fatal_config 1" and ?start = "server_start (\<lambda>i. fatal_env) fatal_config 1"
    and ?cfg = "make_worker_config fatal_config 1" and ?p0 = "pool_start 1 (conservative 0) ()"
  let ?p2 = "?p0\<lparr>pl_phases := [Serving fresh_worker], pl_pending := 1\<rparr>" and ?wk = "fresh_worker\<lparr>wk_models := False\<rparr>"
  let ?s = "(pl_shared ?p0)\<lparr>sh_loaded := sh_loaded (pl_shared ?p0) - 1\<rparr>"
  have r2: "pool_reachable ?pass ?start ?cfg ?p0 ?p2" by (rule one_worker_signalled [OF fatal_start])
  have "may_elapse (?cfg 0) fresh_worker"
    by (simp add: may_elapse_def fresh_worker_def make_worker_config_def fatal_config_def sample_config_def Let_def)
  moreover have "?pass 0 [] Elapsed fresh_worker (pl_shared ?p0) = ([], Continue, ?wk, ?s)"
    by (simp add: server_pass_def worker_iteration_def drain_peers_def fresh_worker_def)
  ultimately have "pool_step ?pass ?start ?cfg ?p2 (?p2\<lparr>pl_phases := [Serving ?wk], pl_shared := ?s\<rparr>)"
    using pool_step.iterate [of 0 ?p2 fresh_worker Elapsed ?cfg ?pass "[]" "[]" Continue ?wk ?s ?start]
    by (simp add: pool_start_def)
  then have "pool_reachable ?pass ?start ?cfg ?p0 (?p2\<lparr>pl_phases := [Serving ?wk], pl_shared := ?s\<rparr>)"
    by (rule reach_step [OF r2])
  then show ?thesis by (intro exI conjI) (assumption, simp_all)
qed

lemma fatal_run:
  "\<exists>p. pool_reachable (server_pass (\<lambda>i. fatal_env) fatal_config 1) (server_start (\<lambda>i. fatal_env) fatal_config 1)
      (make_worker_config fatal_config 1) (pool_start 1 (conservative 0) ()) p \<and> pl_pending p = 0 \<and>
    pl_phases p = [Exited True] \<and> sh_live (pl_shared p) = 0 \<and> sh_loaded (pl_shared p) = 1"
proof -
  let ?pass = "server_pass (\<lambda>i. fatal_env) fatal_config 1" and ?start = "server_start (\<lambda>i. fatal_env) fatal_config 1"
    and ?cfg = "make_worker_config fatal_config 1" and ?p0 = "pool_start 1 (conservative 0) ()"
  let ?s1 = "(pl_shared ?p0)\<lparr>sh_loaded := 1\<rparr>"
  let ?p3 = "?p0\<lparr>pl_phases := [Serving fresh_worker], pl_shared := ?s1\<rparr>"
  have r3: "pool_reachable ?pass ?start ?cfg ?p0 ?p3" by (rule one_worker_ready [OF fatal_start])
  obtain effs m wk' where it: "?pass 0 [] (Request (Dense_Req [''a''] \<lparr>tx_id = 0, tx_closed = False\<rparr>)) fresh_worker ?s1 =
      (effs, Exit_Error m, wk', guard_drop ?s1)"
    using fatal_iteration [of ?s1] unfolding server_pass_def by blast
  have "pool_step ?pass ?start ?cfg ?p3 (?p3\<lparr>pl_phases := [Exited True], pl_shared := guard_drop ?s1\<rparr>)" (is "pool_step _ _ _ _ ?p4")
    using pool_step.iterate [of 0 ?p3 fresh_worker "Request (Dense_Req [''a''] \<lparr>tx_id = 0, tx_closed = False\<rparr>)" ?cfg ?pass "[]"
        effs "Exit_Error m" wk' "guard_drop ?s1" ?start] it
    by (simp add: pool_start_def)
  then have "pool_reachable ?pass ?start ?cfg ?p0 ?p4" by (rule reach_step [OF r3])
  then show ?thesis
    by (intro exI [of _ ?p4]) (simp add: guard_drop_def pool_start_def tally_def)
qed

section \<open>Properties\<close>

text \<open>
  C11: the two counters are exact in every reachable state of the pool. The live counter is the number of
  workers that have not exited. The loaded counter is the number of workers holding models plus the
  number that left on a fatal TensorRT error, less the one worker whose readiness signal the init task
  has not yet counted. When that worker has already unloaded and nothing else is counted, the
  subtraction came before the addition and the counter reads the largest 64-bit word.
\<close>

theorem pool_counters_exact:
  assumes "pool_reachable (server_pass env config n) (server_start env config n) (make_worker_config config n)
      (pool_start n cm w) p"
    and "n < 2 ^ 63"
  shows "unat (sh_live (pl_shared p)) = n - tally has_exited (pl_phases p) \<and>
    unat (sh_loaded (pl_shared p)) =
      (if pl_pending p \<le> tally holds_models (pl_phases p) + tally exited_fatally (pl_phases p)
       then tally holds_models (pl_phases p) + tally exited_fatally (pl_phases p) - pl_pending p
       else 2 ^ 64 - 1) \<and>
    pl_pending p \<le> 1"
  using assms by (rule reachable_counters_pending)

theorem pool_counters_exact_witness:
  "\<exists>p q. pool_reachable (server_pass (\<lambda>i. fatal_env) fatal_config 1) (server_start (\<lambda>i. fatal_env) fatal_config 1)
      (make_worker_config fatal_config 1) (pool_start 1 (conservative 0) ()) p \<and>
    pool_reachable (server_pass (\<lambda>i. fatal_env) fatal_config 1) (server_start (\<lambda>i. fatal_env) fatal_config 1)
      (make_worker_config fatal_config 1) (pool_start 1 (conservative 0) ()) q \<and>
    unat (sh_loaded (pl_shared p)) = 1 \<and> unat (sh_live (pl_shared p)) = 0 \<and> unat (sh_loaded (pl_shared q)) = 2 ^ 64 - 1"
proof -
  note exact = pool_counters_exact [where env = "\<lambda>i. fatal_env" and config = fatal_config and n = 1
      and cm = "conservative 0" and w = "()"]
  obtain p where p: "pool_reachable (server_pass (\<lambda>i. fatal_env) fatal_config 1) (server_start (\<lambda>i. fatal_env) fatal_config 1)
      (make_worker_config fatal_config 1) (pool_start 1 (conservative 0) ()) p" "pl_pending p = 0" "pl_phases p = [Exited True]"
    using fatal_run by blast
  obtain q where q: "pool_reachable (server_pass (\<lambda>i. fatal_env) fatal_config 1) (server_start (\<lambda>i. fatal_env) fatal_config 1)
      (make_worker_config fatal_config 1) (pool_start 1 (conservative 0) ()) q" "pl_pending q = 1"
      "pl_phases q = [Serving (fresh_worker\<lparr>wk_models := False\<rparr>)]"
    using idle_before_counted by blast
  show ?thesis using exact [OF p(1)] exact [OF q(1)] p q by (auto simp: tally_def)
qed

text \<open>
  Workers load their models strictly one after the other. In every reachable state at most one
  worker is starting or waiting to be counted, and no worker has been spawned while an earlier one
  was unspawned or still starting, so the per-worker memory measurements never overlap.
\<close>

theorem pool_start_sequential:
  assumes "pool_reachable (server_pass env config n) (server_start env config n) (make_worker_config config n)
      (pool_start n cm w) p"
  shows "pl_pending p + tally (\<lambda>ph. ph = Starting) (pl_phases p) \<le> 1 \<and>
    (\<forall>j<n. \<forall>i<j. pl_phases p ! j \<noteq> Unspawned \<longrightarrow> pl_phases p ! i \<noteq> Unspawned \<and> pl_phases p ! i \<noteq> Starting)"
  using server.reachable_inv [OF assms] by (auto simp: sequential_inv_def)

theorem pool_start_sequential_witness:
  "\<exists>p. pool_reachable (server_pass (\<lambda>i. fatal_env) fatal_config 1) (server_start (\<lambda>i. fatal_env) fatal_config 1)
      (make_worker_config fatal_config 1) (pool_start 1 (conservative 0) ()) p \<and>
    pl_pending p + tally (\<lambda>ph. ph = Starting) (pl_phases p) \<le> 1"
  using fatal_run pool_start_sequential [where env = "\<lambda>i. fatal_env" and config = fatal_config and n = 1] by blast

text \<open>
  A worker that leaves on a fatal TensorRT engine error is never subtracted from the loaded
  counter. There is a run of a one-worker pool that ends with no live worker and a loaded count of 1.
\<close>

theorem fatal_exit_stays_loaded:
  "\<exists>p. pool_reachable (server_pass (\<lambda>i. fatal_env) fatal_config 1) (server_start (\<lambda>i. fatal_env) fatal_config 1)
      (make_worker_config fatal_config 1) (pool_start 1 (conservative 0) ()) p \<and>
    unat (sh_live (pl_shared p)) = 0 \<and> unat (sh_loaded (pl_shared p)) = 1 \<and> tally holds_models (pl_phases p) = 0"
  using fatal_run by (auto simp: tally_def)

text \<open>
  On a GPU provider every worker of the clamped pool has a device of its own, and the devices
  exist: worker \<open>i\<close> is bound to device \<open>i\<close>, and the number of workers never exceeds the number of devices.
\<close>

theorem worker_devices_distinct:
  assumes "wc_ep config \<noteq> Cpu" and "1 \<le> wc_gpu_count config" "wc_gpu_count config \<le> u32_max"
    and "i < clamp_workers config n"
  shows "wc_device_id (make_worker_config config (clamp_workers config n) i) = i \<and> i < wc_gpu_count config"
proof -
  have i: "i < wc_gpu_count config" using assms by (auto simp: clamp_workers_def Let_def max_def split: if_splits)
  then show ?thesis using assms(2,3) by (simp add: make_worker_config_device to_u32_or_def max_def)
qed

theorem worker_devices_distinct_witness:
  "wc_device_id (make_worker_config (sample_config\<lparr>wc_gpu_count := 4\<rparr>) (clamp_workers (sample_config\<lparr>wc_gpu_count := 4\<rparr>) 9) 3) = 3"
  using worker_devices_distinct [of "sample_config\<lparr>wc_gpu_count := 4\<rparr>" 3 9]
  by (simp add: sample_config_def u32_max_def clamp_workers_def)

text \<open>
  With TensorRT, the warm-up lists of the workers together are the configured list: no shape is
  left out and none is compiled twice.
\<close>

theorem worker_shards_complete:
  assumes "wc_ep config = TensorRt" and "0 < n"
  shows "(\<Sum>w<n. mset (wc_trt_warmup_shapes (make_worker_config config n w))) = mset (wc_trt_warmup_shapes config)"
  using assms shard_partition [OF assms(2)] by (simp add: make_worker_config_shapes)

theorem worker_shards_complete_witness:
  "(\<Sum>w<2. mset (wc_trt_warmup_shapes (make_worker_config (sample_config\<lparr>wc_trt_warmup_shapes := [(1, 128), (1, 512), (2, 128)]\<rparr>) 2 w))) =
     mset [(1, 128), (1, 512), (2, 128)]"
  using worker_shards_complete [of "sample_config\<lparr>wc_trt_warmup_shapes := [(1, 128), (1, 512), (2, 128)]\<rparr>" 2]
  by (simp add: sample_config_def)

text \<open>
  The init task either counts every worker as loaded, each exactly once, or reports an error
  after counting a proper prefix of them and losing exactly the one worker that failed.
\<close>

theorem init_task_outcome:
  "case init_task (server_start env config n) n s of
     (Inr rss, s') \<Rightarrow> sh_loaded s' = sh_loaded s + of_nat (max 1 n) \<and> sh_live s' = sh_live s
   | (Inl e, s') \<Rightarrow> sh_live s' = sh_live s - 1 \<and> (\<exists>k<max 1 n. sh_loaded s' = sh_loaded s + of_nat k)"
  using server.init_task_counters [where env = env and config = config and n = n and na = n and s = s] by (auto split: prod.splits sum.splits)

end
