(* ===== verification/Adaptive_Warmup.thy ===== *)
theory Adaptive_Warmup
  imports Pool
begin

text \<open>
  The adaptive warm-up task of \<open>src/embedder/adaptive_warmup.rs\<close>. One round of its loop is a function of
  the task's state and of what it observes in the round: the suspects in the channel, the clock, the depth of the
  request queue second by second, and the answer of the pool. Times are nanoseconds.
\<close>

section \<open>State and observations\<close>

record adaptive_warmup_config =
  ac_enabled :: bool
  ac_quiet_secs :: nat
  ac_max_shapes_per_hour :: nat

record aw_state =
  aw_pending :: "shape list"
  aw_warmed :: "shape set"
  aw_shapes_this_hour :: "32 word"
  aw_hour_start :: nat

datatype recv_outcome = Got shape | Suspects_Closed | Recv_Timeout

text \<open>\<open>Pool_Closed\<close>: the request could not be sent. \<open>Ack_Dropped\<close>: the worker went away without an answer.\<close>

datatype warmup_ack = Pool_Closed | Ack_Ok nat | Ack_Err any_error | Ack_Dropped

record aw_input =
  ai_drained :: "shape list"
  ai_now :: nat
  ai_reset_at :: nat
  ai_recv :: recv_outcome
  ai_queue_depth :: nat
  ai_ticks :: "nat \<Rightarrow> shape list \<times> nat"
  ai_ack :: warmup_ack

datatype aw_event = Fired shape | Warmed shape | Ready_Broadcast shape

definition ONE_HOUR :: nat where "ONE_HOUR = 3600 * 10 ^ 9"

definition aw_start :: "nat \<Rightarrow> aw_state" where
  "aw_start now = \<lparr>aw_pending = [], aw_warmed = {}, aw_shapes_this_hour = 0, aw_hour_start = now\<rparr>"

section \<open>The loop\<close>

definition add_suspect :: "shape set \<Rightarrow> shape \<Rightarrow> shape list \<Rightarrow> shape list" where
  "add_suspect warmed shape pending =
     (if shape \<notin> warmed \<and> shape \<notin> set pending then pending @ [shape] else pending)"

definition drain_rx :: "shape set \<Rightarrow> shape list \<Rightarrow> shape list \<Rightarrow> shape list" where
  "drain_rx warmed arrivals pending = fold (add_suspect warmed) arrivals pending"

text \<open>
  Second \<open>k\<close> of the quiet window: the suspects that arrived in it and the queue depth at its end. The counter
  of idle seconds is the index, since a busy second ends the wait.
\<close>

function quiet_loop :: "nat \<Rightarrow> (nat \<Rightarrow> shape list \<times> nat) \<Rightarrow> shape set \<Rightarrow> nat \<Rightarrow> shape list \<Rightarrow> bool \<times> shape list" where
  "quiet_loop quiet_secs ticks warmed consecutive_idle pending =
     (let pending' = drain_rx warmed (fst (ticks consecutive_idle)) pending
      in if snd (ticks consecutive_idle) = 0
         then if quiet_secs \<le> consecutive_idle + 1 then (True, pending')
              else quiet_loop quiet_secs ticks warmed (consecutive_idle + 1) pending'
         else (False, pending'))"
  by pat_completeness auto
termination
  by (relation "measure (\<lambda>(q, _, _, k, _). q - k)") auto

declare quiet_loop.simps [simp del]

definition wait_for_quiet_window ::
  "nat \<Rightarrow> (nat \<Rightarrow> shape list \<times> nat) \<Rightarrow> shape set \<Rightarrow> shape list \<Rightarrow> bool \<times> shape list" where
  "wait_for_quiet_window quiet_secs ticks warmed pending =
     (if quiet_secs = 0 then (True, pending) else quiet_loop quiet_secs ticks warmed 0 pending)"

definition broadcast_engine_ready :: "bool \<Rightarrow> shape \<Rightarrow> aw_event list" where
  "broadcast_engine_ready has_tx shape = (if has_tx then [Ready_Broadcast shape] else [])"

text \<open>Send the first pending shape to the pool and wait for the answer. The flag is false when the task ends.\<close>

definition fire_first :: "bool \<Rightarrow> warmup_ack \<Rightarrow> aw_state \<Rightarrow> aw_event list \<times> bool \<times> aw_state" where
  "fire_first has_tx ack st =
     (case aw_pending st of
        [] \<Rightarrow> ([], True, st)
      | shape # _ \<Rightarrow>
          let removed = st\<lparr>aw_pending := remove1 shape (aw_pending st)\<rparr>
          in case ack of
               Pool_Closed \<Rightarrow> ([], False, st)
             | Ack_Ok compile_ms \<Rightarrow>
                 (Fired shape # Warmed shape # (if 0 < compile_ms then broadcast_engine_ready has_tx shape else []),
                  True,
                  removed\<lparr>aw_warmed := insert shape (aw_warmed st), aw_shapes_this_hour := aw_shapes_this_hour st + 1\<rparr>)
             | Ack_Err _ \<Rightarrow> ([Fired shape], True, removed)
             | Ack_Dropped \<Rightarrow> ([Fired shape], True, removed))"

definition reset_budget :: "aw_input \<Rightarrow> aw_state \<Rightarrow> aw_state" where
  "reset_budget inp st =
     (if ONE_HOUR \<le> ai_now inp - aw_hour_start st
      then st\<lparr>aw_shapes_this_hour := 0, aw_hour_start := ai_reset_at inp\<rparr> else st)"

definition warmup_round ::
  "adaptive_warmup_config \<Rightarrow> bool \<Rightarrow> aw_input \<Rightarrow> aw_state \<Rightarrow> aw_event list \<times> bool \<times> aw_state" where
  "warmup_round config has_tx inp st =
     (let st1 = reset_budget inp (st\<lparr>aw_pending := drain_rx (aw_warmed st) (ai_drained inp) (aw_pending st)\<rparr>)
      in if aw_pending st1 = [] \<or> ac_max_shapes_per_hour config \<le> unat (aw_shapes_this_hour st1)
         then (case ai_recv inp of
                 Got shape \<Rightarrow> ([], True, st1\<lparr>aw_pending := add_suspect (aw_warmed st1) shape (aw_pending st1)\<rparr>)
               | Suspects_Closed \<Rightarrow> ([], False, st1)
               | Recv_Timeout \<Rightarrow> ([], True, st1))
         else if 0 < ai_queue_depth inp then ([], True, st1)
         else let (idle, pending) =
                    wait_for_quiet_window (ac_quiet_secs config) (ai_ticks inp) (aw_warmed st1) (aw_pending st1);
                  st2 = st1\<lparr>aw_pending := pending\<rparr>
              in if idle then fire_first has_tx (ai_ack inp) st2 else ([], True, st2))"

fun run_adaptive_warmup_loop ::
  "adaptive_warmup_config \<Rightarrow> bool \<Rightarrow> aw_input list \<Rightarrow> aw_state \<Rightarrow> aw_event list \<times> bool \<times> aw_state" where
  "run_adaptive_warmup_loop config has_tx [] st = ([], True, st)"
| "run_adaptive_warmup_loop config has_tx (inp # inps) st =
     (case warmup_round config has_tx inp st of
        (ev, False, st') \<Rightarrow> (ev, False, st')
      | (ev, True, st') \<Rightarrow>
          (case run_adaptive_warmup_loop config has_tx inps st' of (ev', alive, st'') \<Rightarrow> (ev @ ev', alive, st'')))"

text \<open>A disabled task does nothing: it ends at once.\<close>

definition spawn_adaptive_warmup ::
  "adaptive_warmup_config \<Rightarrow> bool \<Rightarrow> nat \<Rightarrow> aw_input list \<Rightarrow> aw_event list \<times> bool \<times> aw_state" where
  "spawn_adaptive_warmup config has_tx now inps =
     (if \<not> ac_enabled config then ([], False, aw_start now)
      else run_adaptive_warmup_loop config has_tx inps (aw_start now))"

section \<open>Facts\<close>

definition fired_shapes :: "aw_event list \<Rightarrow> shape list" where
  "fired_shapes evs = List.map_filter (\<lambda>e. case e of Fired s \<Rightarrow> Some s | _ \<Rightarrow> None) evs"

definition warmed_shapes :: "aw_event list \<Rightarrow> shape list" where
  "warmed_shapes evs = List.map_filter (\<lambda>e. case e of Warmed s \<Rightarrow> Some s | _ \<Rightarrow> None) evs"

lemma event_projections [simp]:
  "fired_shapes [] = []" "warmed_shapes [] = []"
  "fired_shapes (e # es) = (case e of Fired s \<Rightarrow> s # fired_shapes es | _ \<Rightarrow> fired_shapes es)"
  "warmed_shapes (e # es) = (case e of Warmed s \<Rightarrow> s # warmed_shapes es | _ \<Rightarrow> warmed_shapes es)"
  "fired_shapes (es @ es') = fired_shapes es @ fired_shapes es'"
  "warmed_shapes (es @ es') = warmed_shapes es @ warmed_shapes es'"
  "fired_shapes (broadcast_engine_ready b s) = []" "warmed_shapes (broadcast_engine_ready b s) = []"
  by (auto simp: fired_shapes_def warmed_shapes_def List.map_filter_def broadcast_engine_ready_def split: aw_event.split)

text \<open>Pending shapes are distinct and not yet warmed; draining only appends.\<close>

definition pending_ok :: "shape set \<Rightarrow> shape list \<Rightarrow> bool" where
  "pending_ok warmed pending \<longleftrightarrow> distinct pending \<and> set pending \<inter> warmed = {}"

lemma add_suspect_ok: "pending_ok w p \<Longrightarrow> pending_ok w (add_suspect w s p)"
  by (auto simp: pending_ok_def add_suspect_def)

lemma drain_rx_ok: "pending_ok w p \<Longrightarrow> pending_ok w (drain_rx w arr p)"
  unfolding drain_rx_def by (induction arr arbitrary: p) (simp_all add: add_suspect_ok)

lemma drain_rx_appends: "\<exists>q. drain_rx w arr p = p @ q"
proof (induction arr arbitrary: p)
  case (Cons s arr)
  have "\<exists>q. add_suspect w s p = p @ q" by (auto simp: add_suspect_def)
  then show ?case using Cons.IH [of "add_suspect w s p"] unfolding drain_rx_def by auto
qed (simp add: drain_rx_def)

lemma quiet_loop_pending:
  "pending_ok w p \<Longrightarrow> pending_ok w (snd (quiet_loop q t w k p)) \<and> (\<exists>r. snd (quiet_loop q t w k p) = p @ r)"
proof (induction q t w k p rule: quiet_loop.induct)
  case (1 q t w k p)
  obtain r where r: "drain_rx w (fst (t k)) p = p @ r" using drain_rx_appends by blast
  show ?case
    using 1(1) [OF refl] drain_rx_ok [OF 1(2), of "fst (t k)"] r
    by (subst (1 2) quiet_loop.simps) (fastforce simp: Let_def)
qed

lemma wait_for_quiet_window_pending:
  assumes "pending_ok w p"
  shows "pending_ok w (snd (wait_for_quiet_window q t w p)) \<and> (\<exists>r. snd (wait_for_quiet_window q t w p) = p @ r)"
  using quiet_loop_pending [OF assms] assms by (simp add: wait_for_quiet_window_def)

lemma quiet_loop_idle: "(\<And>j. k \<le> j \<Longrightarrow> j < q \<Longrightarrow> snd (t j) = 0) \<Longrightarrow> k < q \<Longrightarrow> fst (quiet_loop q t w k p)"
proof (induction q t w k p rule: quiet_loop.induct)
  case (1 q t w k p)
  then show ?case by (subst quiet_loop.simps) (auto simp: Let_def not_le)
qed

lemma wait_for_quiet_window_idle: "(\<And>j. j < q \<Longrightarrow> snd (t j) = 0) \<Longrightarrow> fst (wait_for_quiet_window q t w p)"
  by (auto simp: wait_for_quiet_window_def intro: quiet_loop_idle)

text \<open>What one round does to the state: at most one shape is sent, it is a new one, and it counts when it was warmed.\<close>

definition round_ok :: "adaptive_warmup_config \<Rightarrow> aw_state \<Rightarrow> aw_event list \<Rightarrow> aw_state \<Rightarrow> bool" where
  "round_ok config st1 ev st' \<longleftrightarrow>
     pending_ok (aw_warmed st') (aw_pending st') \<and>
     aw_warmed st' = aw_warmed st1 \<union> set (warmed_shapes ev) \<and> distinct (warmed_shapes ev) \<and>
     set (fired_shapes ev) \<inter> aw_warmed st1 = {} \<and> set (warmed_shapes ev) \<subseteq> set (fired_shapes ev) \<and>
     unat (aw_shapes_this_hour st') = unat (aw_shapes_this_hour st1) + length (warmed_shapes ev) \<and>
     (warmed_shapes ev = [] \<or> unat (aw_shapes_this_hour st') \<le> ac_max_shapes_per_hour config) \<and>
     aw_hour_start st' = aw_hour_start st1"

lemma unat_succ: "unat w < n \<Longrightarrow> n \<le> u32_max \<Longrightarrow> unat (w + 1) = unat w + 1" for w :: "32 word"
  by (simp add: unat_word_ariths u32_max_def)

lemma fire_first_ok:
  assumes "fire_first has_tx ack st = (ev, alive, st')" and "pending_ok (aw_warmed st) (aw_pending st)"
    and "unat (aw_shapes_this_hour st) < ac_max_shapes_per_hour config" and "ac_max_shapes_per_hour config \<le> u32_max"
  shows "round_ok config st ev st'"
  using assms unat_succ [OF assms(3,4)]
  by (cases "aw_pending st"; cases ack) (auto simp: fire_first_def round_ok_def pending_ok_def Let_def split: if_splits)

lemma reset_budget_simps [simp]:
  "aw_pending (reset_budget inp st) = aw_pending st" "aw_warmed (reset_budget inp st) = aw_warmed st"
  by (simp_all add: reset_budget_def)

lemma round_idle_ok:
  "pending_ok (aw_warmed st) p \<Longrightarrow> round_ok config st [] (st\<lparr>aw_pending := p\<rparr>)"
  by (simp add: round_ok_def)

lemma warmup_round_ok:
  assumes "warmup_round config has_tx inp st = (ev, alive, st')" and "pending_ok (aw_warmed st) (aw_pending st)"
    and "ac_max_shapes_per_hour config \<le> u32_max"
  shows "round_ok config (reset_budget inp st) ev st'"
proof -
  define p where "p = drain_rx (aw_warmed st) (ai_drained inp) (aw_pending st)"
  define st1 where "st1 = reset_budget inp st"
  have r: "reset_budget inp (st\<lparr>aw_pending := p\<rparr>) = st1\<lparr>aw_pending := p\<rparr>" by (simp add: reset_budget_def st1_def)
  have w: "aw_warmed st1 = aw_warmed st" by (simp add: st1_def)
  have ok: "pending_ok (aw_warmed st1) p" unfolding p_def w by (rule drain_rx_ok [OF assms(2)])
  obtain idle q where q: "wait_for_quiet_window (ac_quiet_secs config) (ai_ticks inp) (aw_warmed st1) p = (idle, q)"
    by fastforce
  have qok: "pending_ok (aw_warmed st1) q"
    using wait_for_quiet_window_pending [OF ok, of "ac_quiet_secs config" "ai_ticks inp"] q by simp
  have fire: "round_ok config st1 ev st'" if "fire_first has_tx (ai_ack inp) (st1\<lparr>aw_pending := q\<rparr>) = (ev, alive, st')"
      "unat (aw_shapes_this_hour st1) < ac_max_shapes_per_hour config"
    using fire_first_ok [OF that(1), of config] that(2) qok assms(3) by (auto simp: round_ok_def)
  show ?thesis
    using assms(1) ok qok add_suspect_ok [OF ok] fire
    unfolding warmup_round_def p_def [symmetric] r st1_def [symmetric]
    by (auto simp: Let_def q not_le round_idle_ok split: if_splits recv_outcome.splits)
qed

lemma reset_budget_bound:
  "unat (aw_shapes_this_hour (reset_budget inp st)) \<le> unat (aw_shapes_this_hour st)"
  by (simp add: reset_budget_def)

text \<open>Induction over the rounds of a run: it is over, it ends with this round, or it goes on.\<close>

lemma run_induct [consumes 1, case_names over stop further]:
  assumes "run_adaptive_warmup_loop config has_tx inps st = (ev, alive, st')"
    and "\<And>st. P [] st [] True st"
    and "\<And>inp inps st ev st'. warmup_round config has_tx inp st = (ev, False, st') \<Longrightarrow> P (inp # inps) st ev False st'"
    and "\<And>inp inps st ev1 st1 ev2 alive st'. warmup_round config has_tx inp st = (ev1, True, st1) \<Longrightarrow>
      run_adaptive_warmup_loop config has_tx inps st1 = (ev2, alive, st') \<Longrightarrow> P inps st1 ev2 alive st' \<Longrightarrow>
      P (inp # inps) st (ev1 @ ev2) alive st'"
  shows "P inps st ev alive st'"
  using assms(1)
proof (induction inps arbitrary: st ev)
  case (Cons inp inps)
  obtain ev1 a1 st1 where r: "warmup_round config has_tx inp st = (ev1, a1, st1)" by (cases "warmup_round config has_tx inp st")
  show ?case
  proof (cases a1)
    case True
    then obtain ev2 where "run_adaptive_warmup_loop config has_tx inps st1 = (ev2, alive, st')" "ev = ev1 @ ev2"
      using Cons.prems r by (auto split: prod.splits)
    then show ?thesis using assms(4) [of inp st ev1 st1] Cons.IH r True by simp
  qed (use Cons.prems r assms(3) in auto)
qed (use assms(2) in simp)

lemmas round_facts = warmup_round_ok [unfolded round_ok_def]

text \<open>The whole run: a shape is warmed at most once and never sent again afterwards.\<close>

lemma run_once:
  assumes "run_adaptive_warmup_loop config has_tx inps st = (ev, alive, st')"
    and "pending_ok (aw_warmed st) (aw_pending st)" and "ac_max_shapes_per_hour config \<le> u32_max"
  shows "pending_ok (aw_warmed st') (aw_pending st') \<and> aw_warmed st' = aw_warmed st \<union> set (warmed_shapes ev) \<and>
    distinct (warmed_shapes ev) \<and> set (fired_shapes ev) \<inter> aw_warmed st = {} \<and>
    set (warmed_shapes ev) \<subseteq> set (fired_shapes ev)"
  using assms
proof (induction rule: run_induct)
  case (stop inp inps st ev st')
  then show ?case using round_facts [OF stop(1-3)] by auto
next
  case (further inp inps st ev1 st1 ev2 alive st')
  note r = round_facts [OF further(1,4,5)]
  have "distinct (warmed_shapes ev1 @ warmed_shapes ev2)" using r further(3,5) by fastforce
  then show ?case using r further(3,5) by auto
qed simp

lemma run_budget:
  assumes "run_adaptive_warmup_loop config has_tx inps st = (ev, alive, st')"
    and "pending_ok (aw_warmed st) (aw_pending st)" and "ac_max_shapes_per_hour config \<le> u32_max"
    and "list_all (\<lambda>inp. ai_now inp - aw_hour_start st < ONE_HOUR) inps"
    and "unat (aw_shapes_this_hour st) \<le> ac_max_shapes_per_hour config"
  shows "unat (aw_shapes_this_hour st) + length (warmed_shapes ev) \<le> ac_max_shapes_per_hour config"
  using assms
proof (induction rule: run_induct)
  case (stop inp inps st ev st')
  have "reset_budget inp st = st" using stop(4) by (simp add: reset_budget_def)
  then show ?case using round_facts [OF stop(1-3)] stop(5) by auto
next
  case (further inp inps st ev1 st1 ev2 alive st')
  have "reset_budget inp st = st" using further(6) by (simp add: reset_budget_def)
  then show ?case using round_facts [OF further(1,4,5)] further(3,5,6,7) by auto
qed simp

lemma run_counter_bound:
  assumes "run_adaptive_warmup_loop config has_tx inps st = (ev, alive, st')"
    and "pending_ok (aw_warmed st) (aw_pending st)" and "ac_max_shapes_per_hour config \<le> u32_max"
    and "unat (aw_shapes_this_hour st) \<le> ac_max_shapes_per_hour config"
  shows "unat (aw_shapes_this_hour st') \<le> ac_max_shapes_per_hour config"
  using assms
proof (induction rule: run_induct)
  case (stop inp inps st ev st')
  then show ?case using round_facts [OF stop(1-3)] reset_budget_bound [of inp st] by auto
next
  case (further inp inps st ev1 st1 ev2 alive st')
  then show ?case using round_facts [OF further(1,4,5)] reset_budget_bound [of inp st] by auto
qed simp

text \<open>No shape is sent to the pool after it was warmed.\<close>

fun no_refire :: "aw_event list \<Rightarrow> bool" where
  "no_refire [] = True"
| "no_refire (e # es) = ((case e of Warmed s \<Rightarrow> s \<notin> set (fired_shapes es) | _ \<Rightarrow> True) \<and> no_refire es)"

lemma no_refire_append:
  "no_refire (xs @ ys) \<longleftrightarrow> no_refire xs \<and> no_refire ys \<and> set (warmed_shapes xs) \<inter> set (fired_shapes ys) = {}"
  by (induction xs) (auto split: aw_event.splits)

lemma fire_first_no_refire: "fire_first has_tx ack st = (ev, alive, st') \<Longrightarrow> no_refire ev"
  by (auto simp: fire_first_def Let_def broadcast_engine_ready_def split: list.splits warmup_ack.splits if_splits)

lemma warmup_round_no_refire: "warmup_round config has_tx inp st = (ev, alive, st') \<Longrightarrow> no_refire ev"
  by (auto simp: warmup_round_def Let_def split: recv_outcome.splits if_splits prod.splits dest: fire_first_no_refire)

lemma run_no_refire:
  assumes "run_adaptive_warmup_loop config has_tx inps st = (ev, alive, st')"
    and "pending_ok (aw_warmed st) (aw_pending st)" and "ac_max_shapes_per_hour config \<le> u32_max"
  shows "no_refire ev"
  using assms
proof (induction rule: run_induct)
  case (further inp inps st ev1 st1 ev2 alive st')
  note r = round_facts [OF further(1,4,5)]
  show ?case
    using run_once [OF further(2) conjunct1 [OF r] further(5)] further(3,5) r warmup_round_no_refire [OF further(1)]
    by (auto simp: no_refire_append)
qed (simp_all add: warmup_round_no_refire)

subsection \<open>Progress\<close>

text \<open>A round in which the server is idle throughout and the pool still takes requests.\<close>

definition quiet_round :: "adaptive_warmup_config \<Rightarrow> aw_input \<Rightarrow> bool" where
  "quiet_round config inp \<longleftrightarrow>
     ai_queue_depth inp = 0 \<and> list_all (\<lambda>j. snd (ai_ticks inp j) = 0) [0..<ac_quiet_secs config] \<and> ai_ack inp \<noteq> Pool_Closed"

lemma quiet_round_fires:
  assumes "quiet_round config inp" and "aw_pending st = s # ps" and "pending_ok (aw_warmed st) (aw_pending st)"
    and "unat (aw_shapes_this_hour st) < ac_max_shapes_per_hour config"
  shows "\<exists>ev st' q. warmup_round config has_tx inp st = (ev, True, st') \<and> fired_shapes ev = [s] \<and>
    aw_pending st' = ps @ q"
proof -
  obtain q where q: "drain_rx (aw_warmed st) (ai_drained inp) (s # ps) = s # ps @ q"
    using drain_rx_appends [of "aw_warmed st" "ai_drained inp" "s # ps"] by auto
  have ok: "pending_ok (aw_warmed st) (s # ps @ q)" using drain_rx_ok assms(2,3) q by metis
  define w where "w = wait_for_quiet_window (ac_quiet_secs config) (ai_ticks inp) (aw_warmed st) (s # ps @ q)"
  obtain r where r: "snd w = s # ps @ q @ r"
    using wait_for_quiet_window_pending [OF ok, of "ac_quiet_secs config" "ai_ticks inp"] by (auto simp: w_def)
  have i: "fst w" unfolding w_def
    using assms(1) by (intro wait_for_quiet_window_idle) (auto simp: quiet_round_def list_all_iff)
  have w: "w = (True, s # ps @ q @ r)" using r i by (cases w) auto
  have b: "\<not> ac_max_shapes_per_hour config \<le> unat (aw_shapes_this_hour (reset_budget inp st'))"
    if "aw_shapes_this_hour st' = aw_shapes_this_hour st" for st'
    using reset_budget_bound [of inp st'] assms(4) that by simp
  show ?thesis
    using assms(1,2) b w unfolding w_def
    by (cases "ai_ack inp") (auto simp: warmup_round_def Let_def q fire_first_def quiet_round_def)
qed

lemma suspects_served_in_order:
  assumes "list_all (quiet_round config) inps" and "length inps \<le> length (aw_pending st)"
    and "pending_ok (aw_warmed st) (aw_pending st)"
    and "unat (aw_shapes_this_hour st) + length inps \<le> ac_max_shapes_per_hour config"
    and "ac_max_shapes_per_hour config \<le> u32_max"
  shows "fired_shapes (fst (run_adaptive_warmup_loop config has_tx inps st)) = take (length inps) (aw_pending st)"
  using assms
proof (induction inps arbitrary: st)
  case (Cons inp inps)
  obtain s ps where p: "aw_pending st = s # ps" using Cons.prems(2) by (cases "aw_pending st") auto
  obtain ev st' q where r: "warmup_round config has_tx inp st = (ev, True, st')" and f: "fired_shapes ev = [s]"
    and p': "aw_pending st' = ps @ q"
    using quiet_round_fires [OF _ p Cons.prems(3)] Cons.prems(1,4) by fastforce
  have ok: "round_ok config (reset_budget inp st) ev st'" by (rule warmup_round_ok [OF r Cons.prems(3,5)])
  have "length (warmed_shapes ev) \<le> 1"
    using ok f distinct_card [of "warmed_shapes ev"] card_mono [of "set (fired_shapes ev)" "set (warmed_shapes ev)"]
    by (auto simp: round_ok_def)
  then have "unat (aw_shapes_this_hour st') + length inps \<le> ac_max_shapes_per_hour config"
    using ok reset_budget_bound [of inp st] Cons.prems(4) by (auto simp: round_ok_def)
  then have "fired_shapes (fst (run_adaptive_warmup_loop config has_tx inps st')) = take (length inps) (ps @ q)"
    using Cons.IH [of st'] Cons.prems p p' ok by (auto simp: round_ok_def)
  then show ?case using r f p Cons.prems(2) by (auto split: prod.splits)
qed simp

lemma spawn_inv:
  assumes "spawn_adaptive_warmup config has_tx now inps = (ev, alive, st)" and "ac_max_shapes_per_hour config \<le> u32_max"
  shows "pending_ok (aw_warmed st) (aw_pending st) \<and> aw_warmed st = set (warmed_shapes ev) \<and>
    distinct (warmed_shapes ev) \<and> no_refire ev \<and> unat (aw_shapes_this_hour st) \<le> ac_max_shapes_per_hour config"
proof (cases "ac_enabled config")
  case True
  then have l: "run_adaptive_warmup_loop config has_tx inps (aw_start now) = (ev, alive, st)"
    using assms(1) by (simp add: spawn_adaptive_warmup_def)
  have "pending_ok (aw_warmed (aw_start now)) (aw_pending (aw_start now))" by (simp add: pending_ok_def aw_start_def)
  from run_once [OF l this assms(2)] run_no_refire [OF l this assms(2)] run_counter_bound [OF l this assms(2)]
  show ?thesis by (auto simp: aw_start_def)
qed (use assms in \<open>auto simp: spawn_adaptive_warmup_def pending_ok_def aw_start_def\<close>)

section \<open>Properties\<close>

text \<open>A task with an hourly budget of one shape and a quiet window of two seconds.\<close>

definition sample_aw_config :: adaptive_warmup_config where
  "sample_aw_config = \<lparr>ac_enabled = True, ac_quiet_secs = 2, ac_max_shapes_per_hour = 1\<rparr>"

definition sample_aw_input :: "nat \<Rightarrow> shape list \<Rightarrow> warmup_ack \<Rightarrow> aw_input" where
  "sample_aw_input now arrivals ack =
     \<lparr>ai_drained = arrivals, ai_now = now, ai_reset_at = now, ai_recv = Recv_Timeout, ai_queue_depth = 0,
      ai_ticks = (\<lambda>_. ([], 0)), ai_ack = ack\<rparr>"

text \<open>
  C23: the adaptive task does no work twice. Over any run, whatever suspects, traffic and answers it
  meets, each shape is warmed at most once and is not sent to the pool again afterwards; the pending shapes are
  distinct and none of them is warmed already.
\<close>

theorem adaptive_warmup_once:
  assumes "spawn_adaptive_warmup config has_tx now inps = (ev, alive, st)" and "ac_max_shapes_per_hour config \<le> u32_max"
  shows "distinct (warmed_shapes ev) \<and> no_refire ev \<and> aw_warmed st = set (warmed_shapes ev) \<and>
    distinct (aw_pending st) \<and> set (aw_pending st) \<inter> aw_warmed st = {}"
  using spawn_inv [OF assms] by (auto simp: pending_ok_def)

lemmas sample_aw_eval = sample_aw_config_def sample_aw_input_def spawn_adaptive_warmup_def aw_start_def warmup_round_def
  reset_budget_def drain_rx_def add_suspect_def wait_for_quiet_window_def quiet_loop.simps fire_first_def
  broadcast_engine_ready_def ONE_HOUR_def

theorem adaptive_warmup_once_witness:
  "\<exists>st. spawn_adaptive_warmup sample_aw_config True 0
       [sample_aw_input 5 [(1, 128), (1, 128), (2, 512)] (Ack_Ok 900), sample_aw_input 6 [(1, 128)] (Ack_Ok 900)] =
     ([Fired (1, 128), Warmed (1, 128), Ready_Broadcast (1, 128)], True, st) \<and>
     aw_pending st = [(2, 512)] \<and> aw_warmed st = {(1, 128)}"
proof -
  let ?run = "spawn_adaptive_warmup sample_aw_config True 0
       [sample_aw_input 5 [(1, 128), (1, 128), (2, 512)] (Ack_Ok 900), sample_aw_input 6 [(1, 128)] (Ack_Ok 900)]"
  obtain st where r: "?run = ([Fired (1, 128), Warmed (1, 128), Ready_Broadcast (1, 128)], True, st)" "aw_pending st = [(2, 512)]"
    by (simp add: sample_aw_eval)
  then show ?thesis using adaptive_warmup_once [OF r(1)] by (simp add: sample_aw_config_def u32_max_def)
qed

text \<open>
  The hourly budget holds. Between two resets of the window, in every run of the task, at most
  \<open>max_shapes_per_hour\<close> shapes are warmed, counting those the window had already seen, and the 32-bit
  counter never wraps.
\<close>

theorem adaptive_warmup_budget:
  assumes "spawn_adaptive_warmup config has_tx now before = (ev0, True, st)"
    and "ac_max_shapes_per_hour config \<le> u32_max"
    and "list_all (\<lambda>inp. ai_now inp - aw_hour_start st < ONE_HOUR) inps"
    and "run_adaptive_warmup_loop config has_tx inps st = (ev, alive, st')"
  shows "unat (aw_shapes_this_hour st) + length (warmed_shapes ev) \<le> ac_max_shapes_per_hour config"
  using run_budget [OF assms(4) _ assms(2,3)] spawn_inv [OF assms(1,2)] by blast

theorem adaptive_warmup_budget_witness:
  "\<exists>ev alive st'. run_adaptive_warmup_loop sample_aw_config True
       [sample_aw_input 7 [(1, 128), (2, 512)] (Ack_Ok 900), sample_aw_input 8 [] (Ack_Ok 900)] (aw_start 0) = (ev, alive, st') \<and>
     length (warmed_shapes ev) \<le> 1"
proof -
  have s: "spawn_adaptive_warmup sample_aw_config True 0 [] = ([], True, aw_start 0)"
    by (simp add: spawn_adaptive_warmup_def sample_aw_config_def)
  obtain ev alive st' where r: "run_adaptive_warmup_loop sample_aw_config True
       [sample_aw_input 7 [(1, 128), (2, 512)] (Ack_Ok 900), sample_aw_input 8 [] (Ack_Ok 900)] (aw_start 0) = (ev, alive, st')"
    by (meson prod_cases3)
  have "length (warmed_shapes ev) \<le> 1"
    using adaptive_warmup_budget [OF s _ _ r]
    by (simp add: sample_aw_config_def sample_aw_input_def aw_start_def ONE_HOUR_def u32_max_def)
  with r show ?thesis by blast
qed

text \<open>
  Every suspect gets its turn. After any history, if the following rounds are quiet and the window has
  room for them, they send the pending shapes to the pool one per round, oldest first, whether or
  not the compilations succeed and whatever other suspects arrive meanwhile.
\<close>

theorem adaptive_warmup_progress:
  assumes "spawn_adaptive_warmup config has_tx now before = (ev0, True, st)"
    and "ac_max_shapes_per_hour config \<le> u32_max"
    and "list_all (quiet_round config) inps" and "length inps \<le> length (aw_pending st)"
    and "unat (aw_shapes_this_hour st) + length inps \<le> ac_max_shapes_per_hour config"
  shows "fired_shapes (fst (run_adaptive_warmup_loop config has_tx inps st)) = take (length inps) (aw_pending st)"
  using suspects_served_in_order [OF assms(3,4) _ assms(5,2)] spawn_inv [OF assms(1,2)] by blast

theorem adaptive_warmup_progress_witness:
  "\<exists>st. spawn_adaptive_warmup sample_aw_config True 0 [(sample_aw_input 5 [(4, 512), (1, 128)] Ack_Dropped)\<lparr>ai_queue_depth := 3\<rparr>] =
       ([], True, st) \<and>
     fired_shapes (fst (run_adaptive_warmup_loop sample_aw_config True [sample_aw_input 6 [] Ack_Dropped] st)) = [(4, 512)]"
proof -
  obtain st where r: "spawn_adaptive_warmup sample_aw_config True 0
      [(sample_aw_input 5 [(4, 512), (1, 128)] Ack_Dropped)\<lparr>ai_queue_depth := 3\<rparr>] = ([], True, st)"
    and p: "aw_pending st = [(4, 512), (1, 128)]" "aw_shapes_this_hour st = 0"
    by (simp add: sample_aw_eval)
  have "fired_shapes (fst (run_adaptive_warmup_loop sample_aw_config True [sample_aw_input 6 [] Ack_Dropped] st)) =
      take (length [sample_aw_input 6 [] Ack_Dropped]) (aw_pending st)"
    by (rule adaptive_warmup_progress [OF r])
      (simp_all add: p sample_aw_config_def sample_aw_input_def quiet_round_def u32_max_def list_all_iff)
  with r p show ?thesis by simp
qed

text \<open>
  The budget is not a rolling hour. The window restarts, so with a budget of one shape per hour two
  shapes are warmed within one second, on either side of a restart.
\<close>

theorem adaptive_warmup_not_rolling:
  "warmed_shapes (fst (spawn_adaptive_warmup sample_aw_config True 0
     [sample_aw_input (3599 * 10 ^ 9) [(1, 128)] (Ack_Ok 900), sample_aw_input (3600 * 10 ^ 9) [(2, 512)] (Ack_Ok 900)])) =
   [(1, 128), (2, 512)]"
  by (simp add: sample_aw_eval)

end
