(* ===== verification/App_State.thy ===== *)
theory App_State
  imports Pool Sysinfo
begin

text \<open>
  The state shared by the HTTP handlers and the start-up tasks: \<open>src/state.rs\<close>. The pool appears through
  what the handlers see of it: the two counters and the answer it gives to a request.
\<close>

datatype probe_status = Disabled | Running | Complete | Failed | CacheHit

fun probe_status_as_u8 :: "probe_status \<Rightarrow> 8 word" where
  "probe_status_as_u8 Disabled = 0"
| "probe_status_as_u8 Running = 1"
| "probe_status_as_u8 Complete = 2"
| "probe_status_as_u8 Failed = 3"
| "probe_status_as_u8 CacheHit = 4"

fun probe_status_as_str :: "probe_status \<Rightarrow> string" where
  "probe_status_as_str Disabled = ''disabled''"
| "probe_status_as_str Running = ''running''"
| "probe_status_as_str Complete = ''complete''"
| "probe_status_as_str Failed = ''failed''"
| "probe_status_as_str CacheHit = ''cache_hit''"

definition probe_status_from_u8 :: "8 word \<Rightarrow> probe_status" where
  "probe_status_from_u8 v =
     (if v = 0 then Disabled else if v = 1 then Running else if v = 2 then Complete
      else if v = 4 then CacheHit else Failed)"

text \<open>What a client of the pool sees: \<open>None\<close> is a reply sender dropped without an answer.\<close>

record embed_pool =
  ep_closed :: bool
  ep_dense :: "string list \<Rightarrow> (any_error, fl list list \<times> embed_stats) result option"
  ep_sparse :: "string list \<Rightarrow> (any_error, sparse_embedding list \<times> embed_stats) result option"
  ep_both :: "string list \<Rightarrow> (any_error, dual_embedding list \<times> embed_stats) result option"
  ep_probe :: "string list \<Rightarrow> (any_error, probe_result) result option"
  ep_live :: "64 word"
  ep_loaded :: "64 word"
  ep_model_rss :: nat

record tuning_info =
  ti_memory_source :: string
  ti_available_bytes :: nat
  ti_model_rss_bytes_per_worker :: nat
  ti_worst_case_peak_bytes :: nat
  ti_utilization_pct :: fl

record app_state =
  as_pool :: embed_pool
  as_ready :: bool
  as_max_batch :: nat
  as_total_workers :: nat
  as_max_seq_length :: nat
  as_tuning :: "tuning_info option"
  as_cost_model :: cost_model
  as_probe_status :: "8 word"
  as_request_permits :: nat

definition tuning_info_new :: "memory_reading \<Rightarrow> nat \<Rightarrow> nat \<Rightarrow> fl \<Rightarrow> tuning_info" where
  "tuning_info_new mem model_rss_per_worker worst_case_peak_bytes utilization_pct =
     \<lparr>ti_memory_source = show_memory_source (mem_source mem), ti_available_bytes = available_bytes mem,
      ti_model_rss_bytes_per_worker = model_rss_per_worker, ti_worst_case_peak_bytes = worst_case_peak_bytes,
      ti_utilization_pct = utilization_pct\<rparr>"

definition tuning_info_unknown :: "nat \<Rightarrow> tuning_info" where
  "tuning_info_unknown model_rss_per_worker =
     \<lparr>ti_memory_source = show_memory_source HostRam, ti_available_bytes = 0,
      ti_model_rss_bytes_per_worker = model_rss_per_worker, ti_worst_case_peak_bytes = 0, ti_utilization_pct = Fin 0\<rparr>"

definition live_worker_count :: "embed_pool \<Rightarrow> nat" where
  "live_worker_count pool = unat (ep_live pool)"

definition loaded_worker_count :: "embed_pool \<Rightarrow> nat" where
  "loaded_worker_count pool = unat (ep_loaded pool)"

section \<open>Facts\<close>

text \<open>The status survives the trip through the atomic byte; every other byte reads as a failure.\<close>

lemma probe_status_u8_roundtrip [simp]: "probe_status_from_u8 (probe_status_as_u8 p) = p"
  by (cases p) (simp_all add: probe_status_from_u8_def)

lemma probe_status_as_u8_inj: "probe_status_as_u8 p = probe_status_as_u8 q \<longleftrightarrow> p = q"
  by (metis probe_status_u8_roundtrip)

lemma probe_status_as_str_inj: "probe_status_as_str p = probe_status_as_str q \<longleftrightarrow> p = q"
  by (cases p; cases q) simp_all

end
