(* ===== verification/Json.thy ===== *)
theory Json
  imports Rust_Float
begin

text \<open>
  JSON values, as far as the server builds or inspects them itself (\<open>serde_json::Value\<close>). The entries of
  an object are listed in the order its map is iterated.
\<close>

datatype json = JNull | JBool bool | JNum nat | JFloat rat | JStr string | JArr "json list" | JObj "(string \<times> json) list"

text \<open>A number that is not finite is written as null.\<close>

fun json_f64 :: "fl \<Rightarrow> json" where
  "json_f64 (Fin x) = JFloat x"
| "json_f64 _ = JNull"

fun json_string :: "json \<Rightarrow> string option" where
  "json_string (JStr s) = Some s"
| "json_string _ = None"

text \<open>Indexing with a string gives null when there is no such entry; \<open>as_object\<close>, \<open>as_array\<close> test the shape.\<close>

fun json_index :: "json \<Rightarrow> string \<Rightarrow> json" where
  "json_index (JObj fs) k = (case map_of fs k of Some v \<Rightarrow> v | None \<Rightarrow> JNull)"
| "json_index _ k = JNull"

fun json_object :: "json \<Rightarrow> (string \<times> json) list option" where
  "json_object (JObj fs) = Some fs"
| "json_object _ = None"

fun json_array :: "json \<Rightarrow> json list option" where
  "json_array (JArr vs) = Some vs"
| "json_array _ = None"

lemma json_string_Some_iff [simp]: "json_string j = Some s \<longleftrightarrow> j = JStr s"
  by (cases j) auto

lemma map_json_string_iff: "map json_string vs = map Some xs \<longleftrightarrow> vs = map JStr xs"
proof (induction vs arbitrary: xs)
  case (Cons v vs)
  then show ?case by (cases xs) auto
qed simp

end
