(* ===== verification/Handlers.thy ===== *)
theory Handlers
  imports App_State Json
begin

text \<open>
  The HTTP surface: the request and response types of \<open>src/models.rs\<close>, the handlers of \<open>src/handler/\<close> and the
  route table of \<open>src/bootstrap/router.rs\<close>. A handler is a function of the shared state and of the decoded
  request; bodies, layers and the extractor are in the theories Wire and Http_Service, the tracing calls are outside. A handler waits for a permit before it calls
  the pool and gives it back when it returns; the accounting of the permits is in theory Bootstrap.
\<close>

section \<open>The request and response types\<close>

text \<open>\<open>TextInput\<close>: a single string, or an array all of whose elements are strings.\<close>

fun text_input_deserialize :: "json \<Rightarrow> string list option" where
  "text_input_deserialize (JStr s) = Some [s]"
| "text_input_deserialize (JArr vs) = those (map json_string vs)"
| "text_input_deserialize _ = None"

record dense_request =
  dr_input :: "string list"
  dr_model :: "string option"

record usage =
  us_prompt_tokens :: nat
  us_total_tokens :: nat

record dense_embedding_data =
  dd_object :: string
  dd_index :: nat
  dd_embedding :: "fl list"

record dense_response =
  ds_object :: string
  ds_model :: string
  ds_data :: "dense_embedding_data list"
  ds_usage :: usage

record sparse_request =
  sr_input :: "string list"

record sparse_values =
  sv_indices :: "32 word list"
  sv_values :: "fl list"

record sparse_embedding_data =
  sd_index :: nat
  sd_sparse_values :: sparse_values

record sparse_response =
  ss_data :: "sparse_embedding_data list"

record dual_request =
  ur_input :: "string list"
  ur_model :: "string option"

record dual_embedding_data =
  ud_index :: nat
  ud_embedding :: "fl list"
  ud_sparse_values :: sparse_values

record dual_response =
  uo_object :: string
  uo_model :: string
  uo_data :: "dual_embedding_data list"
  uo_usage :: usage

record model_entry =
  me_id :: string
  me_object :: string

record models_response =
  mr_object :: string
  mr_data :: "model_entry list"

section \<open>Shared checks\<close>

text \<open>
  \<open>HeaderValue::to_str\<close> accepts visible ASCII and tabs. A repeated key keeps its last value; two header
  names that differ only in hyphen and underscore share a key.
\<close>

definition is_visible_ascii :: "char \<Rightarrow> bool" where
  "is_visible_ascii c \<longleftrightarrow> (32 \<le> (of_char c :: nat) \<and> (of_char c :: nat) < 127) \<or> (of_char c :: nat) = 9"

definition x_header_step :: "(string \<rightharpoonup> string) \<Rightarrow> string \<times> string \<Rightarrow> (string \<rightharpoonup> string)" where
  "x_header_step m header =
     (case header of (name, value) \<Rightarrow>
        if str_starts_with name ''x-'' \<and> list_all is_visible_ascii value
        then m(map (\<lambda>c. if c = CHR ''-'' then CHR ''_'' else c) name \<mapsto> value)
        else m)"

definition collect_x_headers :: "(string \<times> string) list \<Rightarrow> (string \<rightharpoonup> string)" where
  "collect_x_headers headers = foldl x_header_step Map.empty headers"

definition MAX_STRING_CHARS :: nat where "MAX_STRING_CHARS = 32768"

fun validate_lengths :: "nat \<Rightarrow> string list \<Rightarrow> (app_error, unit) result" where
  "validate_lengths i [] = Inr ()"
| "validate_lengths i (text # texts) =
     (if MAX_STRING_CHARS < char_count text
      then Inl (InvalidRequest (''input['' @ show_nat i @ ''] length '' @ show_nat (char_count text) @
                  '' exceeds maximum '' @ show_nat MAX_STRING_CHARS @ '' characters''))
      else validate_lengths (i + 1) texts)"

definition validate_input :: "string list \<Rightarrow> nat \<Rightarrow> (app_error, unit) result" where
  "validate_input texts max_batch =
     (if texts = [] then Inl (InvalidRequest ''input must not be empty'')
      else if max_batch < length texts
      then Inl (InvalidRequest (''batch size '' @ show_nat (length texts) @ '' exceeds maximum '' @ show_nat max_batch))
      else validate_lengths 0 texts)"

definition check_ready :: "app_state \<Rightarrow> (app_error, unit) result" where
  "check_ready st =
     (if \<not> as_ready st then Inl (ServiceUnavailable ''model not ready'')
      else if live_worker_count (as_pool st) = 0 then Inl (ServiceUnavailable ''no workers available'')
      else Inr ())"

section \<open>The embedding handlers\<close>

definition prompt_tokens_of :: "string list \<Rightarrow> nat" where
  "prompt_tokens_of texts = sum_list (map (\<lambda>t. char_count t div 4 + 1) texts)"

text \<open>\<open>*i as u32\<close> keeps the low 32 bits.\<close>

definition to_sparse_values :: "sparse_embedding \<Rightarrow> sparse_values" where
  "to_sparse_values emb = \<lparr>sv_indices = map word_of_nat (sp_indices emb), sv_values = sp_values emb\<rparr>"

definition dense_embeddings :: "app_state \<Rightarrow> dense_request \<Rightarrow> (app_error, dense_response) result" where
  "dense_embeddings st req =
     rbind (check_ready st) (\<lambda>_.
       let texts = dr_input req in
       rbind (validate_input texts (as_max_batch st)) (\<lambda>_.
         let prompt_tokens = prompt_tokens_of texts in
         rbind (map_err app_error_from (pool_dense (ep_closed (as_pool st)) (ep_dense (as_pool st)) texts))
           (\<lambda>(embeddings, embed_stats).
              Inr \<lparr>ds_object = ''list'', ds_model = ''bge-m3'',
                   ds_data = map (\<lambda>(index, embedding).
                       \<lparr>dd_object = ''embedding'', dd_index = index, dd_embedding = embedding\<rparr>)
                     (enumerate 0 embeddings),
                   ds_usage = \<lparr>us_prompt_tokens = prompt_tokens, us_total_tokens = prompt_tokens\<rparr>\<rparr>)))"

definition sparse_embeddings :: "app_state \<Rightarrow> sparse_request \<Rightarrow> (app_error, sparse_response) result" where
  "sparse_embeddings st req =
     rbind (check_ready st) (\<lambda>_.
       let texts = sr_input req in
       rbind (validate_input texts (as_max_batch st)) (\<lambda>_.
         rbind (map_err app_error_from (pool_sparse (ep_closed (as_pool st)) (ep_sparse (as_pool st)) texts))
           (\<lambda>(embeddings, embed_stats).
              Inr \<lparr>ss_data = map (\<lambda>(index, emb). \<lparr>sd_index = index, sd_sparse_values = to_sparse_values emb\<rparr>)
                     (enumerate 0 embeddings)\<rparr>)))"

definition both_embeddings :: "app_state \<Rightarrow> dual_request \<Rightarrow> (app_error, dual_response) result" where
  "both_embeddings st req =
     rbind (check_ready st) (\<lambda>_.
       let texts = ur_input req in
       rbind (validate_input texts (as_max_batch st)) (\<lambda>_.
         let prompt_tokens = prompt_tokens_of texts in
         rbind (map_err app_error_from (pool_both (ep_closed (as_pool st)) (ep_both (as_pool st)) texts))
           (\<lambda>(pairs, embed_stats).
              Inr \<lparr>uo_object = ''list'', uo_model = ''bge-m3'',
                   uo_data = map (\<lambda>(index, pair).
                       \<lparr>ud_index = index, ud_embedding = du_dense pair,
                        ud_sparse_values = to_sparse_values (du_sparse pair)\<rparr>)
                     (enumerate 0 pairs),
                   uo_usage = \<lparr>us_prompt_tokens = prompt_tokens, us_total_tokens = prompt_tokens\<rparr>\<rparr>)))"

definition models :: models_response where
  "models = \<lparr>mr_object = ''list'', mr_data = [\<lparr>me_id = ''bge-m3'', me_object = ''model''\<rparr>]\<rparr>"

section \<open>Health\<close>

record http_response =
  hr_status :: nat
  hr_body :: json

definition workers_json :: "nat \<Rightarrow> nat \<Rightarrow> json" where
  "workers_json live total_workers = JObj [(''live'', JNum live), (''total'', JNum total_workers)]"

definition health :: "app_state \<Rightarrow> http_response" where
  "health st =
     (let ready = as_ready st; live = live_worker_count (as_pool st); loaded = loaded_worker_count (as_pool st);
          total_workers = as_total_workers st
      in if \<not> ready then \<lparr>hr_status = 503, hr_body = JObj [(''status'', JStr ''loading'')]\<rparr>
         else if live = 0
         then \<lparr>hr_status = 503, hr_body = JObj [(''status'', JStr ''fail''), (''workers'', workers_json live total_workers)]\<rparr>
         else if loaded = 0
         then \<lparr>hr_status = 200, hr_body = JObj [(''status'', JStr ''idle''), (''workers'', workers_json live total_workers)]\<rparr>
         else let status = (if live < total_workers then ''warn'' else ''ok'');
                  cm = as_cost_model st;
                  probe_status = probe_status_as_str (probe_status_from_u8 (as_probe_status st));
                  tuning = [(''a_bytes_per_token'', json_f64 (cm_a cm)), (''b_bytes_per_token_sq'', json_f64 (cm_b cm)),
                            (''max_workspace_bytes'', JNum (max_workspace_bytes cm)), (''probe_status'', JStr probe_status)];
                  tuning' = (case as_tuning st of
                      None \<Rightarrow> tuning
                    | Some ti \<Rightarrow> tuning @ [(''memory_source'', JStr (ti_memory_source ti)),
                        (''available_bytes'', JNum (ti_available_bytes ti)),
                        (''model_rss_bytes_per_worker'', JNum (ti_model_rss_bytes_per_worker ti))])
              in \<lparr>hr_status = 200,
                  hr_body = JObj [(''status'', JStr status), (''workers'', workers_json live total_workers),
                                  (''max_seq_length'', JNum (as_max_seq_length st)), (''tuning'', JObj tuning')]\<rparr>)"

definition DEEP_HEALTH_CANARY :: string where
  "DEEP_HEALTH_CANARY = ''embedding service canary health check ok''"

text \<open>The canary either completes within the 30 seconds or not.\<close>

definition health_deep :: "bool \<Rightarrow> app_state \<Rightarrow> http_response" where
  "health_deep elapsed st =
     (if \<not> as_ready st then \<lparr>hr_status = 503, hr_body = JObj [(''status'', JStr ''loading'')]\<rparr>
      else if elapsed
      then \<lparr>hr_status = 503, hr_body = JObj [(''status'', JStr ''fail''), (''error'', JStr ''canary embed timed out'')]\<rparr>
      else case pool_dense (ep_closed (as_pool st)) (ep_dense (as_pool st)) [DEEP_HEALTH_CANARY] of
             Inr _ \<Rightarrow> \<lparr>hr_status = 200, hr_body = JObj [(''status'', JStr ''ok'')]\<rparr>
           | Inl e \<Rightarrow> \<lparr>hr_status = 503, hr_body = JObj [(''status'', JStr ''fail''), (''error'', JStr (show_error e))]\<rparr>)"

section \<open>Routes\<close>

datatype endpoint = Dense_Endpoint | Sparse_Endpoint | Both_Endpoint | Models_Endpoint | Health_Endpoint | Deep_Endpoint

datatype http_method = GET | POST

definition build_router :: "(string \<times> http_method \<times> endpoint) list" where
  "build_router =
     [(''/v1/embeddings'', POST, Dense_Endpoint), (''/v1/sparse-embeddings'', POST, Sparse_Endpoint),
      (''/v1/embeddings:both'', POST, Both_Endpoint), (''/v1/embeddings%3Aboth'', POST, Both_Endpoint),
      (''/v1/embeddings%3aboth'', POST, Both_Endpoint), (''/v1/models'', GET, Models_Endpoint),
      (''/health'', GET, Health_Endpoint), (''/health/deep'', GET, Deep_Endpoint)]"

definition is_noisy :: "string \<Rightarrow> bool" where
  "is_noisy path \<longleftrightarrow> path \<in> {''/health'', ''/health/deep'', ''/v1/models''}"

section \<open>Facts\<close>

text \<open>What a valid batch is, and the reference for the reported offender.\<close>

definition valid_batch :: "nat \<Rightarrow> string list \<Rightarrow> bool" where
  "valid_batch max_batch texts \<longleftrightarrow>
     texts \<noteq> [] \<and> length texts \<le> max_batch \<and> list_all (\<lambda>t. char_count t \<le> MAX_STRING_CHARS) texts"

lemma validate_lengths_Inr_iff [result_iff]:
  "validate_lengths i texts = Inr u \<longleftrightarrow> list_all (\<lambda>t. char_count t \<le> MAX_STRING_CHARS) texts"
  by (induction texts arbitrary: i) (auto simp: not_less)

lemma validate_input_Inr_iff [result_iff]: "validate_input texts max_batch = Inr u \<longleftrightarrow> valid_batch max_batch texts"
  by (auto simp: validate_input_def valid_batch_def validate_lengths_Inr_iff)

lemma validate_lengths_Inl_iff:
  "validate_lengths i texts = Inl e \<longleftrightarrow>
     (\<exists>k<length texts. MAX_STRING_CHARS < char_count (texts ! k) \<and>
        list_all (\<lambda>t. char_count t \<le> MAX_STRING_CHARS) (take k texts) \<and>
        e = InvalidRequest (''input['' @ show_nat (i + k) @ ''] length '' @ show_nat (char_count (texts ! k)) @
              '' exceeds maximum '' @ show_nat MAX_STRING_CHARS @ '' characters''))"
proof (induction texts arbitrary: i)
  case (Cons t ts)
  have split: "(\<exists>k<Suc (length ts). P k) \<longleftrightarrow> P 0 \<or> (\<exists>k<length ts. P (Suc k))" for P
    by (metis Suc_less_eq not0_implies_Suc zero_less_Suc)
  show ?case
  proof (cases "MAX_STRING_CHARS < char_count t")
    case True
    then show ?thesis by (auto simp: split)
  next
    case False
    then show ?thesis by (simp add: split Cons.IH not_less)
  qed
qed simp

lemma validate_input_error: "validate_input texts max_batch = Inl e \<Longrightarrow> \<exists>m. e = InvalidRequest m"
  by (auto simp: validate_input_def validate_lengths_Inl_iff split: if_splits)

lemma check_ready_Inr_iff [result_iff]:
  "check_ready st = Inr u \<longleftrightarrow> as_ready st \<and> live_worker_count (as_pool st) \<noteq> 0"
  by (auto simp: check_ready_def)

lemma check_ready_error: "check_ready st = Inl e \<Longrightarrow> \<exists>m. e = ServiceUnavailable m"
  by (auto simp: check_ready_def split: if_splits)

text \<open>The code of the answer to a request.\<close>

definition status_of :: "(app_error, 'a) result \<Rightarrow> nat" where
  "status_of r = (case r of Inr _ \<Rightarrow> 200 | Inl e \<Rightarrow> http_status (into_response e))"

text \<open>The three handlers are one admission, one call and one translation.\<close>

definition answer_status :: "app_state \<Rightarrow> string list \<Rightarrow> (any_error, 'a) result \<Rightarrow> nat" where
  "answer_status st texts r =
     (if \<not> as_ready st \<or> live_worker_count (as_pool st) = 0 then 503
      else if \<not> valid_batch (as_max_batch st) texts then 400
      else case r of Inr _ \<Rightarrow> 200 | Inl e \<Rightarrow> if is_trt_shape_rejected e then 503 else 500)"

lemma handler_status:
  "status_of (rbind (check_ready st) (\<lambda>_. rbind (validate_input texts (as_max_batch st)) (\<lambda>_.
     rbind (map_err app_error_from r) (\<lambda>v. Inr (f v))))) = answer_status st texts r"
proof (cases "check_ready st")
  case (Inl e)
  then have "\<not> (as_ready st \<and> live_worker_count (as_pool st) \<noteq> 0)"
    by (metis check_ready_Inr_iff Inl_Inr_False)
  then show ?thesis using Inl check_ready_error [OF Inl] by (auto simp: status_of_def answer_status_def)
next
  case (Inr u)
  then have ready: "as_ready st" "live_worker_count (as_pool st) \<noteq> 0" by (simp_all add: check_ready_Inr_iff)
  show ?thesis
  proof (cases "validate_input texts (as_max_batch st)")
    case (Inl e)
    then have "\<not> valid_batch (as_max_batch st) texts" by (metis validate_input_Inr_iff Inl_Inr_False)
    then show ?thesis using Inr Inl ready validate_input_error [OF Inl] by (auto simp: status_of_def answer_status_def)
  next
    case (Inr u')
    then have "valid_batch (as_max_batch st) texts" by (simp add: validate_input_Inr_iff)
    then show ?thesis using \<open>check_ready st = Inr u\<close> Inr ready
      by (cases r) (auto simp: status_of_def answer_status_def app_error_from_def)
  qed
qed

lemma health_200_iff: "hr_status (health st) = 200 \<longleftrightarrow> check_ready st = Inr ()"
  by (simp add: health_def check_ready_Inr_iff Let_def)

lemma those_Some_iff: "those xs = Some ys \<longleftrightarrow> xs = map Some ys"
proof (induction xs arbitrary: ys)
  case (Cons x xs)
  then show ?case by (cases ys; cases x) auto
qed auto

lemma to_sparse_values_lossless:
  assumes "list_all (\<lambda>i. i < 2 ^ 32) (sp_indices e)"
  shows "map unat (sv_indices (to_sparse_values e)) = sp_indices e"
  using assms by (simp add: to_sparse_values_def list_all_iff unat_of_nat comp_def map_idI)

lemma indexed_nth: "i < length xs \<Longrightarrow> map f (enumerate 0 xs) ! i = f (i, xs ! i)"
  by (simp add: nth_enumerate_eq)

text \<open>Every admissible path has one method and one handler, and the three spellings of the fused route agree.\<close>

lemma build_router_distinct: "distinct (map fst build_router)"
  by (simp add: build_router_def)

lemma build_router_both:
  "map_of build_router ''/v1/embeddings%3Aboth'' = map_of build_router ''/v1/embeddings:both''"
  "map_of build_router ''/v1/embeddings%3aboth'' = map_of build_router ''/v1/embeddings:both''"
  by (simp_all add: build_router_def)

section \<open>Properties\<close>

text \<open>
  The code every embedding endpoint answers with. Before the server is ready, or when no worker is
  left, it is 503 whatever the request; an empty batch, a batch above the limit or a text of more than
  32768 characters is 400; then the pool decides: 200 when it embeds, 503 when its guard refused
  the shape, 500 for every other failure. The three endpoints agree.
\<close>

theorem endpoint_status:
  "status_of (dense_embeddings st dreq) =
     answer_status st (dr_input dreq) (pool_dense (ep_closed (as_pool st)) (ep_dense (as_pool st)) (dr_input dreq)) \<and>
   status_of (sparse_embeddings st sreq) =
     answer_status st (sr_input sreq) (pool_sparse (ep_closed (as_pool st)) (ep_sparse (as_pool st)) (sr_input sreq)) \<and>
   status_of (both_embeddings st ureq) =
     answer_status st (ur_input ureq) (pool_both (ep_closed (as_pool st)) (ep_both (as_pool st)) (ur_input ureq))"
  unfolding dense_embeddings_def sparse_embeddings_def both_embeddings_def Let_def
  by (simp add: case_prod_unfold handler_status)

text \<open>
  The validation refuses a batch exactly when it is empty, too large or has an overlong text, and
  the message about an overlong text names the first such text, its position and its length in
  characters.
\<close>

theorem validate_input_first_offender:
  "validate_input texts max_batch = Inl e \<longleftrightarrow>
     texts = [] \<and> e = InvalidRequest ''input must not be empty'' \<or>
     max_batch < length texts \<and> texts \<noteq> [] \<and>
       e = InvalidRequest (''batch size '' @ show_nat (length texts) @ '' exceeds maximum '' @ show_nat max_batch) \<or>
     texts \<noteq> [] \<and> length texts \<le> max_batch \<and>
       (\<exists>k<length texts. MAX_STRING_CHARS < char_count (texts ! k) \<and>
          list_all (\<lambda>t. char_count t \<le> MAX_STRING_CHARS) (take k texts) \<and>
          e = InvalidRequest (''input['' @ show_nat k @ ''] length '' @ show_nat (char_count (texts ! k)) @
                '' exceeds maximum '' @ show_nat MAX_STRING_CHARS @ '' characters''))"
  unfolding validate_input_def by (auto simp: validate_lengths_Inl_iff)

text \<open>
  The \<open>input\<close> field is read as a list of texts exactly from a string (one text) or from an array of
  strings (those texts in order); every other value is refused, an array with one element that is not a
  string included.
\<close>

theorem text_input_roundtrip:
  "text_input_deserialize j = Some xs \<longleftrightarrow> j = JArr (map JStr xs) \<or> (\<exists>s. j = JStr s \<and> xs = [s])"
  by (cases j) (auto simp: those_Some_iff map_json_string_iff)

end
