(* ===== verification/Probe_Fit.thy ===== *)
theory Probe_Fit
  imports Binpack
begin

text \<open>
  The least-squares fit of the start-up probe: \<open>src/probe/fit.rs\<close>, in \<open>f64\<close> arithmetic. The fit is not a
  solution of the normal equations over the rationals, every step rounds; what the rest of the server
  needs of it is that the coefficients it returns are finite and within their operational range,
  which makes the cost model monotone. That no step overflows or divides by zero is shown by carrying a
  bound through every operation.
\<close>

section \<open>The fit\<close>

record data_point =
  dp_batch :: nat
  dp_seq :: nat
  dp_rss_delta :: nat

text \<open>The products of \<open>usize\<close> values wrap, as in a release build.\<close>

definition usize_mul :: "nat \<Rightarrow> nat \<Rightarrow> nat" where
  "usize_mul a b = a * b mod 2 ^ 64"

definition dp_x1 :: "data_point \<Rightarrow> fl" where
  "dp_x1 dp = nat_to_f64 (usize_mul (dp_batch dp) (dp_seq dp))"

definition dp_x2 :: "data_point \<Rightarrow> fl" where
  "dp_x2 dp = nat_to_f64 (usize_mul (usize_mul (dp_batch dp) (dp_seq dp)) (dp_seq dp))"

fun fl_abs :: "fl \<Rightarrow> fl" where
  "fl_abs NaN = NaN"
| "fl_abs (Inf s) = Inf False"
| "fl_abs (Fin x) = Fin \<bar>x\<bar>"

record gram =
  g11 :: fl
  g12 :: fl
  g22 :: fl
  gy1 :: fl
  gy2 :: fl

definition gram_step :: "fl \<Rightarrow> fl \<Rightarrow> gram \<Rightarrow> data_point \<Rightarrow> gram" where
  "gram_step x1_max x2_max g dp =
     (let n1 = fl_div r64 (dp_x1 dp) x1_max;
          n2 = fl_div r64 (dp_x2 dp) x2_max;
          y = nat_to_f64 (dp_rss_delta dp)
      in \<lparr>g11 = fl_add r64 (g11 g) (fl_mul r64 n1 n1), g12 = fl_add r64 (g12 g) (fl_mul r64 n1 n2),
          g22 = fl_add r64 (g22 g) (fl_mul r64 n2 n2), gy1 = fl_add r64 (gy1 g) (fl_mul r64 n1 y),
          gy2 = fl_add r64 (gy2 g) (fl_mul r64 n2 y)\<rparr>)"

definition gram_zero :: gram where
  "gram_zero = \<lparr>g11 = Fin 0, g12 = Fin 0, g22 = Fin 0, gy1 = Fin 0, gy2 = Fin 0\<rparr>"

definition column_max :: "(data_point \<Rightarrow> fl) \<Rightarrow> data_point list \<Rightarrow> fl" where
  "column_max x data = foldl (\<lambda>acc dp. fl_max acc (x dp)) (Fin 0) data"

definition solve_gram :: "fl \<Rightarrow> fl \<Rightarrow> gram \<Rightarrow> (fl \<times> fl) option" where
  "solve_gram x1_max x2_max g =
     (let det = fl_sub r64 (fl_mul r64 (g11 g) (g22 g)) (fl_mul r64 (g12 g) (g12 g));
          max_diag = fl_max (g11 g) (g22 g);
          max_diag_sq = fl_mul r64 max_diag max_diag
      in if fl_less (fl_abs det) (fl_mul r64 (r64 (1 / 1000000)) max_diag_sq) then None
         else let alpha = fl_div r64 (fl_sub r64 (fl_mul r64 (g22 g) (gy1 g)) (fl_mul r64 (g12 g) (gy2 g))) det;
                  beta = fl_div r64 (fl_sub r64 (fl_mul r64 (g11 g) (gy2 g)) (fl_mul r64 (g12 g) (gy1 g))) det
              in Some (fl_div r64 alpha x1_max, fl_div r64 beta x2_max))"

definition fit_cost_model :: "data_point list \<Rightarrow> (fl \<times> fl) option" where
  "fit_cost_model data =
     (if length data < 2 then None
      else let x1_max = column_max dp_x1 data;
               x2_max = column_max dp_x2 data
           in if x1_max = Fin 0 \<or> x2_max = Fin 0 then None
              else case solve_gram x1_max x2_max (foldl (gram_step x1_max x2_max) gram_zero data) of
                     None \<Rightarrow> None
                   | Some (a_raw, b_raw) \<Rightarrow>
                       if fl_less b_raw (Fin 0) then None
                       else Some (fl_clamp (Fin 4096) (Fin 262144) (fl_max a_raw (Fin 0)),
                                  fl_clamp (r64 (1 / 100)) (Fin 50000) b_raw))"

section \<open>Bounds through rounding\<close>

text \<open>A finite value whose magnitude is at most \<open>n\<close> units of a power of two.\<close>

definition mag :: "nat \<Rightarrow> int \<Rightarrow> fl \<Rightarrow> bool" where
  "mag n m x \<longleftrightarrow> (\<exists>q. x = Fin q \<and> \<bar>q\<bar> \<le> of_nat n * pow2 m)"

text \<open>The same, and not negative.\<close>

definition mag0 :: "nat \<Rightarrow> int \<Rightarrow> fl \<Rightarrow> bool" where
  "mag0 n m x \<longleftrightarrow> (\<exists>q. x = Fin q \<and> 0 \<le> q \<and> q \<le> of_nat n * pow2 m)"

lemma mag0_mag: "mag0 n m x \<Longrightarrow> mag n m x"
  by (auto simp: mag_def mag0_def)

lemma grid_exact:
  assumes "n < 2 ^ 53" and "- 1074 \<le> m" and "m \<le> 960"
  shows "r64 (of_nat n * pow2 m) = Fin (of_nat n * pow2 m)" and "r64 (- (of_nat n * pow2 m)) = Fin (- (of_nat n * pow2 m))"
proof -
  have n: "\<bar>int n\<bar> < 2 ^ 53" using assms(1) by (metis abs_of_nat of_nat_less_iff of_nat_numeral of_nat_power)
  have e: "rat_round 53 (- 1074) (of_nat n * pow2 m) = of_nat n * pow2 m"
    using rat_round_exact [OF n assms(2)] by simp
  have "(of_nat n :: rat) < 2 ^ 53" using assms(1) by (metis of_nat_less_iff of_nat_numeral of_nat_power)
  then have "of_nat n * pow2 m < pow2 53 * pow2 m" by (simp add: pow2_nat)
  also have "\<dots> = pow2 (53 + m)" by (simp add: pow2_add)
  also have "\<dots> \<le> pow2 1024" using assms(3) by (intro pow2_mono) simp
  finally have b: "of_nat n * pow2 m < pow2 1024" .
  have nn: "0 \<le> of_nat n * pow2 m" by simp
  show "r64 (of_nat n * pow2 m) = Fin (of_nat n * pow2 m)"
    using b nn by (simp add: r64_def fl_round_def e not_le)
  show "r64 (- (of_nat n * pow2 m)) = Fin (- (of_nat n * pow2 m))"
    using b nn by (simp add: r64_def fl_round_def rat_round_minus e not_le)
qed

lemma r64_mag:
  assumes "\<bar>x\<bar> \<le> of_nat n * pow2 m" and "n < 2 ^ 53" and "- 1074 \<le> m" and "m \<le> 960"
  shows "mag n m (r64 x)"
proof -
  have "fl_le (r64 x) (r64 (of_nat n * pow2 m))" "fl_le (r64 (- (of_nat n * pow2 m))) (r64 x)"
    using assms(1) by (intro f64.rnd_mono; linarith)+
  then show ?thesis using grid_exact [OF assms(2-4)] by (cases "r64 x") (auto simp: mag_def abs_le_iff)
qed

lemma r64_mag0:
  assumes "0 \<le> x" and "x \<le> of_nat n * pow2 m" and "n < 2 ^ 53" and "- 1074 \<le> m" and "m \<le> 960"
  shows "mag0 n m (r64 x)"
proof -
  have "mag n m (r64 x)" using assms by (intro r64_mag) auto
  then show ?thesis using f64.rnd_nonneg [OF assms(1)] by (auto simp: mag_def mag0_def)
qed

lemma r64_ge:
  assumes "pow2 m \<le> x" and "- 1074 \<le> m" and "m \<le> 960"
  shows "fl_le (Fin (pow2 m)) (r64 x)"
  using f64.rnd_mono [OF assms(1)] grid_exact(1) [of 1 m] assms(2,3) by simp

lemma mag_mono: "mag n m x \<Longrightarrow> n \<le> n' \<Longrightarrow> mag n' m x"
  by (auto simp: mag_def elim!: order_trans intro!: mult_right_mono)

lemma mag_pow2: "mag (2 ^ k) m x \<longleftrightarrow> mag 1 (int k + m) x"
  by (simp add: mag_def pow2_add pow2_nat)

text \<open>One rule per operation; the exponents stay far from both ends of the format.\<close>

lemma mag_mul:
  assumes "mag 1 j x" and "mag 1 k y" and "- 1074 \<le> j + k" and "j + k \<le> 960"
  shows "mag 1 (j + k) (fl_mul r64 x y)"
proof -
  obtain p q where x: "x = Fin p" "\<bar>p\<bar> \<le> pow2 j" and y: "y = Fin q" "\<bar>q\<bar> \<le> pow2 k"
    using assms by (auto simp: mag_def)
  have "\<bar>p * q\<bar> \<le> pow2 j * pow2 k" unfolding abs_mult using x y by (intro mult_mono) auto
  then show ?thesis using r64_mag [of "p * q" 1 "j + k"] assms(3,4) by (simp add: x y pow2_add)
qed

lemma mag_sub:
  assumes "mag 1 k x" and "mag 1 k y" and "- 1074 \<le> k" and "k < 960"
  shows "mag 1 (k + 1) (fl_sub r64 x y)"
proof -
  obtain p q where x: "x = Fin p" "\<bar>p\<bar> \<le> pow2 k" and y: "y = Fin q" "\<bar>q\<bar> \<le> pow2 k"
    using assms by (auto simp: mag_def)
  then have "\<bar>p - q\<bar> \<le> 2 * pow2 k" by linarith
  then show ?thesis using r64_mag [of "p - q" 1 "k + 1"] assms(3,4) by (simp add: x y pow2_add fl_sub_def)
qed

lemma mag_div:
  assumes "mag 1 k x" and "pow2 l \<le> \<bar>d\<bar>" and "- 1074 \<le> k - l" and "k - l \<le> 960"
  shows "mag 1 (k - l) (fl_div r64 x (Fin d))"
proof -
  obtain p where x: "x = Fin p" "\<bar>p\<bar> \<le> pow2 k" using assms by (auto simp: mag_def)
  have l: "0 < pow2 l" by simp
  have d: "d \<noteq> 0" using assms(2) by (metis abs_zero not_le pow2_pos)
  have "\<bar>p / d\<bar> \<le> pow2 k / pow2 l" unfolding abs_divide using x assms(2) l by (intro frac_le) auto
  also have "\<dots> = pow2 (k - l)" using pow2_add [of "k - l" l] by simp
  finally show ?thesis using r64_mag [of "p / d" 1 "k - l"] assms(3,4) d by (simp add: x)
qed

lemma mag0_mul:
  assumes "mag0 1 j x" and "mag0 1 k y" and "- 1074 \<le> j + k" and "j + k \<le> 960"
  shows "mag0 1 (j + k) (fl_mul r64 x y)"
proof -
  obtain p q where x: "x = Fin p" "0 \<le> p" "p \<le> pow2 j" and y: "y = Fin q" "0 \<le> q" "q \<le> pow2 k"
    using assms by (auto simp: mag0_def)
  have "p * q \<le> pow2 j * pow2 k" using x y by (intro mult_mono) auto
  then show ?thesis using r64_mag0 [of "p * q" 1 "j + k"] assms(3,4) x y by (simp add: pow2_add)
qed

lemma mag0_add:
  assumes "mag0 i m x" and "mag0 1 m y" and "i + 1 < 2 ^ 53" and "- 1074 \<le> m" and "m \<le> 960"
  shows "mag0 (i + 1) m (fl_add r64 x y)"
proof -
  obtain p q where x: "x = Fin p" "0 \<le> p" "p \<le> of_nat i * pow2 m" and y: "y = Fin q" "0 \<le> q" "q \<le> pow2 m"
    using assms by (auto simp: mag0_def)
  then have "p + q \<le> of_nat (i + 1) * pow2 m" by (simp add: algebra_simps)
  then show ?thesis using r64_mag0 [of "p + q" "i + 1" m] assms(3-5) x y by simp
qed

section \<open>The columns\<close>

definition finite_column :: "(data_point \<Rightarrow> fl) \<Rightarrow> data_point list \<Rightarrow> bool" where
  "finite_column x data \<longleftrightarrow> (\<forall>dp\<in>set data. \<exists>q. x dp = Fin q \<and> (q = 0 \<or> 1 \<le> q))"

lemma nat_column: "n < 2 ^ 64 \<Longrightarrow> \<exists>q. nat_to_f64 n = Fin q \<and> (q = 0 \<or> 1 \<le> q) \<and> q \<le> pow2 64"
proof -
  assume n: "n < 2 ^ 64"
  have le: "(of_nat n :: rat) \<le> of_nat 1 * pow2 64"
    using n by (metis le_less of_nat_less_iff of_nat_1 mult_1 of_nat_numeral of_nat_power pow2_nat nat_numeral of_int_numeral of_int_power zero_le_numeral)
  have "mag0 1 64 (nat_to_f64 n)" unfolding nat_to_f64_def using le by (intro r64_mag0) auto
  moreover have "n = 0 \<or> fl_le (Fin 1) (nat_to_f64 n)"
    using f64.rnd_mono [of 1 "of_nat n"] f64.rnd_int_exact [of 1] by (cases n) (auto simp: nat_to_f64_def)
  moreover have "nat_to_f64 0 = Fin 0" by (simp add: nat_to_f64_def f64.rnd_zero)
  ultimately show ?thesis by (auto simp: mag0_def)
qed

lemma finite_columns: "finite_column dp_x1 data" "finite_column dp_x2 data"
  using nat_column [of "usize_mul a b" for a b]
  by (auto simp: finite_column_def dp_x1_def dp_x2_def usize_mul_def)

lemma column_max_spec:
  assumes "finite_column x data"
  shows "\<exists>M. column_max x data = Fin M \<and> (M = 0 \<or> 1 \<le> M \<and> Fin M \<in> x ` set data) \<and>
    (\<forall>dp\<in>set data. \<exists>q. x dp = Fin q \<and> 0 \<le> q \<and> q \<le> M)"
  using assms
proof (induction data rule: rev_induct)
  case (snoc dp data)
  then obtain M q where M: "column_max x data = Fin M" "M = 0 \<or> 1 \<le> M \<and> Fin M \<in> x ` set data"
      "\<forall>dp\<in>set data. \<exists>q. x dp = Fin q \<and> 0 \<le> q \<and> q \<le> M" and q: "x dp = Fin q" "q = 0 \<or> 1 \<le> q"
    by (auto simp: finite_column_def)
  have "column_max x (data @ [dp]) = Fin (max M q)"
    using M(1) q(1) by (auto simp: column_max_def fl_max_def max_def)
  moreover have "\<exists>q'. x d = Fin q' \<and> 0 \<le> q' \<and> q' \<le> max M q" if "d \<in> set (data @ [dp])" for d
    using that M(3) q by (auto simp: le_max_iff_disj)
  moreover have "max M q = 0 \<or> 1 \<le> max M q \<and> Fin (max M q) \<in> x ` set (data @ [dp])"
    using M(2) q by (auto simp: max_def image_iff)
  ultimately show ?case by blast
qed (simp add: column_max_def)

section \<open>The Gram matrix\<close>

definition gram_bounds :: "nat \<Rightarrow> gram \<Rightarrow> bool" where
  "gram_bounds n g \<longleftrightarrow>
     mag0 n 0 (g11 g) \<and> mag0 n 0 (g12 g) \<and> mag0 n 0 (g22 g) \<and> mag0 n 64 (gy1 g) \<and> mag0 n 64 (gy2 g)"

lemma unit_ratio:
  assumes "0 \<le> q" and "q \<le> M" and "1 \<le> M"
  shows "mag0 1 0 (fl_div r64 (Fin q) (Fin M))"
proof -
  have "0 \<le> q / M" "q / M \<le> of_nat 1 * pow2 0" using assms by (auto simp: pow2_def)
  from r64_mag0 [OF this] assms show ?thesis by simp
qed

lemma rss_mag: "n < 2 ^ 64 \<Longrightarrow> mag0 1 64 (nat_to_f64 n)"
  using nat_column [of n] by (auto simp: mag0_def)

lemma gram_step_bounds:
  assumes "gram_bounds n g" and "n + 1 < 2 ^ 53" and "dp_rss_delta dp < 2 ^ 64"
    and "dp_x1 dp = Fin q1" "0 \<le> q1" "q1 \<le> M1" "1 \<le> M1" and "dp_x2 dp = Fin q2" "0 \<le> q2" "q2 \<le> M2" "1 \<le> M2"
  shows "gram_bounds (n + 1) (gram_step (Fin M1) (Fin M2) g dp)"
proof -
  let ?n1 = "fl_div r64 (Fin q1) (Fin M1)" and ?n2 = "fl_div r64 (Fin q2) (Fin M2)"
  note u = unit_ratio [OF assms(5-7)] unit_ratio [OF assms(9-11)]
  note y = rss_mag [OF assms(3)]
  have m: "mag0 1 0 (fl_mul r64 a b)" if "mag0 1 0 a" "mag0 1 0 b" for a b using mag0_mul [OF that] by simp
  have my: "mag0 1 64 (fl_mul r64 a (nat_to_f64 (dp_rss_delta dp)))" if "mag0 1 0 a" for a
    using mag0_mul [OF that y] by simp
  show ?thesis
    using assms(1,2) u unfolding gram_bounds_def gram_step_def Let_def assms(4,8) gram.select_convs
    by (intro conjI; intro mag0_add m my; simp)
qed

lemma fl_add_ge_one:
  assumes "mag0 n m x" and "mag0 n' m' y" and "fl_le (Fin 1) x \<or> fl_le (Fin 1) y"
  shows "fl_le (Fin 1) (fl_add r64 x y)"
proof -
  obtain p q where x: "x = Fin p" "0 \<le> p" and y: "y = Fin q" "0 \<le> q" using assms by (auto simp: mag0_def)
  have "pow2 0 \<le> p + q" using assms(3) x y by (auto simp: pow2_def)
  from r64_ge [OF this] show ?thesis by (simp add: x y pow2_def)
qed

lemma r64_one [simp]: "r64 1 = Fin 1"
  using f64.rnd_int_exact [of 1] by simp

text \<open>The largest point of a column has ratio one, so the diagonal entry is at least one.\<close>

lemma gram_fold_bounds:
  assumes "length data < 2 ^ 53" and "1 \<le> M1" and "1 \<le> M2"
    and "\<forall>dp\<in>set data. dp_rss_delta dp < 2 ^ 64"
    and "\<forall>dp\<in>set data. \<exists>q. dp_x1 dp = Fin q \<and> 0 \<le> q \<and> q \<le> M1"
    and "\<forall>dp\<in>set data. \<exists>q. dp_x2 dp = Fin q \<and> 0 \<le> q \<and> q \<le> M2"
  shows "gram_bounds (length data) (foldl (gram_step (Fin M1) (Fin M2)) gram_zero data) \<and>
    (Fin M1 \<in> dp_x1 ` set data \<longrightarrow> fl_le (Fin 1) (g11 (foldl (gram_step (Fin M1) (Fin M2)) gram_zero data)))"
  using assms
proof (induction data rule: rev_induct)
  case Nil
  show ?case by (simp add: gram_bounds_def gram_zero_def mag0_def)
next
  case (snoc dp data)
  define g where "g = foldl (gram_step (Fin M1) (Fin M2)) gram_zero data"
  have ih: "gram_bounds (length data) g" "Fin M1 \<in> dp_x1 ` set data \<Longrightarrow> fl_le (Fin 1) (g11 g)"
    using snoc by (auto simp: g_def)
  obtain q1 q2 where q: "dp_x1 dp = Fin q1" "0 \<le> q1" "q1 \<le> M1" "dp_x2 dp = Fin q2" "0 \<le> q2" "q2 \<le> M2"
    using snoc.prems by auto
  have n1: "mag0 1 0 (fl_mul r64 (fl_div r64 (Fin q1) (Fin M1)) (fl_div r64 (Fin q1) (Fin M1)))"
    using mag0_mul [OF unit_ratio unit_ratio] q snoc.prems(2) by simp
  have "gram_bounds (length data + 1) (gram_step (Fin M1) (Fin M2) g dp)"
    using snoc.prems by (intro gram_step_bounds [OF ih(1) _ _ q(1-3) _ q(4-6)]) auto
  moreover have "fl_le (Fin 1) (g11 (gram_step (Fin M1) (Fin M2) g dp))" if "Fin M1 \<in> dp_x1 ` set (data @ [dp])"
  proof -
    have "fl_le (Fin 1) (g11 g) \<or> q1 = M1" using that ih(2) q(1) by auto
    moreover have "fl_mul r64 (fl_div r64 (Fin M1) (Fin M1)) (fl_div r64 (Fin M1) (Fin M1)) = Fin 1"
      using snoc.prems(2) by simp
    ultimately show ?thesis
      using ih(1) n1 unfolding gram_step_def Let_def q(1) gram.select_convs
      by (intro fl_add_ge_one [of "length data" 0 _ 1 0]) (auto simp: gram_bounds_def)
  qed
  ultimately show ?case by (simp add: g_def)
qed

section \<open>The solution\<close>

lemma r64_micro: "fl_le (Fin (pow2 (- 20))) (r64 (1 / 1000000))" "mag 1 0 (r64 (1 / 1000000))"
proof -
  have "pow2 (- 20) \<le> 1 / 1000000" by (simp add: pow2_def)
  then show "fl_le (Fin (pow2 (- 20))) (r64 (1 / 1000000))" by (rule r64_ge) auto
  show "mag 1 0 (r64 (1 / 1000000))" by (rule r64_mag) (auto simp: pow2_def)
qed

text \<open>The singularity threshold is not negligible, so the determinant that passes it is a safe divisor.\<close>

lemma threshold_ge:
  assumes "mag 1 52 d" and "fl_le (Fin 1) d"
  shows "fl_le (Fin (pow2 (- 20))) (fl_mul r64 (r64 (1 / 1000000)) (fl_mul r64 d d))"
proof -
  obtain p where p: "d = Fin p" "1 \<le> p" using assms by (auto simp: mag_def)
  have "1 * 1 \<le> p * p" using p(2) by (intro mult_mono) auto
  then have "fl_le (Fin (pow2 0)) (r64 (p * p))" by (intro r64_ge) (auto simp: pow2_def)
  moreover have "mag 1 104 (fl_mul r64 d d)" using mag_mul [OF assms(1) assms(1)] by simp
  ultimately obtain s where s: "fl_mul r64 d d = Fin s" "1 \<le> s" by (auto simp: p mag_def pow2_def)
  obtain c where c: "r64 (1 / 1000000) = Fin c" "pow2 (- 20) \<le> c" using r64_micro by (auto simp: mag_def)
  have "0 \<le> c" using c(2) pow2_nonneg [of "- 20"] by linarith
  then have "pow2 (- 20) * 1 \<le> c * s" using c s by (intro mult_mono) auto
  then have "fl_le (Fin (pow2 (- 20))) (r64 (c * s))" by (intro r64_ge) auto
  then show ?thesis by (simp add: s c)
qed

lemma solve_gram_finite:
  assumes g: "gram_bounds n g" "n \<le> 2 ^ 52" "fl_le (Fin 1) (g11 g)" and M: "1 \<le> M1" "1 \<le> M2"
    and sol: "solve_gram (Fin M1) (Fin M2) g = Some (a, b)"
  shows "mag 1 189 a \<and> mag 1 189 b"
proof -
  have w: "mag 1 (52 + m) x" if "mag0 n m x" for m x
    using mag_mono [OF mag0_mag [OF that] g(2)] mag_pow2 [of 52 m x] by simp
  have e: "mag 1 52 (g11 g)" "mag 1 52 (g12 g)" "mag 1 52 (g22 g)" "mag 1 116 (gy1 g)" "mag 1 116 (gy2 g)"
    using g(1) w [of 0] w [of 64] by (auto simp: gram_bounds_def)
  define det where "det = fl_sub r64 (fl_mul r64 (g11 g) (g22 g)) (fl_mul r64 (g12 g) (g12 g))"
  define diag where "diag = fl_max (g11 g) (g22 g)"
  have "mag 1 105 det"
    unfolding det_def using mag_sub [OF mag_mul [OF e(1,3)] mag_mul [OF e(2,2)]] by simp
  then obtain d where d: "det = Fin d" by (auto simp: mag_def)
  have diag: "mag 1 52 diag" "fl_le (Fin 1) diag"
    using e(1,3) g(3) by (auto simp: diag_def fl_max_def mag_def)
  have "\<not> fl_less (fl_abs det) (fl_mul r64 (r64 (1 / 1000000)) (fl_mul r64 diag diag))"
    using sol by (auto simp: solve_gram_def Let_def det_def diag_def split: if_splits)
  moreover have "mag 1 104 (fl_mul r64 (r64 (1 / 1000000)) (fl_mul r64 diag diag))"
    using mag_mul [OF r64_micro(2) mag_mul [OF diag(1) diag(1)]] by simp
  ultimately have big: "pow2 (- 20) \<le> \<bar>d\<bar>"
    using threshold_ge [OF diag] by (auto simp: d mag_def)
  have num: "mag 1 169 (fl_sub r64 (fl_mul r64 x y) (fl_mul r64 (g12 g) z))"
    if "mag 1 52 x" "mag 1 116 y" "mag 1 116 z" for x y z
    using mag_sub [OF mag_mul [OF that(1,2)] mag_mul [OF e(2) that(3)]] by simp
  have q: "mag 1 189 (fl_div r64 (fl_div r64 x (Fin d)) (Fin M))" if "mag 1 169 x" "1 \<le> M" for x M
    using mag_div [of 189 "fl_div r64 x (Fin d)" 0 M] mag_div [OF that(1) big] that(2) by (simp add: pow2_def)
  show ?thesis
    using sol q [OF num [OF e(3,4,5)] M(1)] q [OF num [OF e(1,5,4)] M(2)]
    by (auto simp: solve_gram_def Let_def d [unfolded det_def] split: if_splits)
qed

lemma fl_clamp_fin:
  assumes "lo \<le> hi"
  shows "\<exists>v. fl_clamp (Fin lo) (Fin hi) (Fin x) = Fin v \<and> lo \<le> v \<and> v \<le> hi"
  using fl_clamp_range [OF assms, of "Fin x"] by auto

lemma r64_centi: "\<exists>c. r64 (1 / 100) = Fin c \<and> 1 / 128 \<le> c \<and> c \<le> 1"
proof -
  have "fl_le (Fin (pow2 (- 7))) (r64 (1 / 100))" by (rule r64_ge) (auto simp: pow2_def)
  moreover have "mag 1 0 (r64 (1 / 100))" by (rule r64_mag) (auto simp: pow2_def)
  ultimately show ?thesis by (auto simp: mag_def pow2_def)
qed

definition in_range :: "fl \<Rightarrow> rat \<Rightarrow> rat \<Rightarrow> bool" where
  "in_range x lo hi \<longleftrightarrow> (\<exists>v. x = Fin v \<and> lo \<le> v \<and> v \<le> hi)"

lemma in_range_Fin [simp]: "in_range (Fin v) lo hi \<longleftrightarrow> lo \<le> v \<and> v \<le> hi"
  by (simp add: in_range_def)

lemma fit_cost_model_ranges:
  assumes fit: "fit_cost_model data = Some (a, b)" and len: "length data \<le> 2 ^ 52"
    and rss: "\<forall>dp\<in>set data. dp_rss_delta dp < 2 ^ 64"
  shows "in_range a 4096 262144 \<and> fl_le (r64 (1 / 100)) b \<and> fl_le b (Fin 50000)"
proof -
  obtain M1 where M1: "column_max dp_x1 data = Fin M1" "M1 = 0 \<or> 1 \<le> M1 \<and> Fin M1 \<in> dp_x1 ` set data"
      "\<forall>dp\<in>set data. \<exists>q. dp_x1 dp = Fin q \<and> 0 \<le> q \<and> q \<le> M1"
    using column_max_spec [OF finite_columns(1), of data] by blast
  obtain M2 where M2: "column_max dp_x2 data = Fin M2" "M2 = 0 \<or> 1 \<le> M2 \<and> Fin M2 \<in> dp_x2 ` set data"
      "\<forall>dp\<in>set data. \<exists>q. dp_x2 dp = Fin q \<and> 0 \<le> q \<and> q \<le> M2"
    using column_max_spec [OF finite_columns(2), of data] by blast
  let ?g = "foldl (gram_step (Fin M1) (Fin M2)) gram_zero data"
  obtain a_raw b_raw where s: "solve_gram (Fin M1) (Fin M2) ?g = Some (a_raw, b_raw)" "M1 \<noteq> 0" "M2 \<noteq> 0"
      "a = fl_clamp (Fin 4096) (Fin 262144) (fl_max a_raw (Fin 0))" "b = fl_clamp (r64 (1 / 100)) (Fin 50000) b_raw"
    using fit M1(1) M2(1) by (auto simp: fit_cost_model_def Let_def split: if_splits option.splits)
  have "gram_bounds (length data) ?g \<and> fl_le (Fin 1) (g11 ?g)"
    using gram_fold_bounds [of data M1 M2] len rss M1 M2 s(2,3) by auto
  then obtain p q where pq: "a_raw = Fin p" "b_raw = Fin q"
    using solve_gram_finite [of "length data" ?g M1 M2] s len M1(2) M2(2) by (auto simp: mag_def)
  obtain c where c: "r64 (1 / 100) = Fin c" "1 / 128 \<le> c" "c \<le> 1" using r64_centi by auto
  have "fl_max a_raw (Fin 0) = Fin (max p 0)" using pq by (auto simp: fl_max_def)
  then show ?thesis
    using fl_clamp_fin [of 4096 262144 "max p 0"] fl_clamp_fin [of c 50000 q] c
    by (fastforce simp: s(4,5) pq in_range_def)
qed

end
