(* ===== verification/Probe.thy ===== *)
theory Probe
  imports Probe_Fit Json Worker
begin

text \<open>
  The start-up memory probe: \<open>src/probe/runner.rs\<close> (the sweep), \<open>corpus.rs\<close> (the texts it sends) and \<open>cache.rs\<close>
  (the coefficients kept on disk). The pool, the resident-set reading and the file system are
  arguments; \<open>serde_json\<close> appears as an encoder and a decoder. Texts are cut at byte positions, as the code does, so a cut inside
  a code point is a panic; which corpora are cut cleanly is a predicate of its own (\<open>corpus_clean\<close>).
\<close>

section \<open>Texts\<close>

definition fallback_text :: string where
  "fallback_text = ''The embedding server startup probe synthesizes texts to measure workspace cost.''"

text \<open>\<open>None\<close>: the corpus file cannot be read or parsed.\<close>

definition scenario_texts :: "json \<Rightarrow> string list" where
  "scenario_texts scenario =
     (case json_array (json_index scenario ''texts'') of
        Some arr \<Rightarrow> List.map_filter json_string arr
      | None \<Rightarrow> [])"

definition load_probe_texts :: "json option \<Rightarrow> string list" where
  "load_probe_texts file =
     (case file of
        None \<Rightarrow> [fallback_text]
      | Some json \<Rightarrow>
          (case json_object (json_index json ''scenarios'') of
             None \<Rightarrow> [fallback_text]
           | Some scenarios \<Rightarrow>
               let texts = concat (map (\<lambda>(_, scenario). scenario_texts scenario) scenarios)
               in if texts \<noteq> [] then texts else [fallback_text]))"

text \<open>Slicing \<open>&s[..n]\<close> panics inside a code point.\<close>

definition str_slice_to :: "string \<Rightarrow> nat \<Rightarrow> (failure, string) result" where
  "str_slice_to s n =
     (if n = length s \<or> n < length s \<and> \<not> is_continuation_byte (s ! n) then Inr (take n s) else Inl Panic)"

definition synthesize_one :: "string \<Rightarrow> nat \<Rightarrow> (failure, string) result" where
  "synthesize_one base target_chars =
     (let repeated = concat (replicate (max (target_chars div max (length base) 1) 2 + 1) base)
      in if target_chars < length repeated then str_slice_to repeated target_chars else Inr repeated)"

fun collect_results :: "('e, 'a) result list \<Rightarrow> ('e, 'a list) result" where
  "collect_results [] = Inr []"
| "collect_results (r # rs) = rbind r (\<lambda>x. rbind (collect_results rs) (\<lambda>xs. Inr (x # xs)))"

definition synthesize_texts :: "string list \<Rightarrow> nat \<Rightarrow> nat \<Rightarrow> (failure, string list) result" where
  "synthesize_texts corpus batch target_seq =
     (let target_chars = max (sat_mul usize_max target_seq 4) 16
      in if corpus = [] \<and> 0 < batch then Inl Panic
         else collect_results (map (\<lambda>i. synthesize_one (corpus ! (i mod length corpus)) target_chars) [0..<batch]))"

section \<open>The sweep\<close>

definition PROBE_SHAPES :: "shape list" where
  "PROBE_SHAPES = [(1, 64), (4, 64), (1, 256), (1, 1024), (1, 2048), (1, 4096)]"

definition probe_shapes :: "nat \<Rightarrow> shape list" where
  "probe_shapes max_seq =
     sort_key (\<lambda>(b, s). b * s)
       (filter (\<lambda>(_, s). s \<le> max_seq)
         (if list_ex (\<lambda>(_, s). s = max_seq) PROBE_SHAPES then PROBE_SHAPES else PROBE_SHAPES @ [(1, max_seq)]))"

text \<open>The answer of the pool to the \<open>k\<close>-th probe request and the resident set read before the \<open>k\<close>-th shape.\<close>

record probe_env =
  pe_probe :: "nat \<Rightarrow> string list \<Rightarrow> (any_error, probe_result) result"
  pe_rss :: "nat \<Rightarrow> nat option"

definition breaches_limit :: "cost_model \<Rightarrow> nat \<Rightarrow> nat option \<Rightarrow> nat \<Rightarrow> nat \<Rightarrow> bool" where
  "breaches_limit conservative_cm cgroup_limit_bytes rss batch seq =
     (if 0 < cgroup_limit_bytes
      then let current_rss = (case rss of Some n \<Rightarrow> n | None \<Rightarrow> 0);
               estimated_cost = chunk_cost conservative_cm batch seq mod 2 ^ 64;
               headroom = cgroup_limit_bytes div 8;
               rss_limit = cgroup_limit_bytes - headroom;
               projected = sat_add usize_max current_rss (sat_mul usize_max estimated_cost 4)
           in rss_limit < projected
      else False)"

record sweep =
  sw_data :: "data_point list"
  sw_skipped :: nat
  sw_errored :: nat

fun probe_sweep ::
  "probe_env \<Rightarrow> string list \<Rightarrow> cost_model \<Rightarrow> nat \<Rightarrow> nat \<Rightarrow> shape list \<Rightarrow> sweep \<Rightarrow> (failure, sweep) result" where
  "probe_sweep env corpus cm limit k [] sw = Inr sw"
| "probe_sweep env corpus cm limit k ((batch, seq) # shapes) sw =
     (if \<not> fits cm batch seq \<or> breaches_limit cm limit (pe_rss env k) batch seq
      then probe_sweep env corpus cm limit (k + 1) shapes (sw\<lparr>sw_skipped := sw_skipped sw + 1\<rparr>)
      else rbind (synthesize_texts corpus batch seq) (\<lambda>texts.
             case pe_probe env k texts of
               Inr r \<Rightarrow>
                 probe_sweep env corpus cm limit (k + 1) shapes
                   (sw\<lparr>sw_data := sw_data sw @
                      [\<lparr>dp_batch = batch, dp_seq = seq, dp_rss_delta = pr_rss_after r - pr_rss_before r\<rparr>]\<rparr>)
             | Inl e \<Rightarrow>
                 probe_sweep env corpus cm limit (k + 1) shapes (sw\<lparr>sw_errored := sw_errored sw + 1\<rparr>)))"

definition conclude :: "data_point list \<Rightarrow> fl \<times> fl" where
  "conclude data =
     (if data = [] \<or> list_all (\<lambda>dp. dp_rss_delta dp = 0) data then (CONSERVATIVE_A, CONSERVATIVE_B)
      else case fit_cost_model data of Some ab \<Rightarrow> ab | None \<Rightarrow> (CONSERVATIVE_A, CONSERVATIVE_B))"

text \<open>
  The two \<open>i64\<close> arrays of shape \<open>(1, max_seq)\<close> whose dimensions are logged: an array of more than \<open>isize::MAX\<close> bytes
  cannot be made, and the attempt panics.
\<close>

definition validate_max_seq_shape :: "nat \<Rightarrow> (failure, (nat \<times> nat) \<times> (nat \<times> nat)) result" where
  "validate_max_seq_shape max_seq =
     (if isize_max < max_seq * 8 then Inl Panic
      else let ids = (1, max_seq); mask = (1, max_seq) in Inr (ids, mask))"

text \<open>The arena warm-up is request 0; its answer is only logged.\<close>

definition run_probe :: "probe_env \<Rightarrow> json option \<Rightarrow> nat \<Rightarrow> nat \<Rightarrow> nat \<Rightarrow> (failure, fl \<times> fl) result" where
  "run_probe env corpus_file max_seq rss_ceiling cgroup_limit_bytes =
     rbind (validate_max_seq_shape max_seq) (\<lambda>_.
       let corpus_texts = load_probe_texts corpus_file
       in rbind (synthesize_texts corpus_texts 1 64) (\<lambda>warmup_texts.
            let warmup = pe_probe env 0 warmup_texts
            in rbind (probe_sweep env corpus_texts (conservative rss_ceiling) cgroup_limit_bytes 1 (probe_shapes max_seq)
                        \<lparr>sw_data = [], sw_skipped = 0, sw_errored = 0\<rparr>)
                 (\<lambda>sw. Inr (conclude (sw_data sw)))))"

section \<open>The cache of coefficients\<close>

record probe_cache =
  pc_schema_version :: nat
  pc_server_version :: string
  pc_model :: string
  pc_max_seq :: nat
  pc_arch :: string
  pc_fitted_at_unix :: nat
  pc_a :: fl
  pc_b :: fl

text \<open>The version and the architecture the server was built for.\<close>

record build_info =
  bi_version :: string
  bi_arch :: string

definition cache_file :: string where "cache_file = ''probe-coefficients.json''"

definition cache_tmp_file :: string where "cache_tmp_file = ''probe-coefficients.json.tmp''"

definition try_load_probe_cache ::
  "build_info \<Rightarrow> (string \<Rightarrow> probe_cache option) \<Rightarrow> (string \<rightharpoonup> string) \<Rightarrow> string \<Rightarrow> nat \<Rightarrow> (fl \<times> fl) option" where
  "try_load_probe_cache bi decode dir model_variant max_seq =
     Option.bind (dir cache_file) (\<lambda>raw.
     Option.bind (decode raw) (\<lambda>cache.
       if pc_schema_version cache \<noteq> 1 \<or> pc_server_version cache \<noteq> bi_version bi \<or> pc_model cache \<noteq> model_variant \<or>
          pc_max_seq cache \<noteq> max_seq \<or> pc_arch cache \<noteq> bi_arch bi
       then None
       else if fl_le (pc_a cache) (Fin 0) \<or> fl_le (pc_b cache) (Fin 0) then None
       else Some (pc_a cache, pc_b cache)))"

text \<open>A failed write may leave a partial temporary file; a failed rename removes it.\<close>

datatype write_outcome = Write_Ok | Write_Failed "string option" | Rename_Failed

definition save_probe_cache ::
  "build_info \<Rightarrow> (probe_cache \<Rightarrow> string option) \<Rightarrow> nat \<Rightarrow> write_outcome \<Rightarrow> (string \<rightharpoonup> string) \<Rightarrow> string \<Rightarrow> nat \<Rightarrow>
   fl \<Rightarrow> fl \<Rightarrow> (string \<rightharpoonup> string)" where
  "save_probe_cache bi encode now out dir model_variant max_seq a b =
     (let cache = \<lparr>pc_schema_version = 1, pc_server_version = bi_version bi, pc_model = model_variant,
                   pc_max_seq = max_seq, pc_arch = bi_arch bi, pc_fitted_at_unix = now, pc_a = a, pc_b = b\<rparr>
      in case encode cache of
           None \<Rightarrow> dir
         | Some json \<Rightarrow>
             (case out of
                Write_Failed partial \<Rightarrow> dir(cache_tmp_file := partial)
              | Rename_Failed \<Rightarrow> dir(cache_tmp_file := None)
              | Write_Ok \<Rightarrow> dir(cache_tmp_file := None, cache_file := Some json)))"

section \<open>Facts about the texts\<close>

definition ascii :: "string \<Rightarrow> bool" where
  "ascii s \<longleftrightarrow> list_all (\<lambda>c. \<not> is_continuation_byte c) s"

lemma ascii_fallback: "ascii fallback_text"
  by (simp add: ascii_def fallback_text_def is_continuation_byte_def)

lemma load_probe_texts_nonempty: "load_probe_texts file \<noteq> []"
  by (auto simp: load_probe_texts_def Let_def split: option.splits)

text \<open>
  A base text is repeated beyond the target and cut to it exactly, and the cut succeeds exactly when it
  does not fall inside a code point of the base text.
\<close>

definition cuts_cleanly :: "string \<Rightarrow> nat \<Rightarrow> bool" where
  "cuts_cleanly base target \<longleftrightarrow> base = [] \<or> \<not> is_continuation_byte (base ! (target mod length base))"

lemma nth_concat_replicate: "i < n * length xs \<Longrightarrow> concat (replicate n xs) ! i = xs ! (i mod length xs)"
proof (induction n arbitrary: i)
  case (Suc n)
  then show ?case by (cases "i < length xs") (auto simp: nth_append le_mod_geq)
qed simp

lemma synthesize_one_iff:
  "if cuts_cleanly base target then \<exists>t. synthesize_one base target = Inr t \<and> (base \<noteq> [] \<longrightarrow> length t = target)
   else synthesize_one base target = Inl Panic"
proof (cases "base = []")
  case False
  define n where "n = max (target div max (length base) 1) 2 + 1"
  define r where "r = concat (replicate n base)"
  have L: "max (length base) 1 = length base" "0 < length base" using False by (cases base; simp)+
  have "target < (target div length base + 1) * length base"
    using dividend_less_div_times [OF L(2), of target] by simp
  also have "\<dots> \<le> n * length base" unfolding n_def L(1) by (intro mult_right_mono) simp_all
  finally have n: "target < n * length base" .
  then have "target < length r" "r ! target = base ! (target mod length base)"
    by (simp_all add: r_def length_concat sum_list_replicate nth_concat_replicate)
  then show ?thesis
    using False unfolding synthesize_one_def Let_def n_def [symmetric] r_def [symmetric]
    by (auto simp: str_slice_to_def cuts_cleanly_def)
qed (simp add: synthesize_one_def cuts_cleanly_def)

lemma collect_results_Inr: "list_all (\<lambda>r. \<exists>x. r = Inr x) rs \<Longrightarrow> \<exists>xs. collect_results rs = Inr xs \<and> map Inr xs = rs"
  by (induction rs) auto

lemma collect_results_Panic:
  "list_all (\<lambda>r. r = Inl Panic \<or> (\<exists>x. r = Inr x)) rs \<Longrightarrow> Inl Panic \<in> set rs \<Longrightarrow> collect_results rs = Inl Panic"
  by (induction rs) auto

definition shape_clean :: "string list \<Rightarrow> shape \<Rightarrow> bool" where
  "shape_clean corpus sh \<longleftrightarrow>
     list_all (\<lambda>i. cuts_cleanly (corpus ! (i mod length corpus)) (max (sat_mul usize_max (snd sh) 4) 16)) [0..<fst sh]"

lemma synthesize_texts_iff:
  assumes "corpus \<noteq> []"
  shows "if shape_clean corpus (batch, seq)
    then \<exists>ts. synthesize_texts corpus batch seq = Inr ts \<and> length ts = batch \<and>
      ([] \<notin> set corpus \<longrightarrow> list_all (\<lambda>t. length t = max (sat_mul usize_max seq 4) 16) ts)
    else synthesize_texts corpus batch seq = Inl Panic"
proof -
  let ?T = "max (sat_mul usize_max seq 4) 16"
  let ?base = "\<lambda>i. corpus ! (i mod length corpus)"
  let ?rs = "map (\<lambda>i. synthesize_one (?base i) ?T) [0..<batch]"
  have one: "if cuts_cleanly (?base i) ?T then \<exists>t. synthesize_one (?base i) ?T = Inr t \<and> (?base i \<noteq> [] \<longrightarrow> length t = ?T)
      else synthesize_one (?base i) ?T = Inl Panic" for i by (rule synthesize_one_iff)
  have run: "synthesize_texts corpus batch seq = collect_results ?rs"
    using assms by (simp add: synthesize_texts_def Let_def)
  show ?thesis
  proof (cases "shape_clean corpus (batch, seq)")
    case True
    then have clean: "cuts_cleanly (?base i) ?T" if "i < batch" for i
      using that by (simp add: shape_clean_def list_all_iff)
    have "\<exists>x. synthesize_one (?base i) ?T = Inr x" if "i < batch" for i using one [of i] clean [OF that] by auto
    then have "list_all (\<lambda>r. \<exists>x. r = Inr x) ?rs" by (simp add: list_all_iff)
    from collect_results_Inr [OF this] obtain ts where ts: "collect_results ?rs = Inr ts" "map Inr ts = ?rs" by blast
    have l: "length ts = batch" using arg_cong [OF ts(2), of length] by simp
    have "length (ts ! i) = ?T" if "[] \<notin> set corpus" "i < batch" for i
    proof -
      have "Inr (ts ! i) = synthesize_one (?base i) ?T"
        using arg_cong [OF ts(2), of "\<lambda>xs. xs ! i"] that(2) l by simp
      moreover have "?base i \<in> set corpus" using assms by (intro nth_mem) simp
      then have "?base i \<noteq> []" using that(1) by metis
      ultimately show ?thesis using one [of i] clean [OF that(2)] by auto
    qed
    then show ?thesis using True ts(1) l run by (auto simp: list_all_length)
  next
    case False
    then obtain i where "i < batch" "\<not> cuts_cleanly (?base i) ?T" by (auto simp: shape_clean_def list_all_iff)
    then have "Inl Panic \<in> set ?rs" using one [of i] by (auto intro!: image_eqI [of _ _ i])
    moreover have "synthesize_one (?base i) ?T = Inl Panic \<or> (\<exists>x. synthesize_one (?base i) ?T = Inr x)" for i
      using one [of i] by (auto split: if_splits)
    then have "list_all (\<lambda>r. r = Inl Panic \<or> (\<exists>x. r = Inr x)) ?rs" by (simp add: list_all_iff)
    ultimately have "collect_results ?rs = Inl Panic" using collect_results_Panic by blast
    then show ?thesis using False run by simp
  qed
qed

text \<open>No shape has more than four texts, so only the first four entries of the corpus are ever cut.\<close>

definition corpus_clean :: "string list \<Rightarrow> nat \<Rightarrow> bool" where
  "corpus_clean corpus max_seq \<longleftrightarrow> list_all (shape_clean corpus) ((1, 64) # probe_shapes max_seq)"

lemma probe_shapes_batch: "sh \<in> set (probe_shapes max_seq) \<Longrightarrow> fst sh \<le> 4"
  by (auto simp: probe_shapes_def PROBE_SHAPES_def split: if_splits)

lemma ascii_corpus_clean:
  assumes "list_all ascii (take 4 corpus)" and "corpus \<noteq> []"
  shows "corpus_clean corpus max_seq"
proof -
  have "ascii (corpus ! (i mod length corpus))" if "i < 4" for i
  proof -
    have "i mod length corpus < length (take 4 corpus)" using that assms(2) by (simp add: less_le_trans min_less_iff_conj le_less_trans [OF mod_less_eq_dividend])
    then show ?thesis using assms(1) by (fastforce simp: list_all_length)
  qed
  then have "cuts_cleanly (corpus ! (i mod length corpus)) t" if "i < 4" for i t
    using that by (auto simp: cuts_cleanly_def ascii_def list_all_length)
  then have "shape_clean corpus sh" if "fst sh \<le> 4" for sh
    using that by (auto simp: shape_clean_def list_all_iff)
  then show ?thesis by (auto simp: corpus_clean_def list_all_iff dest: probe_shapes_batch)
qed

section \<open>Facts about the sweep\<close>

lemma probe_shapes_length: "length (probe_shapes max_seq) \<le> 7"
proof -
  have "length (filter P xs) \<le> 7" if "length xs \<le> 7" for P and xs :: "shape list"
    using that length_filter_le le_trans by blast
  then show ?thesis by (simp add: probe_shapes_def PROBE_SHAPES_def)
qed

text \<open>Both guards in plain arithmetic: neither the truncation nor the saturation can hide a breach.\<close>

lemma guards_exact:
  assumes "fits cm batch seq" and "max_workspace_bytes cm \<le> usize_max" and "\<not> breaches_limit cm limit rss batch seq"
    and "0 < limit" and "limit \<le> usize_max"
  shows "(case rss of Some n \<Rightarrow> n | None \<Rightarrow> 0) + 4 * chunk_cost cm batch seq \<le> limit - limit div 8"
proof -
  have c: "chunk_cost cm batch seq \<le> usize_max" using assms(1,2) by (simp add: fits_def)
  then have m: "chunk_cost cm batch seq mod 2 ^ 64 = chunk_cost cm batch seq" by (simp add: usize_max_def)
  have lim: "limit - limit div 8 < usize_max" using assms(4,5) by (auto simp: usize_max_def)
  have "sat_add usize_max (case rss of Some n \<Rightarrow> n | None \<Rightarrow> 0) (sat_mul usize_max (chunk_cost cm batch seq) 4) \<le> limit - limit div 8"
    using assms(3,4) m by (simp add: breaches_limit_def Let_def)
  then show ?thesis using lim by (auto simp: sat_add_def sat_mul_def min_def split: if_splits)
qed

definition admitted_point :: "probe_env \<Rightarrow> cost_model \<Rightarrow> nat \<Rightarrow> nat \<Rightarrow> shape list \<Rightarrow> data_point \<Rightarrow> bool" where
  "admitted_point env cm limit k shapes dp \<longleftrightarrow>
     (\<exists>j<length shapes. shapes ! j = (dp_batch dp, dp_seq dp) \<and> fits cm (dp_batch dp) (dp_seq dp) \<and>
        \<not> breaches_limit cm limit (pe_rss env (k + j)) (dp_batch dp) (dp_seq dp) \<and>
        (\<exists>texts r. pe_probe env (k + j) texts = Inr r \<and> dp_rss_delta dp = pr_rss_after r - pr_rss_before r))"

lemma admitted_later: "admitted_point env cm limit (Suc k) shapes dp \<Longrightarrow> admitted_point env cm limit k (sh # shapes) dp"
  unfolding admitted_point_def by (metis Suc_less_eq add_Suc_right add_Suc length_Cons nth_Cons_Suc)

lemma admitted_here:
  "fits cm b s \<Longrightarrow> \<not> breaches_limit cm limit (pe_rss env k) b s \<Longrightarrow> pe_probe env k texts = Inr r \<Longrightarrow>
   admitted_point env cm limit k ((b, s) # shapes)
     \<lparr>dp_batch = b, dp_seq = s, dp_rss_delta = pr_rss_after r - pr_rss_before r\<rparr>"
  unfolding admitted_point_def by (intro exI [of _ 0]) auto

lemma probe_sweep_admits:
  assumes "probe_sweep env corpus cm limit k shapes sw = Inr sw'"
  shows "\<exists>new. sw_data sw' = sw_data sw @ new \<and>
    sw_skipped sw' + sw_errored sw' + length new = sw_skipped sw + sw_errored sw + length shapes \<and>
    (\<forall>dp\<in>set new. admitted_point env cm limit k shapes dp)"
  using assms
proof (induction shapes arbitrary: k sw)
  case (Cons sh shapes)
  obtain batch seq where sh: "sh = (batch, seq)" by (cases sh)
  let ?skip = "\<not> fits cm batch seq \<or> breaches_limit cm limit (pe_rss env k) batch seq"
  show ?case
  proof (cases ?skip)
    case True
    then show ?thesis using Cons.IH [of "k + 1"] Cons.prems by (fastforce simp: sh intro: admitted_later)
  next
    case run: False
    then obtain texts where t: "synthesize_texts corpus batch seq = Inr texts"
      using Cons.prems by (auto simp: sh result_iff)
    show ?thesis
    proof (cases "pe_probe env k texts")
      case (Inl e)
      then show ?thesis using Cons.IH [of "k + 1"] Cons.prems run t by (fastforce simp: sh intro: admitted_later)
    next
      case (Inr r)
      let ?dp = "\<lparr>dp_batch = batch, dp_seq = seq, dp_rss_delta = pr_rss_after r - pr_rss_before r\<rparr>"
      obtain new where "sw_data sw' = (sw_data sw @ [?dp]) @ new"
          "sw_skipped sw' + sw_errored sw' + length new = sw_skipped sw + sw_errored sw + length shapes"
          "\<forall>dp\<in>set new. admitted_point env cm limit (Suc k) shapes dp"
        using Cons.IH [of "k + 1" "sw\<lparr>sw_data := sw_data sw @ [?dp]\<rparr>"] Cons.prems run t Inr by (auto simp: sh)
      then show ?thesis
        using run Inr by (intro exI [of _ "?dp # new"]) (auto simp: sh intro: admitted_later admitted_here)
    qed
  qed
qed simp

text \<open>The texts of every shape the two guards admit can be cut.\<close>

definition sweep_clean :: "probe_env \<Rightarrow> string list \<Rightarrow> cost_model \<Rightarrow> nat \<Rightarrow> nat \<Rightarrow> shape list \<Rightarrow> bool" where
  "sweep_clean env corpus cm limit k shapes \<longleftrightarrow>
     list_all (\<lambda>j. case shapes ! j of (batch, seq) \<Rightarrow>
       \<not> fits cm batch seq \<or> breaches_limit cm limit (pe_rss env (k + j)) batch seq \<or> shape_clean corpus (batch, seq))
       [0..<length shapes]"

lemma sweep_clean_iff:
  "sweep_clean env corpus cm limit k shapes \<longleftrightarrow>
     (\<forall>j<length shapes. case shapes ! j of (batch, seq) \<Rightarrow>
        \<not> fits cm batch seq \<or> breaches_limit cm limit (pe_rss env (k + j)) batch seq \<or> shape_clean corpus (batch, seq))"
  by (simp add: sweep_clean_def list_all_iff Ball_def)

lemma sweep_clean_Cons:
  "sweep_clean env corpus cm limit k ((batch, seq) # shapes) \<longleftrightarrow>
     (\<not> fits cm batch seq \<or> breaches_limit cm limit (pe_rss env k) batch seq \<or> shape_clean corpus (batch, seq)) \<and>
     sweep_clean env corpus cm limit (k + 1) shapes"
  by (simp add: sweep_clean_iff All_less_Suc2)

lemma sweep_clean_all: "list_all (shape_clean corpus) shapes \<Longrightarrow> sweep_clean env corpus cm limit k shapes"
  by (auto simp: sweep_clean_iff list_all_length split: prod.split)

lemma probe_sweep_iff:
  assumes "corpus \<noteq> []"
  shows "if sweep_clean env corpus cm limit k shapes then \<exists>sw'. probe_sweep env corpus cm limit k shapes sw = Inr sw'
    else probe_sweep env corpus cm limit k shapes sw = Inl Panic"
proof (induction shapes arbitrary: k sw)
  case (Cons sh shapes)
  obtain batch seq where sh: "sh = (batch, seq)" by (cases sh)
  show ?case
    using Cons.IH [of "k + 1"] synthesize_texts_iff [OF assms, of batch seq]
    by (auto simp: sh sweep_clean_Cons split: sum.split if_splits)
qed (simp add: sweep_clean_def)

definition probe_clean :: "probe_env \<Rightarrow> json option \<Rightarrow> nat \<Rightarrow> nat \<Rightarrow> nat \<Rightarrow> bool" where
  "probe_clean env file max_seq rss_ceiling limit \<longleftrightarrow>
     shape_clean (load_probe_texts file) (1, 64) \<and>
     sweep_clean env (load_probe_texts file) (conservative rss_ceiling) limit 1 (probe_shapes max_seq)"

lemma corpus_clean_probe: "corpus_clean (load_probe_texts file) max_seq \<Longrightarrow> probe_clean env file max_seq rss_ceiling limit"
  by (simp add: corpus_clean_def probe_clean_def sweep_clean_all)

lemma coefficient_floor:
  assumes "fl_le (r64 (1 / 100)) b" and "fl_le b (Fin 50000)"
  shows "in_range b (1 / 128) 50000"
  using assms r64_centi by (cases b) (auto intro: order_trans)

lemma conclude_range:
  assumes "\<forall>dp\<in>set data. dp_rss_delta dp < 2 ^ 64" and "length data \<le> 2 ^ 52"
  shows "in_range (fst (conclude data)) 4096 262144 \<and> fl_le (r64 (1 / 100)) (snd (conclude data)) \<and>
    fl_le (snd (conclude data)) (Fin 50000)"
proof -
  obtain c where "r64 (1 / 100) = Fin c" "c \<le> 1" using r64_centi by blast
  then have "in_range CONSERVATIVE_A 4096 262144" "fl_le (r64 (1 / 100)) CONSERVATIVE_B" "fl_le CONSERVATIVE_B (Fin 50000)"
    by (simp_all add: in_range_def CONSERVATIVE_A_def CONSERVATIVE_B_def)
  then show ?thesis
    using fit_cost_model_ranges [OF _ assms(2,1)] by (auto simp: conclude_def split: option.split)
qed

lemma in_range_wf:
  assumes "in_range a 4096 262144" and "in_range b (1 / 128) 50000"
  shows "wf_cost_model \<lparr>cm_a = a, cm_b = b, max_workspace_bytes = w\<rparr>"
proof -
  obtain p q where "a = Fin p" "4096 \<le> p" "b = Fin q" "1 / 128 \<le> q" using assms by (auto simp: in_range_def)
  moreover have "0 \<le> q" using \<open>1 / 128 \<le> q\<close> by (rule order_trans [rotated]) simp
  ultimately show ?thesis by (simp add: wf_cost_model_def)
qed

lemma run_probe_coefficients:
  assumes "\<forall>k texts r. pe_probe env k texts = Inr r \<longrightarrow> pr_rss_after r < 2 ^ 64" and "max_seq * 8 \<le> isize_max"
  shows "if probe_clean env file max_seq rss_ceiling limit
    then \<exists>a b. run_probe env file max_seq rss_ceiling limit = Inr (a, b) \<and>
      in_range a 4096 262144 \<and> fl_le (r64 (1 / 100)) b \<and> fl_le b (Fin 50000) \<and>
      (\<forall>w. wf_cost_model \<lparr>cm_a = a, cm_b = b, max_workspace_bytes = w\<rparr>)
    else run_probe env file max_seq rss_ceiling limit = Inl Panic"
proof -
  let ?corpus = "load_probe_texts file" and ?sw0 = "\<lparr>sw_data = [], sw_skipped = 0, sw_errored = 0\<rparr>"
  let ?sweep = "probe_sweep env ?corpus (conservative rss_ceiling) limit 1 (probe_shapes max_seq) ?sw0"
  note texts = synthesize_texts_iff [of ?corpus 1 64, OF load_probe_texts_nonempty]
  note sweep = probe_sweep_iff [of ?corpus env "conservative rss_ceiling" limit 1 "probe_shapes max_seq" ?sw0,
      OF load_probe_texts_nonempty]
  have run: "run_probe env file max_seq rss_ceiling limit =
      rbind (synthesize_texts ?corpus 1 64) (\<lambda>_. rbind ?sweep (\<lambda>sw. Inr (conclude (sw_data sw))))"
    using assms(2) by (simp add: run_probe_def validate_max_seq_shape_def Let_def)
  show ?thesis
  proof (cases "probe_clean env file max_seq rss_ceiling limit")
    case False
    then show ?thesis using texts sweep by (auto simp: run probe_clean_def split: if_splits)
  next
    case True
    then obtain sw ts where sw: "?sweep = Inr sw" and ts: "synthesize_texts ?corpus 1 64 = Inr ts"
      using texts sweep by (auto simp: probe_clean_def)
    obtain new where new: "sw_data sw = new" "length new \<le> length (probe_shapes max_seq)"
        "\<forall>dp\<in>set new. admitted_point env (conservative rss_ceiling) limit 1 (probe_shapes max_seq) dp"
      using probe_sweep_admits [OF sw] by (fastforce intro: trans_le_add2)
    have "length (sw_data sw) \<le> 2 ^ 52" using new(1,2) probe_shapes_length [of max_seq] by simp
    moreover have "\<forall>dp\<in>set (sw_data sw). dp_rss_delta dp < 2 ^ 64"
      using new assms(1) by (fastforce simp: admitted_point_def intro: le_less_trans [OF diff_le_self])
    ultimately have r: "in_range (fst (conclude (sw_data sw))) 4096 262144"
        "fl_le (r64 (1 / 100)) (snd (conclude (sw_data sw)))" "fl_le (snd (conclude (sw_data sw))) (Fin 50000)"
      using conclude_range by blast+
    have "run_probe env file max_seq rss_ceiling limit = Inr (fst (conclude (sw_data sw)), snd (conclude (sw_data sw)))"
      unfolding run ts sw by simp
    then show ?thesis using True r in_range_wf [OF r(1) coefficient_floor [OF r(2,3)]]
      by (cases "conclude (sw_data sw)") simp
  qed
qed

section \<open>Properties\<close>

text \<open>A pool that answers every probe request with the same growth.\<close>

definition sample_probe_env :: probe_env where
  "sample_probe_env =
     \<lparr>pe_probe = (\<lambda>k texts. Inr \<lparr>pr_rss_before = 1000, pr_rss_after = 1000 + 100 * (k mod 8)\<rparr>), pe_rss = (\<lambda>k. Some 1000)\<rparr>"

text \<open>
  C20: the probe ends with usable coefficients. Whatever the pool measures or fails to measure,
  \<open>run_probe\<close> returns coefficients in their operational range (\<open>a\<close> between 4096 and 262144, \<open>b\<close> between the
  \<open>f64\<close> nearest to 0.01 and 50000), so that the estimated cost of a chunk is monotone in its batch and in
  its length. The one exception is exact: it panics if and only if the text of the warm-up, or of a shape that
  both guards admit, is cut inside a code point. Readings are 64-bit numbers, and the arrays of the
  shape check fit the address space, as they do for every length the model supports.
\<close>

theorem run_probe_usable:
  assumes "\<forall>k texts r. pe_probe env k texts = Inr r \<longrightarrow> pr_rss_after r < 2 ^ 64" and "max_seq * 8 \<le> isize_max"
  shows "if probe_clean env file max_seq rss_ceiling limit
    then \<exists>a b. run_probe env file max_seq rss_ceiling limit = Inr (a, b) \<and>
      in_range a 4096 262144 \<and> fl_le (r64 (1 / 100)) b \<and> fl_le b (Fin 50000) \<and>
      (\<forall>w. wf_cost_model \<lparr>cm_a = a, cm_b = b, max_workspace_bytes = w\<rparr>)
    else run_probe env file max_seq rss_ceiling limit = Inl Panic"
  using assms by (rule run_probe_coefficients)

text \<open>
  A corpus as the server reads it, with the first texts of \<open>benches/fixtures/corpus.json\<close> (in the order of the
  keys) and one whose second character takes two bytes; and a corpus that starts with a text of that
  character alone, behind one letter.
\<close>

definition two_bytes :: string where "two_bytes = [CHR 0xC3, CHR 0xA9]"

definition corpus_file :: "string list \<Rightarrow> json option" where
  "corpus_file texts = Some (JObj [(''scenarios'', JObj [(''boundary_cases'', JObj [(''texts'', JArr (map JStr texts))])])])"

theorem run_probe_usable_witness:
  "(\<exists>a b. run_probe sample_probe_env (corpus_file [''hello'', ''AI'', ''the'', ''machine learning'', ''r'' @ two_bytes])
       8192 (2 ^ 32) (2 ^ 34) = Inr (a, b) \<and> in_range a 4096 262144) \<and>
   run_probe sample_probe_env (corpus_file [''r'' @ two_bytes @ two_bytes @ two_bytes]) 8192 (2 ^ 32) (2 ^ 34) = Inl Panic"
proof -
  have sane: "\<forall>k texts r. pe_probe sample_probe_env k texts = Inr r \<longrightarrow> pr_rss_after r < 2 ^ 64" "8192 * 8 \<le> isize_max"
    by (auto simp: sample_probe_env_def isize_max_def intro: le_less_trans [of _ 1700] mod_le_divisor)
  have texts: "load_probe_texts (corpus_file ts) = ts" if "ts \<noteq> []" for ts
    using that by (simp add: load_probe_texts_def corpus_file_def scenario_texts_def map_filter_def comp_def)
  have "probe_clean sample_probe_env (corpus_file [''hello'', ''AI'', ''the'', ''machine learning'', ''r'' @ two_bytes])
      8192 (2 ^ 32) (2 ^ 34)"
    by (intro corpus_clean_probe ascii_corpus_clean) (simp_all add: texts ascii_def is_continuation_byte_def)
  moreover have "\<not> probe_clean sample_probe_env (corpus_file [''r'' @ two_bytes @ two_bytes @ two_bytes])
      8192 (2 ^ 32) (2 ^ 34)"
    by (simp add: probe_clean_def texts shape_clean_def cuts_cleanly_def two_bytes_def is_continuation_byte_def
        sat_mul_def usize_max_def)
  ultimately show ?thesis
    using run_probe_usable [OF sane, of "corpus_file [''hello'', ''AI'', ''the'', ''machine learning'', ''r'' @ two_bytes]" "2 ^ 32" "2 ^ 34"]
      run_probe_usable [OF sane, of "corpus_file [''r'' @ two_bytes @ two_bytes @ two_bytes]" "2 ^ 32" "2 ^ 34"]
    by (simp only: if_True if_False) blast
qed

text \<open>
  C38: the probe does not run the container out of memory by its own estimate. Every shape of the sweep
  is skipped, fails or is measured; a measured shape is one of the planned shapes, its estimated
  workspace is within the per-worker budget and, when the limit is known, the resident set read just
  before it plus four times that estimate stays within seven eighths of the limit. No saturation or
  truncation of the machine integers weakens this.
\<close>

theorem probe_sweep_within_limits:
  assumes "probe_sweep env corpus (conservative rss_ceiling) limit k shapes \<lparr>sw_data = [], sw_skipped = 0, sw_errored = 0\<rparr> = Inr sw"
    and "rss_ceiling \<le> usize_max" and "limit \<le> usize_max"
  shows "sw_skipped sw + sw_errored sw + length (sw_data sw) = length shapes \<and>
    (\<forall>dp\<in>set (sw_data sw). \<exists>j<length shapes. shapes ! j = (dp_batch dp, dp_seq dp) \<and>
       chunk_cost (conservative rss_ceiling) (dp_batch dp) (dp_seq dp) \<le> rss_ceiling \<and>
       (limit = 0 \<or> (case pe_rss env (k + j) of Some n \<Rightarrow> n | None \<Rightarrow> 0) +
          4 * chunk_cost (conservative rss_ceiling) (dp_batch dp) (dp_seq dp) \<le> limit - limit div 8))"
proof -
  let ?cm = "conservative rss_ceiling"
  have w: "max_workspace_bytes ?cm = rss_ceiling" by (simp add: conservative_def)
  have g: "limit = 0 \<or> (case rss of Some n \<Rightarrow> n | None \<Rightarrow> 0) + 4 * chunk_cost ?cm b s \<le> limit - limit div 8"
    if "fits ?cm b s" "\<not> breaches_limit ?cm limit rss b s" for rss b s
    using guards_exact [OF that(1) _ that(2)] assms(2,3) w by (cases "limit = 0") auto
  show ?thesis
    using probe_sweep_admits [OF assms(1)] g unfolding admitted_point_def fits_def w by fastforce
qed

lemma fallback_sweep_clean: "sweep_clean env [fallback_text] cm limit k (probe_shapes max_seq)"
  using ascii_corpus_clean [of "[fallback_text]" max_seq] ascii_fallback
  by (simp add: corpus_clean_def sweep_clean_all)

theorem probe_sweep_within_limits_witness:
  "\<exists>sw. probe_sweep sample_probe_env [fallback_text] (conservative (2 ^ 32)) (2 ^ 34) 1 (probe_shapes 64)
       \<lparr>sw_data = [], sw_skipped = 0, sw_errored = 0\<rparr> = Inr sw \<and>
     sw_skipped sw + sw_errored sw + length (sw_data sw) = length (probe_shapes 64)"
proof -
  obtain sw where sw: "probe_sweep sample_probe_env [fallback_text] (conservative (2 ^ 32)) (2 ^ 34) 1 (probe_shapes 64)
      \<lparr>sw_data = [], sw_skipped = 0, sw_errored = 0\<rparr> = Inr sw"
    using probe_sweep_iff [of "[fallback_text]" sample_probe_env "conservative (2 ^ 32)" "2 ^ 34" 1 "probe_shapes 64"
        "\<lparr>sw_data = [], sw_skipped = 0, sw_errored = 0\<rparr>"]
      fallback_sweep_clean [of sample_probe_env "conservative (2 ^ 32)" "2 ^ 34" 1 64] by (simp del: power_numeral) blast
  then show ?thesis using probe_sweep_within_limits [OF sw] by (simp add: usize_max_def)
qed

text \<open>
  Cached coefficients come back as they were saved. If the decoder reads back the record that was
  encoded, a successful save is followed by a hit for the same server build, model and maximal length and by a
  miss for every other combination; a failed write or rename leaves what a reader sees unchanged.
\<close>

theorem probe_cache_roundtrip:
  assumes "encode \<lparr>pc_schema_version = 1, pc_server_version = bi_version bi, pc_model = model, pc_max_seq = max_seq,
      pc_arch = bi_arch bi, pc_fitted_at_unix = now, pc_a = a, pc_b = b\<rparr> = Some json"
    and "decode json = Some \<lparr>pc_schema_version = 1, pc_server_version = bi_version bi, pc_model = model,
      pc_max_seq = max_seq, pc_arch = bi_arch bi, pc_fitted_at_unix = now, pc_a = a, pc_b = b\<rparr>"
    and "\<not> fl_le a (Fin 0)" and "\<not> fl_le b (Fin 0)"
  shows "try_load_probe_cache bi' decode (save_probe_cache bi encode now Write_Ok dir model max_seq a b) model' max_seq' =
      (if bi' = bi \<and> model' = model \<and> max_seq' = max_seq then Some (a, b) else None) \<and>
    (\<forall>out. out \<noteq> Write_Ok \<longrightarrow>
      try_load_probe_cache bi' decode (save_probe_cache bi encode now out dir model max_seq a b) model' max_seq' =
      try_load_probe_cache bi' decode dir model' max_seq')"
proof (intro conjI allI impI)
  show "try_load_probe_cache bi' decode (save_probe_cache bi encode now Write_Ok dir model max_seq a b) model' max_seq' =
      (if bi' = bi \<and> model' = model \<and> max_seq' = max_seq then Some (a, b) else None)"
    using assms by (cases bi; cases bi') (auto simp: save_probe_cache_def try_load_probe_cache_def)
  have f: "cache_file \<noteq> cache_tmp_file" by (simp add: cache_file_def cache_tmp_file_def)
  show "try_load_probe_cache bi' decode (save_probe_cache bi encode now out dir model max_seq a b) model' max_seq' =
      try_load_probe_cache bi' decode dir model' max_seq'" if "out \<noteq> Write_Ok" for out
    using that f by (cases out) (auto simp: save_probe_cache_def try_load_probe_cache_def split: option.splits)
qed

theorem probe_cache_roundtrip_witness:
  "try_load_probe_cache \<lparr>bi_version = ''1.0'', bi_arch = ''aarch64''\<rparr>
     (\<lambda>s. Some \<lparr>pc_schema_version = 1, pc_server_version = ''1.0'', pc_model = ''int8'', pc_max_seq = 8192,
        pc_arch = ''aarch64'', pc_fitted_at_unix = 5, pc_a = Fin 4096, pc_b = Fin 8\<rparr>)
     (save_probe_cache \<lparr>bi_version = ''1.0'', bi_arch = ''aarch64''\<rparr> (\<lambda>c. Some ''{}'') 5 Write_Ok Map.empty ''int8'' 8192 (Fin 4096) (Fin 8))
     ''int8'' 8192 = Some (Fin 4096, Fin 8)"
proof -
  let ?c = "\<lparr>pc_schema_version = 1, pc_server_version = ''1.0'', pc_model = ''int8'', pc_max_seq = 8192,
    pc_arch = ''aarch64'', pc_fitted_at_unix = 5, pc_a = Fin 4096, pc_b = Fin 8\<rparr> :: probe_cache"
  show ?thesis
    using probe_cache_roundtrip [where encode = "\<lambda>c. Some ''{}''" and decode = "\<lambda>s. Some ?c" and json = "''{}''"
        and bi = "\<lparr>bi_version = ''1.0'', bi_arch = ''aarch64''\<rparr>" and bi' = "\<lparr>bi_version = ''1.0'', bi_arch = ''aarch64''\<rparr>"
        and model = "''int8''" and model' = "''int8''" and max_seq = 8192 and max_seq' = 8192 and now = 5 and dir = Map.empty
        and a = "Fin 4096" and b = "Fin 8"] by simp
qed

end
