(* ===== verification/Bootstrap.thy ===== *)
theory Bootstrap
  imports Handlers Probe
begin

text \<open>
  Start-up: the workspace budget of \<open>src/bootstrap/budget.rs\<close>, the readiness sequence of \<open>readiness.rs\<close> and the
  background probe task of \<open>probe_task.rs\<close>. The readiness sequence is a function on the shared state that
  either opens the server, or drains the permits and leaves the probe to a task of its own; the task is a
  second function. How the task interleaves with requests is a step relation over the permits.
\<close>

section \<open>Budget\<close>

definition OS_HEADROOM_BYTES :: nat where "OS_HEADROOM_BYTES = 256 * 1024 * 1024"

definition total_workspace :: "nat \<Rightarrow> nat \<Rightarrow> nat \<Rightarrow> nat" where
  "total_workspace available n_workers model_rss_per_worker =
     available - sat_mul usize_max n_workers model_rss_per_worker - OS_HEADROOM_BYTES"

definition compute_workspace_budget :: "nat \<Rightarrow> nat \<Rightarrow> nat \<Rightarrow> fl \<Rightarrow> nat \<times> nat \<times> fl" where
  "compute_workspace_budget available n_workers model_rss_per_worker safety_factor =
     (let total = total_workspace available n_workers model_rss_per_worker;
          per_worker_workspace =
            fl_to_unsigned usize_max
              (fl_div r64 (fl_mul r64 (nat_to_f64 total) safety_factor) (nat_to_f64 n_workers));
          worst_case_peak =
            sat_add usize_max
              (sat_add usize_max (sat_mul usize_max n_workers per_worker_workspace)
                 (sat_mul usize_max n_workers model_rss_per_worker))
              OS_HEADROOM_BYTES;
          utilization_pct =
            (if 0 < available
             then fl_mul r64 (fl_div r64 (nat_to_f64 worst_case_peak) (nat_to_f64 available)) (Fin 100)
             else Fin 0)
      in (per_worker_workspace, worst_case_peak, utilization_pct))"

section \<open>Readiness\<close>

datatype init_outcome = Init_Ok | Init_Err string | Init_Panic string

datatype readiness_error =
    Pool_Panicked string
  | Pool_Failed string
  | Below_Floor nat nat
  | Dense_Check_Failed any_error
  | Sparse_Check_Failed any_error

record readiness_config =
  rc_max_seq :: nat
  rc_workers :: nat
  rc_safety :: fl
  rc_cost_model_override :: "cost_model option"
  rc_model_variant :: string
  rc_disable_probe_cache :: bool

text \<open>What start-up observes of its surroundings, the cache directory included.\<close>

record boot_env =
  be_init :: init_outcome
  be_mem :: memory_reading
  be_build :: build_info
  be_decode :: "string \<Rightarrow> probe_cache option"
  be_encode :: "probe_cache \<Rightarrow> string option"
  be_now :: nat
  be_write :: write_outcome
  be_probe :: probe_env
  be_corpus :: "json option"

definition run_readiness_checks_and_open :: "app_state \<Rightarrow> (readiness_error, app_state) result" where
  "run_readiness_checks_and_open st =
     rbind (map_err Dense_Check_Failed (pool_dense (ep_closed (as_pool st)) (ep_dense (as_pool st)) [''ready''])) (\<lambda>_.
     rbind (map_err Sparse_Check_Failed (pool_sparse (ep_closed (as_pool st)) (ep_sparse (as_pool st)) [''ready''])) (\<lambda>_.
       Inr (st\<lparr>as_ready := True\<rparr>)))"

text \<open>\<open>Probe_Spawned\<close>: the permits are drained and the task runs. \<open>Drain_Waits\<close>: not enough permits yet.\<close>

datatype boot_outcome = Opened | Probe_Spawned nat bool | Drain_Waits

definition physics_floor :: "nat \<Rightarrow> nat" where
  "physics_floor max_seq = chunk_cost (conservative 0) 1 max_seq mod 2 ^ 64"

definition permits_to_drain :: "nat \<Rightarrow> nat" where
  "permits_to_drain workers = min u32_max (workers - 1)"

definition spawn_probe_task :: "nat \<Rightarrow> nat \<Rightarrow> bool \<Rightarrow> app_state \<Rightarrow> boot_outcome \<times> app_state" where
  "spawn_probe_task cfg_workers per_worker_workspace save_cache st =
     (let st1 = st\<lparr>as_probe_status := probe_status_as_u8 Running\<rparr>;
          k = permits_to_drain cfg_workers
      in if k \<le> as_request_permits st1
         then (Probe_Spawned per_worker_workspace save_cache, st1\<lparr>as_request_permits := as_request_permits st1 - k\<rparr>)
         else (Drain_Waits, st1))"

definition open_with :: "cost_model \<Rightarrow> probe_status \<Rightarrow> app_state \<Rightarrow> (readiness_error, boot_outcome) result \<times> app_state" where
  "open_with cm status st =
     (let st1 = st\<lparr>as_cost_model := cm, as_probe_status := probe_status_as_u8 status\<rparr>
      in case run_readiness_checks_and_open st1 of Inl e \<Rightarrow> (Inl e, st1) | Inr st2 \<Rightarrow> (Inr Opened, st2))"

definition run_readiness_probe ::
  "boot_env \<Rightarrow> readiness_config \<Rightarrow> (string \<rightharpoonup> string) \<Rightarrow> app_state \<Rightarrow> (readiness_error, boot_outcome) result \<times> app_state" where
  "run_readiness_probe env cfg cache_dir st =
     (case be_init env of
        Init_Panic e \<Rightarrow> (Inl (Pool_Panicked e), st)
      | Init_Err e \<Rightarrow> (Inl (Pool_Failed e), st)
      | Init_Ok \<Rightarrow>
          (let mem = be_mem env;
               model_rss_per_worker = ep_model_rss (as_pool st);
               (per_worker_workspace, worst_case_peak, utilization_pct) =
                 compute_workspace_budget (available_bytes mem) (rc_workers cfg) model_rss_per_worker (rc_safety cfg);
               floor = physics_floor (rc_max_seq cfg)
           in if per_worker_workspace < floor then (Inl (Below_Floor per_worker_workspace floor), st)
              else let st1 = st\<lparr>as_tuning :=
                         (case as_tuning st of
                            None \<Rightarrow> Some (tuning_info_new mem model_rss_per_worker worst_case_peak utilization_pct)
                          | Some t \<Rightarrow> Some t)\<rparr>
                   in case rc_cost_model_override cfg of
                        Some cm \<Rightarrow> open_with cm Disabled st1
                      | None \<Rightarrow>
                          if \<not> rc_disable_probe_cache cfg
                          then case try_load_probe_cache (be_build env) (be_decode env) cache_dir (rc_model_variant cfg)
                                      (rc_max_seq cfg) of
                                 Some (a, b) \<Rightarrow>
                                   open_with \<lparr>cm_a = a, cm_b = b, max_workspace_bytes = per_worker_workspace\<rparr> CacheHit st1
                               | None \<Rightarrow> apfst Inr (spawn_probe_task (rc_workers cfg) per_worker_workspace True st1)
                          else apfst Inr (spawn_probe_task (rc_workers cfg) per_worker_workspace False st1)))"

section \<open>The probe task\<close>

definition f64_epsilon :: fl where "f64_epsilon = Fin (1 / 2 ^ 52)"

definition is_conservative :: "fl \<Rightarrow> fl \<Rightarrow> bool" where
  "is_conservative a b \<longleftrightarrow>
     fl_less (fl_abs (fl_sub r64 a CONSERVATIVE_A)) f64_epsilon \<and>
     fl_less (fl_abs (fl_sub r64 b CONSERVATIVE_B)) f64_epsilon"

text \<open>The end of the task: a failed check is only logged, and the permits come back in either case.\<close>

definition probe_open :: "app_state \<Rightarrow> app_state" where
  "probe_open st = (case run_readiness_checks_and_open st of Inl e \<Rightarrow> st | Inr st' \<Rightarrow> st')"

definition probe_restore :: "nat \<Rightarrow> app_state \<Rightarrow> app_state" where
  "probe_restore cfg_workers st = st\<lparr>as_request_permits := as_request_permits st + cfg_workers\<rparr>"

definition probe_task ::
  "boot_env \<Rightarrow> readiness_config \<Rightarrow> nat \<Rightarrow> bool \<Rightarrow> (string \<rightharpoonup> string) \<Rightarrow> app_state \<Rightarrow>
   (failure, (string \<rightharpoonup> string) \<times> app_state) result" where
  "probe_task env cfg per_worker_workspace save_cache cache_dir st =
     rbind (run_probe (be_probe env) (be_corpus env) (rc_max_seq cfg) per_worker_workspace (available_bytes (be_mem env)))
       (\<lambda>(a, b).
          let st1 = st\<lparr>as_cost_model := \<lparr>cm_a = a, cm_b = b, max_workspace_bytes = per_worker_workspace\<rparr>\<rparr>;
              failed = is_conservative a b;
              dir1 = (if \<not> failed \<and> save_cache
                      then save_probe_cache (be_build env) (be_encode env) (be_now env) (be_write env) cache_dir
                             (rc_model_variant cfg) (rc_max_seq cfg) a b
                      else cache_dir);
              st2 = st1\<lparr>as_probe_status := probe_status_as_u8 (if failed then Failed else Complete)\<rparr>
          in Inr (dir1, probe_restore (rc_workers cfg) (probe_open st2)))"

text \<open>Both parts in sequence, as they run when nothing else touches the state.\<close>

definition start_up ::
  "boot_env \<Rightarrow> readiness_config \<Rightarrow> (string \<rightharpoonup> string) \<Rightarrow> app_state \<Rightarrow>
   (readiness_error, boot_outcome) result \<times> (failure, (string \<rightharpoonup> string) \<times> app_state) result" where
  "start_up env cfg cache_dir st =
     (case run_readiness_probe env cfg cache_dir st of
        (Inr (Probe_Spawned w save), st') \<Rightarrow> (Inr (Probe_Spawned w save), probe_task env cfg w save cache_dir st')
      | (r, st') \<Rightarrow> (r, Inr (cache_dir, st')))"

section \<open>Permits and requests\<close>

text \<open>
  Requests beside start-up, on the shared state. A handler refuses the request unless \<open>check_ready\<close> lets it
  pass, then waits for a permit and holds it until its future ends, with an answer or because the client
  has gone; a waiting request may also be given up. Start-up takes the steps of the code above: it opens
  directly, or drains and spawns the task, which publishes what it measured, checks, opens and restores. The
  pool may change under all of them.
\<close>

datatype gate_phase = Booting | Probing | Checked | Restored | Open_Direct

record gate =
  gt_app :: app_state
  gt_waiting :: nat
  gt_inflight :: nat
  gt_phase :: gate_phase

definition initial_permits :: "nat \<Rightarrow> nat" where
  "initial_permits workers = max (workers - 1) 1"

definition gate_start :: "nat \<Rightarrow> app_state \<Rightarrow> gate" where
  "gate_start workers st =
     \<lparr>gt_app = st\<lparr>as_ready := False, as_request_permits := initial_permits workers\<rparr>, gt_waiting = 0, gt_inflight = 0,
      gt_phase = Booting\<rparr>"

inductive gate_step :: "nat \<Rightarrow> gate \<Rightarrow> gate \<Rightarrow> bool" for workers where
  arrive: "check_ready (gt_app g) = Inr u \<Longrightarrow> gate_step workers g (g\<lparr>gt_waiting := gt_waiting g + 1\<rparr>)"
| cancel: "0 < gt_waiting g \<Longrightarrow> gate_step workers g (g\<lparr>gt_waiting := gt_waiting g - 1\<rparr>)"
| acquire: "0 < gt_waiting g \<Longrightarrow> 0 < as_request_permits (gt_app g) \<Longrightarrow>
    gate_step workers g
      (g\<lparr>gt_waiting := gt_waiting g - 1, gt_inflight := gt_inflight g + 1,
         gt_app := (gt_app g)\<lparr>as_request_permits := as_request_permits (gt_app g) - 1\<rparr>\<rparr>)"
| release: "0 < gt_inflight g \<Longrightarrow>
    gate_step workers g
      (g\<lparr>gt_inflight := gt_inflight g - 1,
         gt_app := (gt_app g)\<lparr>as_request_permits := as_request_permits (gt_app g) + 1\<rparr>\<rparr>)"
| open_direct: "gt_phase g = Booting \<Longrightarrow> open_with cm status (gt_app g) = (Inr Opened, st') \<Longrightarrow>
    gate_step workers g (g\<lparr>gt_app := st', gt_phase := Open_Direct\<rparr>)"
| drain: "gt_phase g = Booting \<Longrightarrow> spawn_probe_task workers w save (gt_app g) = (Probe_Spawned w save, st') \<Longrightarrow>
    gate_step workers g (g\<lparr>gt_app := st', gt_phase := Probing\<rparr>)"
| check: "gt_phase g = Probing \<Longrightarrow>
    gate_step workers g
      (g\<lparr>gt_app := probe_open ((gt_app g)\<lparr>as_cost_model := cm, as_probe_status := probe_status_as_u8 status\<rparr>),
         gt_phase := Checked\<rparr>)"
| restore: "gt_phase g = Checked \<Longrightarrow>
    gate_step workers g (g\<lparr>gt_app := probe_restore workers (gt_app g), gt_phase := Restored\<rparr>)"
| pool_moves: "gate_step workers g (g\<lparr>gt_app := (gt_app g)\<lparr>as_pool := pool\<rparr>\<rparr>)"

inductive gate_reachable :: "nat \<Rightarrow> app_state \<Rightarrow> gate \<Rightarrow> bool" for workers st where
  gate_init: "gate_reachable workers st (gate_start workers st)"
| gate_next: "gate_reachable workers st g \<Longrightarrow> gate_step workers g g' \<Longrightarrow> gate_reachable workers st g'"

section \<open>Facts about the budget\<close>

lemma fl_to_unsigned_le:
  assumes "0 \<le> y"
  shows "of_nat (fl_to_unsigned bound (Fin y)) \<le> y"
proof -
  have "(of_nat (fl_to_unsigned bound (Fin y)) :: rat) \<le> of_nat (nat \<lfloor>y\<rfloor>)" by simp
  also have "\<dots> \<le> y" using assms by (simp add: of_nat_nat)
  finally show ?thesis .
qed

text \<open>Dividing below \<open>2 ^ 53\<close>: rounding up never adds a whole byte per worker.\<close>

lemma floor_of_quotient:
  assumes "0 < n" and "n < 2 ^ 53" and "T < 2 ^ 53"
  shows "fl_to_unsigned usize_max (r64 (of_nat T / of_nat n)) * n \<le> T"
proof (cases "T = 0")
  case True
  then show ?thesis by (simp add: f64.rnd_zero)
next
  case False
  define x :: rat where "x = of_nat T / of_nat n"
  define y where "y = rat_round 53 (- 1074) x"
  have n: "1 \<le> (of_nat n :: rat)" "(of_nat n :: rat) < 2 ^ 53" and T: "1 \<le> (of_nat T :: rat)" "(of_nat T :: rat) < 2 ^ 53"
    using assms False by (metis One_nat_def Suc_leI of_nat_1 of_nat_le_iff of_nat_less_iff of_nat_numeral of_nat_power bot_nat_0.not_eq_extremum)+
  have "1 / 2 ^ 53 \<le> x" unfolding x_def using n T by (intro frac_le) auto
  then have low: "pow2 (- 1074 + int 53 - 1) \<le> \<bar>x\<bar>" and pos: "0 < x"
    by (auto simp: pow2_def elim!: order_trans [rotated] less_le_trans [rotated] intro!: divide_left_mono power_increasing)
  have "\<bar>y - x\<bar> \<le> x / 2 ^ 53" using rat_round_rel_error [OF low] pos by (simp add: y_def)
  then have "y \<le> x + x / 2 ^ 53" by linarith
  then have "y * of_nat n \<le> (x + x / 2 ^ 53) * of_nat n" by (intro mult_right_mono) simp_all
  also have "\<dots> = of_nat T + of_nat T / 2 ^ 53" using n by (simp add: x_def field_simps)
  also have "\<dots> < of_nat T + 1" using T by simp
  finally have y: "y * of_nat n < of_nat T + 1" .
  have "mag0 T 0 (r64 x)"
    using n T pos assms(3) by (intro r64_mag0) (auto simp: x_def pow2_def divide_le_eq_1 field_simps intro: mult_le_cancel_left1 [THEN iffD2])
  then have r: "r64 x = Fin y" "0 \<le> y" by (auto simp: mag0_def r64_def fl_round_def Let_def y_def split: if_splits)
  have "of_nat (fl_to_unsigned usize_max (r64 x)) \<le> y"
    unfolding r(1) using r(2) by (rule fl_to_unsigned_le)
  then have "of_nat (fl_to_unsigned usize_max (r64 x)) * of_nat n \<le> y * of_nat n" by (intro mult_right_mono) auto
  then have "(of_nat (fl_to_unsigned usize_max (r64 x) * n) :: rat) < of_nat (T + 1)" using y by simp
  then have "fl_to_unsigned usize_max (r64 x) * n < T + 1" by (simp only: of_nat_less_iff)
  then show ?thesis by (simp add: x_def)
qed

lemma per_worker_fits:
  assumes "0 < n" and "n < 2 ^ 53" and "available < 2 ^ 53" and "in_range safety 0 1"
  shows "fst (compute_workspace_budget available n rss safety) * n \<le> total_workspace available n rss"
proof -
  let ?T = "total_workspace available n rss"
  obtain s where s: "safety = Fin s" "0 \<le> s" "s \<le> 1" using assms(4) by (auto simp: in_range_def)
  have T: "?T < 2 ^ 53" using assms(3) by (simp add: total_workspace_def)
  have "of_nat ?T * s \<le> of_nat ?T * pow2 0" using s by (simp add: pow2_def mult_left_le)
  then have "mag0 ?T 0 (r64 (of_nat ?T * s))" using s T by (intro r64_mag0) auto
  then obtain t where t: "r64 (of_nat ?T * s) = Fin t" "t \<le> of_nat ?T" by (auto simp: mag0_def pow2_def)
  have nz: "(of_nat n :: rat) \<noteq> 0" using assms(1) by simp
  have "fl_le (r64 (t / of_nat n)) (r64 (of_nat ?T / of_nat n))"
    using t(2) by (intro f64.rnd_mono divide_right_mono) auto
  then have "fl_to_unsigned usize_max (r64 (t / of_nat n)) \<le> fl_to_unsigned usize_max (r64 (of_nat ?T / of_nat n))"
    by (rule fl_to_unsigned_mono)
  then have "fl_to_unsigned usize_max (r64 (t / of_nat n)) * n \<le> ?T"
    using floor_of_quotient [OF assms(1,2) T] by (meson le_trans mult_le_mono1)
  then show ?thesis
    using nz t(1) by (simp add: compute_workspace_budget_def Let_def s(1) nat_to_f64_exact [OF T] nat_to_f64_exact [OF assms(2)])
qed

section \<open>Facts about readiness\<close>

lemma run_readiness_checks_and_open_Inr_iff [result_iff]:
  "run_readiness_checks_and_open st = Inr st' \<longleftrightarrow>
     (\<exists>d s. pool_dense (ep_closed (as_pool st)) (ep_dense (as_pool st)) [''ready''] = Inr d \<and>
        pool_sparse (ep_closed (as_pool st)) (ep_sparse (as_pool st)) [''ready''] = Inr s \<and> st' = st\<lparr>as_ready := True\<rparr>)"
  by (auto simp: run_readiness_checks_and_open_def result_iff)

definition checks_pass :: "app_state \<Rightarrow> bool" where
  "checks_pass st \<longleftrightarrow>
     (\<exists>d. pool_dense (ep_closed (as_pool st)) (ep_dense (as_pool st)) [''ready''] = Inr d) \<and>
     (\<exists>s. pool_sparse (ep_closed (as_pool st)) (ep_sparse (as_pool st)) [''ready''] = Inr s)"

lemma checks_pass_simps [simp]:
  "checks_pass (st\<lparr>as_cost_model := cm\<rparr>) = checks_pass st" "checks_pass (st\<lparr>as_probe_status := p\<rparr>) = checks_pass st"
  "checks_pass (st\<lparr>as_tuning := t\<rparr>) = checks_pass st" "checks_pass (st\<lparr>as_request_permits := k\<rparr>) = checks_pass st"
  by (simp_all add: checks_pass_def)

lemma run_readiness_checks_cases:
  "checks_pass st \<and> run_readiness_checks_and_open st = Inr (st\<lparr>as_ready := True\<rparr>) \<or>
   \<not> checks_pass st \<and> (\<exists>e. run_readiness_checks_and_open st = Inl e)"
proof -
  have "run_readiness_checks_and_open st = Inr (st\<lparr>as_ready := True\<rparr>) \<longleftrightarrow> checks_pass st"
    unfolding run_readiness_checks_and_open_Inr_iff checks_pass_def by simp
  moreover have "run_readiness_checks_and_open st = Inr st' \<Longrightarrow> st' = st\<lparr>as_ready := True\<rparr>" for st'
    unfolding run_readiness_checks_and_open_Inr_iff by blast
  ultimately show ?thesis by (cases "run_readiness_checks_and_open st") auto
qed

section \<open>Facts about the gate\<close>

text \<open>How many permits exist in each phase, held or free.\<close>

fun gate_capacity :: "nat \<Rightarrow> gate_phase \<Rightarrow> nat" where
  "gate_capacity workers Booting = initial_permits workers"
| "gate_capacity workers Open_Direct = initial_permits workers"
| "gate_capacity workers Probing = initial_permits workers - permits_to_drain workers"
| "gate_capacity workers Checked = initial_permits workers - permits_to_drain workers"
| "gate_capacity workers Restored = initial_permits workers - permits_to_drain workers + workers"

definition gate_inv :: "nat \<Rightarrow> gate \<Rightarrow> bool" where
  "gate_inv workers g \<longleftrightarrow>
     as_request_permits (gt_app g) + gt_inflight g = gate_capacity workers (gt_phase g) \<and>
     (gt_phase g \<in> {Booting, Probing} \<longrightarrow> \<not> as_ready (gt_app g)) \<and>
     (\<not> as_ready (gt_app g) \<longrightarrow> gt_waiting g = 0 \<and> gt_inflight g = 0)"

lemma probe_open_simps [simp]:
  "as_request_permits (probe_open st) = as_request_permits st" "as_ready st \<Longrightarrow> as_ready (probe_open st)"
  using run_readiness_checks_cases [of st] by (auto simp: probe_open_def)

lemma open_with_permits:
  assumes "open_with cm status st = (Inr Opened, st')"
  shows "as_ready st' \<and> as_request_permits st' = as_request_permits st"
  using assms run_readiness_checks_cases [of "st\<lparr>as_cost_model := cm, as_probe_status := probe_status_as_u8 status\<rparr>"]
  by (auto simp: open_with_def Let_def)

lemma spawn_probe_task_permits:
  assumes "spawn_probe_task workers w save st = (Probe_Spawned w' save', st')"
  shows "as_ready st' = as_ready st \<and> as_request_permits st' = as_request_permits st - permits_to_drain workers \<and>
    permits_to_drain workers \<le> as_request_permits st"
  using assms by (auto simp: spawn_probe_task_def Let_def split: if_splits)

inductive_cases gate_stepE: "gate_step workers g g'"

lemma gate_step_inv: "gate_step workers g g' \<Longrightarrow> gate_inv workers g \<Longrightarrow> gate_inv workers g'"
  by (erule gate_stepE)
    (auto simp: gate_inv_def probe_restore_def check_ready_Inr_iff dest!: open_with_permits spawn_probe_task_permits)

lemma gate_reachable_inv: "gate_reachable workers st g \<Longrightarrow> gate_inv workers g"
proof (induction rule: gate_reachable.induct)
  case gate_init
  show ?case by (simp add: gate_inv_def gate_start_def)
qed (rule gate_step_inv)

lemma permits_to_drain_le: "permits_to_drain workers \<le> initial_permits workers"
  by (auto simp: permits_to_drain_def initial_permits_def)

lemma capacity_large:
  assumes "2 \<le> workers" and "workers \<le> 2 ^ 32"
  shows "gate_capacity workers Probing = 0" and "gate_capacity workers Restored = workers"
  using assms by (auto simp: permits_to_drain_def initial_permits_def u32_max_def)

section \<open>The whole start-up\<close>

definition budget_of :: "boot_env \<Rightarrow> readiness_config \<Rightarrow> app_state \<Rightarrow> nat" where
  "budget_of env cfg st =
     fst (compute_workspace_budget (available_bytes (be_mem env)) (rc_workers cfg) (ep_model_rss (as_pool st)) (rc_safety cfg))"

text \<open>Readings are machine integers and the arrays of the shape check can be made.\<close>

definition readings_sane :: "boot_env \<Rightarrow> readiness_config \<Rightarrow> bool" where
  "readings_sane env cfg \<longleftrightarrow>
     (\<forall>k texts r. pe_probe (be_probe env) k texts = Inr r \<longrightarrow> pr_rss_after r < 2 ^ 64) \<and> rc_max_seq cfg * 8 \<le> isize_max"

text \<open>No text of the warm-up or of an admitted shape is cut inside a code point, for this budget.\<close>

definition texts_clean :: "boot_env \<Rightarrow> readiness_config \<Rightarrow> nat \<Rightarrow> bool" where
  "texts_clean env cfg w \<longleftrightarrow>
     probe_clean (be_probe env) (be_corpus env) (rc_max_seq cfg) w (available_bytes (be_mem env))"

text \<open>The same for every budget: the probe cannot panic.\<close>

definition probe_sane :: "boot_env \<Rightarrow> readiness_config \<Rightarrow> bool" where
  "probe_sane env cfg \<longleftrightarrow> readings_sane env cfg \<and> corpus_clean (load_probe_texts (be_corpus env)) (rc_max_seq cfg)"

lemma probe_sane_texts: "probe_sane env cfg \<Longrightarrow> readings_sane env cfg \<and> texts_clean env cfg w"
  by (simp add: probe_sane_def texts_clean_def corpus_clean_probe)

lemma run_probe_sane:
  assumes "readings_sane env cfg"
  shows "if texts_clean env cfg w
    then \<exists>a b. run_probe (be_probe env) (be_corpus env) (rc_max_seq cfg) w (available_bytes (be_mem env)) = Inr (a, b) \<and>
      wf_cost_model \<lparr>cm_a = a, cm_b = b, max_workspace_bytes = w\<rparr>
    else run_probe (be_probe env) (be_corpus env) (rc_max_seq cfg) w (available_bytes (be_mem env)) = Inl Panic"
proof -
  have rss: "\<forall>k texts r. pe_probe (be_probe env) k texts = Inr r \<longrightarrow> pr_rss_after r < 2 ^ 64"
    and fits: "rc_max_seq cfg * 8 \<le> isize_max"
    using assms by (simp_all add: readings_sane_def)
  show ?thesis
    using run_probe_coefficients [OF rss fits, of "be_corpus env" w "available_bytes (be_mem env)"]
    unfolding texts_clean_def by (auto split: if_splits)
qed

text \<open>Neither an override nor a cached pair of coefficients: start-up has to probe.\<close>

definition takes_probe :: "boot_env \<Rightarrow> readiness_config \<Rightarrow> (string \<rightharpoonup> string) \<Rightarrow> bool" where
  "takes_probe env cfg dir \<longleftrightarrow> rc_cost_model_override cfg = None \<and>
     (rc_disable_probe_cache cfg \<or>
      try_load_probe_cache (be_build env) (be_decode env) dir (rc_model_variant cfg) (rc_max_seq cfg) = None)"

definition terminal :: "probe_status \<Rightarrow> bool" where
  "terminal p \<longleftrightarrow> p \<noteq> Running"

text \<open>What start-up leaves behind when it opened.\<close>

definition opened_well :: "nat \<Rightarrow> cost_model option \<Rightarrow> app_state \<Rightarrow> bool" where
  "opened_well budget override st \<longleftrightarrow>
     terminal (probe_status_from_u8 (as_probe_status st)) \<and> as_tuning st \<noteq> None \<and>
     (case override of
        Some cm \<Rightarrow> as_cost_model st = cm
      | None \<Rightarrow> max_workspace_bytes (as_cost_model st) = budget \<and>
          (probe_status_from_u8 (as_probe_status st) = CacheHit \<or> wf_cost_model (as_cost_model st)))"

lemma open_with_spec:
  assumes "\<not> as_ready st" and "status \<noteq> Running"
  obtains r st' where "open_with cm status st = (r, st')" and "\<forall>w s. r \<noteq> Inr (Probe_Spawned w s)"
    and "as_ready st' \<longleftrightarrow> checks_pass st" and "as_cost_model st' = cm" and "as_probe_status st' = probe_status_as_u8 status"
    and "as_tuning st' = as_tuning st"
  using run_readiness_checks_cases [of "st\<lparr>as_cost_model := cm, as_probe_status := probe_status_as_u8 status\<rparr>"] assms
  by (auto simp: open_with_def Let_def)

lemma probe_task_spec:
  assumes "readings_sane env cfg" and "texts_clean env cfg w" and "\<not> as_ready st"
  obtains dir' st' where "probe_task env cfg w save dir st = Inr (dir', st')" and "as_ready st' \<longleftrightarrow> checks_pass st"
    and "terminal (probe_status_from_u8 (as_probe_status st'))" and "wf_cost_model (as_cost_model st')"
    and "max_workspace_bytes (as_cost_model st') = w" and "as_tuning st' = as_tuning st"
    and "as_request_permits st' = as_request_permits st + rc_workers cfg"
proof -
  obtain a b where ab: "run_probe (be_probe env) (be_corpus env) (rc_max_seq cfg) w (available_bytes (be_mem env)) = Inr (a, b)"
      "wf_cost_model \<lparr>cm_a = a, cm_b = b, max_workspace_bytes = w\<rparr>"
    using run_probe_sane [OF assms(1), of w] assms(2) by auto
  let ?st2 = "st\<lparr>as_cost_model := \<lparr>cm_a = a, cm_b = b, max_workspace_bytes = w\<rparr>,
    as_probe_status := probe_status_as_u8 (if is_conservative a b then Failed else Complete)\<rparr>"
  show thesis
    using run_readiness_checks_cases [of ?st2] ab assms(3) that
    by (auto simp: probe_task_def probe_open_def probe_restore_def Let_def terminal_def)
qed

lemma probe_task_panics:
  assumes "readings_sane env cfg" and "\<not> texts_clean env cfg w"
  shows "probe_task env cfg w save dir st = Inl Panic"
  using run_probe_sane [OF assms(1), of w] assms(2) by (simp add: probe_task_def)

definition ends_well :: "boot_env \<Rightarrow> readiness_config \<Rightarrow> (string \<rightharpoonup> string) \<Rightarrow> app_state \<Rightarrow> bool \<Rightarrow> bool" where
  "ends_well env cfg dir st opens \<longleftrightarrow>
     (\<exists>r dir' st'. start_up env cfg dir st = (r, Inr (dir', st')) \<and> (as_ready st' \<longleftrightarrow> opens) \<and>
        (as_ready st' \<longrightarrow> opened_well (budget_of env cfg st) (rc_cost_model_override cfg) st'))"

lemma start_up_direct:
  assumes run: "run_readiness_probe env cfg dir st = open_with cm p st1" and "\<not> as_ready st1" and "as_tuning st1 \<noteq> None"
    and "p \<noteq> Running"
    and "rc_cost_model_override cfg = Some cm \<or>
      rc_cost_model_override cfg = None \<and> p = CacheHit \<and> max_workspace_bytes cm = budget_of env cfg st"
  shows "ends_well env cfg dir st (checks_pass st1)"
proof -
  obtain r st' where o: "open_with cm p st1 = (r, st')" "\<forall>w s. r \<noteq> Inr (Probe_Spawned w s)"
      "as_ready st' \<longleftrightarrow> checks_pass st1" "as_cost_model st' = cm" "as_probe_status st' = probe_status_as_u8 p"
      "as_tuning st' = as_tuning st1"
    using open_with_spec [OF assms(2,4)] by blast
  have "start_up env cfg dir st = (r, Inr (dir, st'))"
    using o(1,2) by (auto simp: start_up_def run split: sum.split boot_outcome.split)
  moreover have "opened_well (budget_of env cfg st) (rc_cost_model_override cfg) st'"
  proof -
    have "probe_status_from_u8 (as_probe_status st') = p" by (simp add: o(5))
    then show ?thesis using o(4,6) assms(3-5) by (auto simp: opened_well_def terminal_def)
  qed
  ultimately show ?thesis using o(3) unfolding ends_well_def by blast
qed

lemma start_up_spawns:
  assumes run: "run_readiness_probe env cfg dir st = apfst Inr (spawn_probe_task (rc_workers cfg) w save st1)"
    and "\<not> as_ready st1" and "as_request_permits st1 = initial_permits (rc_workers cfg)"
  obtains st2 where "start_up env cfg dir st = (Inr (Probe_Spawned w save), probe_task env cfg w save dir st2)"
    and "\<not> as_ready st2" and "as_tuning st2 = as_tuning st1" and "checks_pass st2 = checks_pass st1"
proof -
  define st2 where "st2 = st1\<lparr>as_probe_status := probe_status_as_u8 Running,
    as_request_permits := initial_permits (rc_workers cfg) - permits_to_drain (rc_workers cfg)\<rparr>"
  have "run_readiness_probe env cfg dir st = (Inr (Probe_Spawned w save), st2)"
    using assms(3) permits_to_drain_le by (simp add: run spawn_probe_task_def st2_def)
  then have "start_up env cfg dir st = (Inr (Probe_Spawned w save), probe_task env cfg w save dir st2)"
    by (simp add: start_up_def)
  from that [OF this] show thesis using assms(2) by (simp add: st2_def)
qed

lemma start_up_probed:
  assumes run: "run_readiness_probe env cfg dir st =
      apfst Inr (spawn_probe_task (rc_workers cfg) (budget_of env cfg st) save st1)"
    and "\<not> as_ready st1" and "as_tuning st1 \<noteq> None" and "as_request_permits st1 = initial_permits (rc_workers cfg)"
    and "readings_sane env cfg" and "rc_cost_model_override cfg = None"
  shows "if texts_clean env cfg (budget_of env cfg st) then ends_well env cfg dir st (checks_pass st1)
    else \<exists>r. start_up env cfg dir st = (r, Inl Panic)"
proof -
  let ?w = "budget_of env cfg st"
  obtain st2 where start: "start_up env cfg dir st = (Inr (Probe_Spawned ?w save), probe_task env cfg ?w save dir st2)"
    and st2: "\<not> as_ready st2" "as_tuning st2 = as_tuning st1" "checks_pass st2 = checks_pass st1"
    using start_up_spawns [OF run assms(2,4)] by blast
  show ?thesis
  proof (cases "texts_clean env cfg ?w")
    case True
    obtain dir' st' where t: "probe_task env cfg ?w save dir st2 = Inr (dir', st')" "as_ready st' \<longleftrightarrow> checks_pass st2"
        "terminal (probe_status_from_u8 (as_probe_status st'))" "wf_cost_model (as_cost_model st')"
        "max_workspace_bytes (as_cost_model st') = ?w" "as_tuning st' = as_tuning st2"
      using probe_task_spec [OF assms(5) True st2(1)] by blast
    then have "opened_well ?w (rc_cost_model_override cfg) st'" using st2(2) assms(3,6) by (simp add: opened_well_def)
    then have "ends_well env cfg dir st (checks_pass st1)" using start t(1,2) st2(3) unfolding ends_well_def by metis
    then show ?thesis using True by simp
  next
    case False
    then show ?thesis using start probe_task_panics [OF assms(5)] by simp
  qed
qed

lemma run_readiness_probe_admitted:
  assumes "be_init env = Init_Ok" and "physics_floor (rc_max_seq cfg) \<le> budget_of env cfg st"
  obtains st1 where "as_ready st1 = as_ready st" and "as_tuning st1 \<noteq> None" and "checks_pass st1 = checks_pass st"
    and "as_request_permits st1 = as_request_permits st"
    and "run_readiness_probe env cfg dir st =
      (case rc_cost_model_override cfg of
         Some cm \<Rightarrow> open_with cm Disabled st1
       | None \<Rightarrow>
           if rc_disable_probe_cache cfg
           then apfst Inr (spawn_probe_task (rc_workers cfg) (budget_of env cfg st) False st1)
           else case try_load_probe_cache (be_build env) (be_decode env) dir (rc_model_variant cfg) (rc_max_seq cfg) of
                  Some (a, b) \<Rightarrow>
                    open_with \<lparr>cm_a = a, cm_b = b, max_workspace_bytes = budget_of env cfg st\<rparr> CacheHit st1
                | None \<Rightarrow> apfst Inr (spawn_probe_task (rc_workers cfg) (budget_of env cfg st) True st1))"
proof -
  obtain w peak pct where b: "compute_workspace_budget (available_bytes (be_mem env)) (rc_workers cfg)
      (ep_model_rss (as_pool st)) (rc_safety cfg) = (w, peak, pct)"
    by (metis prod_cases3)
  have bw: "budget_of env cfg st = w" by (simp add: budget_of_def b)
  define st1 where "st1 = st\<lparr>as_tuning := (case as_tuning st of
      None \<Rightarrow> Some (tuning_info_new (be_mem env) (ep_model_rss (as_pool st)) peak pct) | Some t \<Rightarrow> Some t)\<rparr>"
  have "as_ready st1 = as_ready st" "as_tuning st1 \<noteq> None" "checks_pass st1 = checks_pass st"
      "as_request_permits st1 = as_request_permits st"
    by (auto simp: st1_def split: option.split)
  from that [OF this] show thesis
    using assms bw by (simp add: run_readiness_probe_def b flip: st1_def split: option.split if_split prod.split)
qed

lemma start_up_exact:
  assumes "readings_sane env cfg" and "\<not> as_ready st" and "as_request_permits st = initial_permits (rc_workers cfg)"
  shows "if be_init env = Init_Ok \<and> physics_floor (rc_max_seq cfg) \<le> budget_of env cfg st \<and> takes_probe env cfg dir \<and>
      \<not> texts_clean env cfg (budget_of env cfg st)
    then \<exists>r. start_up env cfg dir st = (r, Inl Panic)
    else ends_well env cfg dir st
      (be_init env = Init_Ok \<and> physics_floor (rc_max_seq cfg) \<le> budget_of env cfg st \<and> checks_pass st)"
proof (cases "be_init env = Init_Ok \<and> physics_floor (rc_max_seq cfg) \<le> budget_of env cfg st")
  case False
  then show ?thesis
    using assms(2) by (cases "be_init env")
      (auto simp: ends_well_def start_up_def run_readiness_probe_def Let_def budget_of_def case_prod_unfold)
next
  case True
  then obtain st1 where st1: "as_ready st1 = as_ready st" "as_tuning st1 \<noteq> None" "checks_pass st1 = checks_pass st"
      "as_request_permits st1 = as_request_permits st"
    and run: "run_readiness_probe env cfg dir st =
      (case rc_cost_model_override cfg of
         Some cm \<Rightarrow> open_with cm Disabled st1
       | None \<Rightarrow>
           if rc_disable_probe_cache cfg
           then apfst Inr (spawn_probe_task (rc_workers cfg) (budget_of env cfg st) False st1)
           else case try_load_probe_cache (be_build env) (be_decode env) dir (rc_model_variant cfg) (rc_max_seq cfg) of
                  Some (a, b) \<Rightarrow>
                    open_with \<lparr>cm_a = a, cm_b = b, max_workspace_bytes = budget_of env cfg st\<rparr> CacheHit st1
                | None \<Rightarrow> apfst Inr (spawn_probe_task (rc_workers cfg) (budget_of env cfg st) True st1))"
    using run_readiness_probe_admitted by blast
  have ready: "\<not> as_ready st1" and permits: "as_request_permits st1 = initial_permits (rc_workers cfg)"
    using st1 assms(2,3) by simp_all
  show ?thesis
  proof (cases "takes_probe env cfg dir")
    case T: True
    then obtain save where "run_readiness_probe env cfg dir st =
        apfst Inr (spawn_probe_task (rc_workers cfg) (budget_of env cfg st) save st1)"
      using run by (auto simp: takes_probe_def split: if_splits)
    from start_up_probed [OF this ready st1(2) permits assms(1)] show ?thesis
      using True T st1(3) by (simp add: takes_probe_def split: if_splits)
  next
    case F: False
    then obtain cm p where "run_readiness_probe env cfg dir st = open_with cm p st1" "p \<noteq> Running"
        "rc_cost_model_override cfg = Some cm \<or>
         rc_cost_model_override cfg = None \<and> p = CacheHit \<and> max_workspace_bytes cm = budget_of env cfg st"
      using run by (auto simp: takes_probe_def split: option.splits)
    from start_up_direct [OF this(1) ready st1(2) this(2,3)] show ?thesis using True F st1(3) by simp
  qed
qed

lemma start_up_opens:
  assumes "probe_sane env cfg" and "\<not> as_ready st" and "as_request_permits st = initial_permits (rc_workers cfg)"
  shows "ends_well env cfg dir st
    (be_init env = Init_Ok \<and> physics_floor (rc_max_seq cfg) \<le> budget_of env cfg st \<and> checks_pass st)"
  using start_up_exact [OF _ assms(2,3)] probe_sane_texts [OF assms(1)] by (simp split: if_splits)

section \<open>Properties\<close>

text \<open>
  C27: the workspace budget is safe. When the loaded models and the headroom fit into the available
  memory, all workers running at their ceiling at the same time stay within it: the reported
  worst-case peak is exactly what they would use and is at most the available memory, for every safety
  factor between 0 and 1 and with all rounding of the \<open>f64\<close> computation accounted for.
\<close>

theorem workspace_budget_within_memory:
  assumes "0 < n" and "n < 2 ^ 53" and "available < 2 ^ 53" and "in_range safety 0 1"
    and "n * rss + OS_HEADROOM_BYTES \<le> available"
  shows "case compute_workspace_budget available n rss safety of (w, peak, pct) \<Rightarrow>
    peak = n * w + n * rss + OS_HEADROOM_BYTES \<and> peak \<le> available"
proof -
  define w where "w = fst (compute_workspace_budget available n rss safety)"
  have u: "available \<le> usize_max" using assms(3) by (simp add: usize_max_def)
  have m: "sat_mul usize_max n rss = n * rss" using assms(5) u by (simp add: sat_mul_def)
  have "w * n \<le> total_workspace available n rss" unfolding w_def by (rule per_worker_fits [OF assms(1-4)])
  then have s: "n * w + n * rss + OS_HEADROOM_BYTES \<le> available"
    using assms(5) by (simp add: total_workspace_def m mult.commute)
  have "fst (snd (compute_workspace_budget available n rss safety)) =
      sat_add usize_max (sat_add usize_max (sat_mul usize_max n w) (sat_mul usize_max n rss)) OS_HEADROOM_BYTES"
    by (simp add: compute_workspace_budget_def Let_def w_def)
  also have "\<dots> = n * w + n * rss + OS_HEADROOM_BYTES"
    using s u by (simp add: sat_add_def sat_mul_def)
  finally show ?thesis using s by (simp add: w_def case_prod_unfold)
qed

theorem workspace_budget_within_memory_witness:
  "case compute_workspace_budget (28 * 1024 ^ 3) 7 1080000000 (Fin (1 / 2)) of (w, peak, pct) \<Rightarrow>
     peak = 7 * w + 7 * 1080000000 + OS_HEADROOM_BYTES \<and> peak \<le> 28 * 1024 ^ 3"
  by (rule workspace_budget_within_memory) (simp_all add: OS_HEADROOM_BYTES_def)

text \<open>
  C17: how start-up ends. The process panics exactly when the pool was initialised, the budget is large
  enough, the probe has to run and one of its texts is cut inside a code point. In every other case start-up
  comes to an end, and it has opened the server exactly when the pool was initialised, the per-worker budget
  covers one text of maximal length and the pool answers a dense and a sparse request. The server opens only
  after the probe: an open server has left the running state of the probe, reports its memory, and uses the
  configured cost model, the cached coefficients, or measured coefficients that are finite and not negative, with
  the budget as its ceiling.
\<close>

theorem start_up_ready_iff:
  assumes "readings_sane env cfg" and "\<not> as_ready st" and "as_request_permits st = initial_permits (rc_workers cfg)"
  shows "if be_init env = Init_Ok \<and> physics_floor (rc_max_seq cfg) \<le> budget_of env cfg st \<and> takes_probe env cfg dir \<and>
      \<not> texts_clean env cfg (budget_of env cfg st)
    then \<exists>r. start_up env cfg dir st = (r, Inl Panic)
    else \<exists>r dir' st'. start_up env cfg dir st = (r, Inr (dir', st')) \<and>
      (as_ready st' \<longleftrightarrow> be_init env = Init_Ok \<and> physics_floor (rc_max_seq cfg) \<le> budget_of env cfg st \<and> checks_pass st) \<and>
      (as_ready st' \<longrightarrow> opened_well (budget_of env cfg st) (rc_cost_model_override cfg) st')"
  using start_up_exact [OF assms, of dir] unfolding ends_well_def .

text \<open>A server whose pool answers, on a host with 16 GiB.\<close>

definition sample_pool :: embed_pool where
  "sample_pool =
     \<lparr>ep_closed = False,
      ep_dense = (\<lambda>texts. Some (Inr (map (\<lambda>t. [Fin 1]) texts, make_stats [] [] sample_tm 0 0))),
      ep_sparse = (\<lambda>texts. Some (Inr (map (\<lambda>t. \<lparr>sp_indices = [], sp_values = []\<rparr>) texts, make_stats [] [] sample_tm 0 0))),
      ep_both = (\<lambda>texts. None), ep_probe = (\<lambda>texts. None), ep_live = 2, ep_loaded = 2, ep_model_rss = 0\<rparr>"

definition sample_state :: app_state where
  "sample_state =
     \<lparr>as_pool = sample_pool, as_ready = False, as_max_batch = 256, as_total_workers = 2, as_max_seq_length = 8192,
      as_tuning = None, as_cost_model = conservative DEFAULT_MAX_WORKSPACE, as_probe_status = probe_status_as_u8 Running,
      as_request_permits = 1\<rparr>"

definition sample_boot :: boot_env where
  "sample_boot =
     \<lparr>be_init = Init_Ok, be_mem = \<lparr>available_bytes = 2 ^ 34, mem_source = CgroupV2\<rparr>,
      be_build = \<lparr>bi_version = ''1.0'', bi_arch = ''x86_64''\<rparr>, be_decode = (\<lambda>s. None), be_encode = (\<lambda>c. None), be_now = 0,
      be_write = Write_Ok, be_probe = sample_probe_env, be_corpus = None\<rparr>"

definition sample_readiness :: readiness_config where
  "sample_readiness =
     \<lparr>rc_max_seq = 0, rc_workers = 2, rc_safety = Fin (1 / 2), rc_cost_model_override = None, rc_model_variant = ''int8'',
      rc_disable_probe_cache = False\<rparr>"

lemma sample_boot_sane: "rc_max_seq cfg \<le> 8192 \<Longrightarrow> probe_sane sample_boot cfg"
  by (auto simp: probe_sane_def readings_sane_def sample_boot_def sample_probe_env_def load_probe_texts_def ascii_fallback
      isize_max_def intro!: ascii_corpus_clean intro: le_less_trans [of _ 1700])

theorem start_up_ready_iff_witness:
  "\<exists>r dir' st'. start_up sample_boot sample_readiness Map.empty sample_state = (r, Inr (dir', st')) \<and> as_ready st'"
proof -
  have sane: "readings_sane sample_boot sample_readiness" "texts_clean sample_boot sample_readiness w" for w
    using probe_sane_texts [OF sample_boot_sane, of sample_readiness] by (simp_all add: sample_readiness_def)
  have "physics_floor 0 = 0"
    by (simp add: physics_floor_def chunk_cost_def nat_to_f64_def f64.rnd_zero conservative_def CONSERVATIVE_A_def
        CONSERVATIVE_B_def sat_add_def)
  moreover have "checks_pass sample_state"
    by (simp add: checks_pass_def sample_state_def sample_pool_def pool_dense_def pool_sparse_def pool_call_def)
  ultimately show ?thesis
    using start_up_ready_iff [OF sane(1), of sample_state Map.empty] sane(2)
    by (auto simp: sample_boot_def sample_readiness_def sample_state_def initial_permits_def)
qed

text \<open>
  C18: the probe has the workers to itself. In every interleaving of requests with start-up, no
  request waits for or holds a permit while the server is booting or probing: every one is refused with
  503 before it reaches the semaphore. With at least two workers the semaphore is empty during the probe,
  and afterwards there are exactly as many permits, free or held, as workers.
\<close>

theorem probe_is_exclusive:
  assumes "gate_reachable workers st g" and "2 \<le> workers" and "workers \<le> 2 ^ 32"
  shows "(gt_phase g = Booting \<or> gt_phase g = Probing \<longrightarrow> gt_inflight g = 0 \<and> gt_waiting g = 0 \<and>
      (\<exists>e. check_ready (gt_app g) = Inl e \<and> http_status (into_response e) = 503)) \<and>
    (gt_phase g = Probing \<longrightarrow> as_request_permits (gt_app g) = 0) \<and>
    (gt_phase g = Restored \<longrightarrow> as_request_permits (gt_app g) + gt_inflight g = workers)"
  using gate_reachable_inv [OF assms(1)] capacity_large [OF assms(2,3)] by (auto simp: gate_inv_def check_ready_def)

lemma gate_reaches_probing:
  "\<exists>g. gate_reachable 2 sample_state g \<and> gt_phase g = Probing"
proof -
  obtain st' where "spawn_probe_task 2 0 False (gt_app (gate_start 2 sample_state)) = (Probe_Spawned 0 False, st')"
    by (simp add: spawn_probe_task_def gate_start_def permits_to_drain_def initial_permits_def u32_max_def)
  from gate_step.drain [OF _ this] have "gate_step 2 (gate_start 2 sample_state) ((gate_start 2 sample_state)\<lparr>gt_app := st', gt_phase := Probing\<rparr>)"
    by (simp add: gate_start_def)
  from gate_next [OF gate_init this] show ?thesis by (intro exI conjI) (assumption, simp)
qed

theorem probe_is_exclusive_witness:
  "\<exists>g. gate_reachable 2 sample_state g \<and> gt_phase g = Probing \<and> as_request_permits (gt_app g) = 0 \<and> gt_waiting g = 0"
proof -
  obtain g where "gate_reachable 2 sample_state g" "gt_phase g = Probing" using gate_reaches_probing by blast
  with probe_is_exclusive [of 2 sample_state g] show ?thesis by auto
qed

text \<open>
  C37: a waiting request can always be served once start-up is over: there is a free permit or a
  request that will release one, so some continuation serves a waiting request.
\<close>

theorem waiting_request_served:
  assumes "gate_reachable workers st g" and "0 < workers" and "gt_phase g = Restored \<or> gt_phase g = Open_Direct"
    and "0 < gt_waiting g"
  shows "\<exists>g'. (gate_step workers)\<^sup>*\<^sup>* g g' \<and> gt_waiting g' = gt_waiting g - 1 \<and> 0 < gt_inflight g'"
proof -
  have "0 < gate_capacity workers (gt_phase g)" using assms(2,3) by (auto simp: initial_permits_def)
  moreover have "as_request_permits (gt_app g) + gt_inflight g = gate_capacity workers (gt_phase g)"
    using gate_reachable_inv [OF assms(1)] by (simp add: gate_inv_def)
  ultimately consider "0 < as_request_permits (gt_app g)" | "0 < gt_inflight g" by linarith
  then show ?thesis
  proof cases
    case 1
    from r_into_rtranclp [of "gate_step workers", OF gate_step.acquire [OF assms(4) 1]] show ?thesis
      by (intro exI conjI) (assumption, simp_all)
  next
    case 2
    let ?r = "g\<lparr>gt_inflight := gt_inflight g - 1,
      gt_app := (gt_app g)\<lparr>as_request_permits := as_request_permits (gt_app g) + 1\<rparr>\<rparr>"
    let ?a = "?r\<lparr>gt_waiting := gt_waiting ?r - 1, gt_inflight := gt_inflight ?r + 1,
      gt_app := (gt_app ?r)\<lparr>as_request_permits := as_request_permits (gt_app ?r) - 1\<rparr>\<rparr>"
    have "gate_step workers g ?r" by (rule gate_step.release [OF 2])
    moreover have "gate_step workers ?r ?a" using assms(4) by (intro gate_step.acquire) auto
    ultimately have "(gate_step workers)\<^sup>*\<^sup>* g ?a" by (meson converse_rtranclp_into_rtranclp r_into_rtranclp)
    then show ?thesis by (intro exI conjI) (assumption, simp_all)
  qed
qed

lemma sample_checks: "checks_pass (sample_state\<lparr>as_ready := r, as_request_permits := k\<rparr>)"
  by (simp add: checks_pass_def sample_state_def sample_pool_def pool_dense_def pool_sparse_def pool_call_def)

lemma gate_opens:
  "\<exists>st'. open_with cm status (gt_app (gate_start workers sample_state)) = (Inr Opened, st') \<and> as_ready st' \<and>
     as_pool st' = sample_pool \<and>
     gate_reachable workers sample_state ((gate_start workers sample_state)\<lparr>gt_app := st', gt_phase := Open_Direct\<rparr>)"
proof -
  let ?s = "gt_app (gate_start workers sample_state)"
  let ?o = "?s\<lparr>as_cost_model := cm, as_probe_status := probe_status_as_u8 status, as_ready := True\<rparr>"
  have "run_readiness_checks_and_open (?s\<lparr>as_cost_model := cm, as_probe_status := probe_status_as_u8 status\<rparr>) = Inr ?o"
    using run_readiness_checks_cases [of "?s\<lparr>as_cost_model := cm, as_probe_status := probe_status_as_u8 status\<rparr>"]
      sample_checks [where r = False and k = "initial_permits workers"] by (simp add: gate_start_def)
  then have o: "open_with cm status ?s = (Inr Opened, ?o)" by (simp add: open_with_def Let_def)
  have "gate_step workers (gate_start workers sample_state)
      ((gate_start workers sample_state)\<lparr>gt_app := ?o, gt_phase := Open_Direct\<rparr>)"
    by (rule gate_step.open_direct [OF _ o]) (simp add: gate_start_def)
  from gate_next [OF gate_init this] o show ?thesis
    by (intro exI [of _ ?o]) (simp add: gate_start_def sample_state_def)
qed

lemma gate_reaches_waiting: "\<exists>g. gate_reachable 1 sample_state g \<and> gt_phase g = Open_Direct \<and> gt_waiting g = 1"
proof -
  let ?g = "\<lambda>st'. (gate_start 1 sample_state)\<lparr>gt_app := st', gt_phase := Open_Direct\<rparr>"
  obtain st' where st': "as_ready st'" "as_pool st' = sample_pool" "gate_reachable 1 sample_state (?g st')"
    using gate_opens by blast
  have "check_ready (gt_app (?g st')) = Inr ()"
    using st'(1,2) by (simp add: check_ready_def live_worker_count_def sample_pool_def)
  from gate_next [OF st'(3) gate_step.arrive [OF this]] show ?thesis
    by (intro exI conjI) (assumption, simp_all add: gate_start_def)
qed

theorem waiting_request_served_witness:
  "\<exists>g g'. gate_reachable 1 sample_state g \<and> gt_waiting g = 1 \<and> (gate_step 1)\<^sup>*\<^sup>* g g' \<and> gt_waiting g' = 0 \<and> 0 < gt_inflight g'"
proof -
  obtain g where g: "gate_reachable 1 sample_state g" "gt_phase g = Open_Direct" "gt_waiting g = 1"
    using gate_reaches_waiting by blast
  with waiting_request_served [of 1 sample_state g] show ?thesis by auto
qed

text \<open>
  Two cases the permit protocol misses. A server that opens without a probe (override or cached
  coefficients) keeps one permit fewer than it has workers for good, and a server with a single worker
  ends with two permits after a probe.
\<close>

theorem permits_differ_from_workers:
  assumes "gate_reachable workers st g" and "2 \<le> workers" and "gt_phase g = Open_Direct"
    and "gate_reachable 1 st1 g1" and "gt_phase g1 = Restored"
  shows "as_request_permits (gt_app g) + gt_inflight g = workers - 1 \<and> as_request_permits (gt_app g1) + gt_inflight g1 = 2"
  using gate_reachable_inv [OF assms(1)] gate_reachable_inv [OF assms(4)] assms
  by (simp add: gate_inv_def initial_permits_def permits_to_drain_def)

end
