(* ===== verification/Server.thy ===== *)
theory Server
  imports Config Adaptive_Warmup Bootstrap
begin

text \<open>
  The orchestration of \<open>src/lib.rs\<close>: \<open>run\<close> reads the configuration, builds the channels, the worker
  configuration and the shared state, and then either leaves through the warm-up-only path or serves.
  What the operating system, the TLS library and the pool answer is an argument.
\<close>

section \<open>The warm-up-only path\<close>

definition WARMUP_POSTCONDITION_FAILED_EXIT_CODE :: nat where "WARMUP_POSTCONDITION_FAILED_EXIT_CODE = 2"

definition warmup_postcondition_failed :: "ep_selection \<Rightarrow> nat \<Rightarrow> bool" where
  "warmup_postcondition_failed ep engine_count \<longleftrightarrow> ep = TensorRt \<and> engine_count = 0"

text \<open>
  The poll of the live counter: \<open>live k\<close> and \<open>now k\<close> are the counter and the clock (in milliseconds) as read in
  round \<open>k\<close>, with a sleep of 100 ms after each round. The result is the round in which the wait
  ended and whether the workers were gone. Nothing bounds the loop but the clock.
\<close>

partial_function (option) poll_workers :: "(nat \<Rightarrow> nat) \<Rightarrow> (nat \<Rightarrow> nat) \<Rightarrow> nat \<Rightarrow> nat \<Rightarrow> (nat \<times> bool) option" where
  "poll_workers live now deadline k =
     (if live k = 0 then Some (k, True)
      else if deadline \<le> now k then Some (k, False)
      else poll_workers live now deadline (Suc k))"

definition wait_for_workers_to_exit :: "(nat \<Rightarrow> nat) \<Rightarrow> (nat \<Rightarrow> nat) \<Rightarrow> nat \<Rightarrow> nat \<Rightarrow> (nat \<times> bool) option" where
  "wait_for_workers_to_exit live now started timeout = poll_workers live now (started + timeout) 0"

datatype serve_mode = Plain string | Tls string string string

datatype run_result =
    Returned "(string, unit) result"
  | Process_Exit nat
  | Serve serve_mode "adaptive_warmup_config option" readiness_config app_state

record run_env =
  re_tls_feature :: bool
  re_driver_dir :: "nat option"
  re_lookup :: lookup
  re_init :: init_outcome
  re_live :: "nat \<Rightarrow> nat"
  re_started :: nat
  re_now :: "nat \<Rightarrow> nat"
  re_engine_dir :: directory
  re_smi :: "nat \<Rightarrow> smi_output"
  re_pool :: embed_pool
  re_load_pem :: "string \<Rightarrow> string \<Rightarrow> (string, unit) result"
  re_parse_addr :: "string \<Rightarrow> (string, unit) result"
  re_bind :: "string \<Rightarrow> (string, unit) result"

definition warmup_exit :: "run_env \<Rightarrow> config \<Rightarrow> run_result" where
  "warmup_exit env cfg =
     (let detected_sm = (if cf_ep cfg = TensorRt then detect_sm_for_device (re_smi env) 0 else None);
          matching_engine_count = count_engine_files_for_sm (re_engine_dir env) detected_sm
      in if warmup_postcondition_failed (cf_ep cfg) matching_engine_count
         then Process_Exit WARMUP_POSTCONDITION_FAILED_EXIT_CODE
         else Returned (Inr ()))"

definition warmup_only_path :: "run_env \<Rightarrow> config \<Rightarrow> run_result option" where
  "warmup_only_path env cfg =
     (case re_init env of
        Init_Panic e \<Rightarrow> Some (Returned (Inl (''Worker pool task panicked: '' @ e)))
      | Init_Err e \<Rightarrow> Some (Returned (Inl (''Worker pool initialization failed: '' @ e)))
      | Init_Ok \<Rightarrow>
          Option.bind (wait_for_workers_to_exit (re_live env) (re_now env) (re_started env) 10000)
            (\<lambda>_. Some (warmup_exit env cfg)))"

section \<open>Building the server\<close>

definition initial_cost_model :: "config \<Rightarrow> cost_model" where
  "initial_cost_model cfg =
     (case cf_cost_model_override cfg of Some cm \<Rightarrow> cm | None \<Rightarrow> conservative DEFAULT_MAX_WORKSPACE)"

definition jit_suspect_channel :: "config \<Rightarrow> bool" where
  "jit_suspect_channel cfg \<longleftrightarrow> cf_adaptive_warmup_enabled cfg \<and> cf_ep cfg = TensorRt"

definition worker_config_of :: "config \<Rightarrow> worker_config" where
  "worker_config_of cfg =
     \<lparr>wc_idle_timeout = cf_idle_timeout cfg, wc_model_variant = cf_model_variant cfg,
      wc_max_seq_length = cf_max_seq_length cfg, wc_intra_threads = cf_intra_threads cfg, wc_ep = cf_ep cfg,
      wc_trt_warmup_shapes = cf_trt_warmup_shapes cfg, wc_device_id = 0, wc_gpu_count = cf_gpu_count cfg,
      wc_trt_max_workspace_bytes = cf_trt_max_workspace_bytes cfg,
      wc_gpu_mem_limit_bytes = cf_gpu_mem_limit_bytes cfg, wc_jit_suspect_tx = jit_suspect_channel cfg,
      wc_engine_propagation_tx = cf_engine_propagation_enabled cfg, wc_prewarm_strict = cf_prewarm_strict cfg,
      wc_circuit_breaker_threshold = cf_circuit_breaker_threshold cfg,
      wc_trt_inband_jit_guard_enabled = cf_trt_inband_jit_guard_enabled cfg,
      wc_trt_inband_jit_guard_seq = cf_trt_inband_jit_guard_seq cfg,
      wc_trt_cache_gc_enabled = cf_trt_cache_gc_enabled cfg\<rparr>"

definition initial_state :: "config \<Rightarrow> embed_pool \<Rightarrow> app_state" where
  "initial_state cfg pool =
     \<lparr>as_pool = pool, as_ready = False, as_max_batch = cf_max_batch cfg, as_total_workers = cf_workers cfg,
      as_max_seq_length = cf_max_seq_length cfg, as_tuning = None, as_cost_model = initial_cost_model cfg,
      as_probe_status = probe_status_as_u8 Running, as_request_permits = initial_permits (cf_workers cfg)\<rparr>"

lemma gate_starts_from_initial_state:
  "gt_app (gate_start (cf_workers cfg) (initial_state cfg pool)) = initial_state cfg pool"
  by (simp add: gate_start_def initial_state_def)

definition readiness_config_of :: "config \<Rightarrow> bool \<Rightarrow> readiness_config" where
  "readiness_config_of cfg disable_probe_cache =
     \<lparr>rc_max_seq = cf_max_seq_length cfg, rc_workers = cf_workers cfg, rc_safety = cf_memory_safety_factor cfg,
      rc_cost_model_override = cf_cost_model_override cfg, rc_model_variant = show_model_variant (cf_model_variant cfg),
      rc_disable_probe_cache = disable_probe_cache\<rparr>"

definition adaptive_config_of :: "config \<Rightarrow> adaptive_warmup_config option" where
  "adaptive_config_of cfg =
     (if jit_suspect_channel cfg
      then Some \<lparr>ac_enabled = cf_adaptive_warmup_enabled cfg, ac_quiet_secs = cf_adaptive_warmup_quiet_secs cfg,
                 ac_max_shapes_per_hour = cf_adaptive_warmup_max_shapes_per_hour cfg\<rparr>
      else None)"

definition listen :: "run_env \<Rightarrow> config \<Rightarrow> (string, serve_mode) result" where
  "listen env cfg =
     (case (re_tls_feature env, cf_tls_cert_path cfg, cf_tls_key_path cfg) of
        (True, Some cert, Some key) \<Rightarrow>
          rbind (map_err (\<lambda>e. ''TLS config error: '' @ e) (re_load_pem env cert key)) (\<lambda>_.
          rbind (map_err (\<lambda>e. ''invalid bind addr: '' @ e) (re_parse_addr env (cf_bind_addr cfg))) (\<lambda>_.
          rbind (re_bind env (cf_bind_addr cfg)) (\<lambda>_. Inr (Tls cert key (cf_bind_addr cfg)))))
      | _ \<Rightarrow> rbind (re_bind env (cf_bind_addr cfg)) (\<lambda>_. Inr (Plain (cf_bind_addr cfg))))"

text \<open>\<open>None\<close>: the wait of the warm-up-only path never ends.\<close>

definition run :: "run_env \<Rightarrow> run_result option" where
  "run env =
     (case from_env (re_driver_dir env) (re_lookup env) of
        Inl e \<Rightarrow> Some (Returned (Inl e))
      | Inr cfg \<Rightarrow>
          if cf_warmup_only cfg then warmup_only_path env cfg
          else Some (case listen env cfg of
                 Inl e \<Rightarrow> Returned (Inl e)
               | Inr mode \<Rightarrow>
                   Serve mode (adaptive_config_of cfg)
                     (readiness_config_of cfg (truthy (re_lookup env ''BGE_M3_DISABLE_PROBE_CACHE'')))
                     (initial_state cfg (re_pool env))))"

section \<open>The background tasks\<close>

text \<open>The readiness task: an error of \<open>run_readiness_probe\<close> ends the process with code 1.\<close>

definition readiness_exit :: "(readiness_error, boot_outcome) result \<Rightarrow> nat option" where
  "readiness_exit r = (case r of Inl e \<Rightarrow> Some 1 | Inr outcome \<Rightarrow> None)"

text \<open>
  The heartbeat: what it reads at a tick is the resident set, the queue depth and the shared state. The first tick of an
  interval is immediate and skipped.
\<close>

record heartbeat_line =
  hb_rss_mb :: nat
  hb_live_workers :: nat
  hb_loaded_workers :: nat
  hb_queue_depth :: nat
  hb_available_permits :: nat
  hb_probe_status :: string

definition heartbeat :: "nat option \<Rightarrow> nat \<Rightarrow> app_state \<Rightarrow> heartbeat_line" where
  "heartbeat rss depth st =
     \<lparr>hb_rss_mb = (case rss of None \<Rightarrow> 0 | Some n \<Rightarrow> n) div (1024 * 1024), hb_live_workers = live_worker_count (as_pool st),
      hb_loaded_workers = loaded_worker_count (as_pool st), hb_queue_depth = depth,
      hb_available_permits = as_request_permits st,
      hb_probe_status = probe_status_as_str (probe_status_from_u8 (as_probe_status st))\<rparr>"

definition heartbeat_task :: "nat \<Rightarrow> (nat option \<times> nat \<times> app_state) list \<Rightarrow> heartbeat_line list" where
  "heartbeat_task heartbeat_secs ticks =
     (if 0 < heartbeat_secs then map (\<lambda>(rss, depth, st). heartbeat rss depth st) (tl ticks) else [])"

section \<open>Facts\<close>

subsection \<open>The wait\<close>

text \<open>A sleep lasts at least as long as asked, on a clock that does not go back.\<close>

definition sleeps_100ms :: "(nat \<Rightarrow> nat) \<Rightarrow> bool" where
  "sleeps_100ms now \<longleftrightarrow> (\<forall>k. now k + 100 \<le> now (Suc k))"

lemma sleeps_advance: "sleeps_100ms now \<Longrightarrow> now 0 + 100 * k \<le> now k"
proof (induction k)
  case (Suc k)
  moreover have "now k + 100 \<le> now (Suc k)" using Suc.prems by (simp add: sleeps_100ms_def)
  ultimately show ?case by simp
qed simp

lemma poll_workers_total:
  assumes "sleeps_100ms now"
  shows "\<exists>j b. poll_workers live now deadline k = Some (j, b) \<and> k \<le> j \<and> (b \<longleftrightarrow> live j = 0) \<and>
    (b \<or> deadline \<le> now j) \<and> (\<forall>i. k \<le> i \<and> i < j \<longrightarrow> live i \<noteq> 0 \<and> now i < deadline)"
proof (induction "deadline - now k" arbitrary: k rule: less_induct)
  case less
  show ?case
  proof (cases "live k = 0 \<or> deadline \<le> now k")
    case True
    then show ?thesis by (subst poll_workers.simps) auto
  next
    case False
    have "deadline - now (Suc k) < deadline - now k"
      using False assms [unfolded sleeps_100ms_def, rule_format, of k] by linarith
    from less [OF this] obtain j b where j: "poll_workers live now deadline (Suc k) = Some (j, b)" "Suc k \<le> j" "b \<longleftrightarrow> live j = 0"
        "b \<or> deadline \<le> now j" "\<forall>i. Suc k \<le> i \<and> i < j \<longrightarrow> live i \<noteq> 0 \<and> now i < deadline" by blast
    have "\<forall>i. k \<le> i \<and> i < j \<longrightarrow> live i \<noteq> 0 \<and> now i < deadline"
    proof (intro allI impI)
      fix i
      assume "k \<le> i \<and> i < j"
      then show "live i \<noteq> 0 \<and> now i < deadline" using j(5) False by (cases "i = k") auto
    qed
    then show ?thesis using j False by (subst poll_workers.simps) auto
  qed
qed

lemma wait_total:
  assumes "sleeps_100ms now" and "started \<le> now 0"
  shows "\<exists>j b. wait_for_workers_to_exit live now started timeout = Some (j, b) \<and> 100 * j < timeout + 100 \<and>
    (b \<longleftrightarrow> live j = 0) \<and> (b \<or> started + timeout \<le> now j) \<and> (\<forall>i<j. live i \<noteq> 0)"
proof -
  obtain j b where j: "poll_workers live now (started + timeout) 0 = Some (j, b)" "b \<longleftrightarrow> live j = 0"
      "b \<or> started + timeout \<le> now j" "\<forall>i<j. live i \<noteq> 0 \<and> now i < started + timeout"
    using poll_workers_total [OF assms(1), of live "started + timeout" 0] by auto
  have "100 * j < timeout + 100"
  proof (cases j)
    case (Suc i)
    then have "now i < started + timeout" using j(4) by simp
    then show ?thesis using sleeps_advance [OF assms(1), of i] assms(2) Suc by simp
  qed simp
  then show ?thesis using j unfolding wait_for_workers_to_exit_def by blast
qed

subsection \<open>The warm-up-only exit\<close>

lemma count_engine_files_pos:
  "0 < count_engine_files_for_sm dir sm \<longleftrightarrow> (\<exists>es e. dir = Some es \<and> e \<in> set es \<and> engine_entry sm e)"
  by (auto simp: count_engine_files_for_sm_def engine_files_for_sm_def filter_empty_conv split: option.splits)

lemma from_env_Inr_iff:
  "from_env d env = Inr cfg \<longleftrightarrow> cfg = from_lookup d env \<and> (cf_tls_cert_path cfg = None \<longleftrightarrow> cf_tls_key_path cfg = None)"
  by (auto simp: from_env_def validate_def Let_def split: option.splits)

subsection \<open>The configuration seen by start-up\<close>

lemma initial_state_simps [simp]:
  "as_ready (initial_state cfg pool) = False" "as_pool (initial_state cfg pool) = pool"
  "as_total_workers (initial_state cfg pool) = cf_workers cfg"
  "as_request_permits (initial_state cfg pool) = initial_permits (cf_workers cfg)"
  by (simp_all add: initial_state_def)

lemma readiness_config_of_simps [simp]:
  "rc_workers (readiness_config_of cfg d) = cf_workers cfg" "rc_max_seq (readiness_config_of cfg d) = cf_max_seq_length cfg"
  "rc_cost_model_override (readiness_config_of cfg d) = cf_cost_model_override cfg"
  "rc_safety (readiness_config_of cfg d) = cf_memory_safety_factor cfg"
  by (simp_all add: readiness_config_of_def)

text \<open>Every configured length passes the shape check of the probe.\<close>

lemma configured_shape_valid:
  "validate_max_seq_shape (rc_max_seq (readiness_config_of (from_lookup d env) c)) =
     Inr ((1, resolve_max_seq_length env), (1, resolve_max_seq_length env))"
proof -
  have "\<not> isize_max < resolve_max_seq_length env * 8" using resolve_max_seq_length_range [of env] by (simp add: isize_max_def)
  then show ?thesis by (simp add: validate_max_seq_shape_def from_lookup_def Let_def)
qed

lemma override_opens_directly:
  assumes "rc_cost_model_override cfg = Some cm" and "start_up env cfg dir st = (r, Inr (dir', st'))" and "\<not> as_ready st"
  shows "dir' = dir \<and> as_request_permits st' = as_request_permits st \<and> (as_ready st' \<longrightarrow> as_cost_model st' = cm)"
proof -
  have o: "(\<forall>w s. fst (open_with cm Disabled t) \<noteq> Inr (Probe_Spawned w s)) \<and>
      as_request_permits (snd (open_with cm Disabled t)) = as_request_permits t \<and>
      as_cost_model (snd (open_with cm Disabled t)) = cm" for t
    by (auto simp: open_with_def run_readiness_checks_and_open_def Let_def split: sum.split dest!: rbind_Inr_iff [THEN iffD1])
  define t where "t = st\<lparr>as_tuning := (case as_tuning st of
      None \<Rightarrow> Some (case compute_workspace_budget (available_bytes (be_mem env)) (rc_workers cfg) (ep_model_rss (as_pool st)) (rc_safety cfg)
        of (w, p, u) \<Rightarrow> tuning_info_new (be_mem env) (ep_model_rss (as_pool st)) p u) | Some t \<Rightarrow> Some t)\<rparr>"
  have "(\<exists>e. run_readiness_probe env cfg dir st = (Inl e, st)) \<or> run_readiness_probe env cfg dir st = open_with cm Disabled t"
    by (auto simp: run_readiness_probe_def assms(1) Let_def t_def split: init_outcome.split prod.split option.split)
  then show ?thesis
  proof
    assume "\<exists>e. run_readiness_probe env cfg dir st = (Inl e, st)"
    then show ?thesis using assms(2,3) by (auto simp: start_up_def)
  next
    assume "run_readiness_probe env cfg dir st = open_with cm Disabled t"
    then show ?thesis
      using assms(2) o [of t] by (auto simp: start_up_def t_def split: prod.splits sum.splits boot_outcome.splits)
  qed
qed

subsection \<open>When start-up ends the process\<close>

definition ended :: "boot_env \<Rightarrow> readiness_config \<Rightarrow> (string \<rightharpoonup> string) \<Rightarrow> app_state \<Rightarrow> nat option \<Rightarrow> bool \<Rightarrow> bool" where
  "ended env cfg dir st code opened \<longleftrightarrow>
     (\<exists>r dir' st'. start_up env cfg dir st = (r, Inr (dir', st')) \<and> readiness_exit r = code \<and> as_ready st' = opened)"

lemma direct_ended:
  assumes "run_readiness_probe env cfg dir st = open_with cm p st1" and "\<not> as_ready st1"
  shows "ended env cfg dir st (if checks_pass st1 then None else Some 1) (checks_pass st1)"
  using run_readiness_checks_cases [of "st1\<lparr>as_cost_model := cm, as_probe_status := probe_status_as_u8 p\<rparr>"] assms
  by (auto simp: ended_def start_up_def open_with_def Let_def readiness_exit_def)

lemma probed_ended:
  assumes run: "run_readiness_probe env cfg dir st = apfst Inr (spawn_probe_task (rc_workers cfg) w save st1)"
    and ready: "\<not> as_ready st1" and permits: "as_request_permits st1 = initial_permits (rc_workers cfg)"
    and sane: "probe_sane env cfg"
  shows "ended env cfg dir st None (checks_pass st1)"
proof -
  obtain st2 where start: "start_up env cfg dir st = (Inr (Probe_Spawned w save), probe_task env cfg w save dir st2)"
    and st2: "\<not> as_ready st2" "checks_pass st2 = checks_pass st1"
    using start_up_spawns [OF run ready permits] by blast
  have "readings_sane env cfg" "texts_clean env cfg w" using probe_sane_texts [OF sane] by blast+
  then obtain dir' st' where "probe_task env cfg w save dir st2 = Inr (dir', st')" "as_ready st' \<longleftrightarrow> checks_pass st2"
    using probe_task_spec st2(1) by blast
  then show ?thesis using start st2(2) by (simp add: ended_def readiness_exit_def)
qed

lemma start_up_ended:
  assumes "probe_sane env cfg" and "\<not> as_ready st" and "as_request_permits st = initial_permits (rc_workers cfg)"
  shows "ended env cfg dir st
    (if be_init env \<noteq> Init_Ok \<or> budget_of env cfg st < physics_floor (rc_max_seq cfg) \<or> \<not> takes_probe env cfg dir \<and> \<not> checks_pass st
     then Some 1 else None)
    (be_init env = Init_Ok \<and> physics_floor (rc_max_seq cfg) \<le> budget_of env cfg st \<and> checks_pass st)"
proof (cases "be_init env = Init_Ok \<and> physics_floor (rc_max_seq cfg) \<le> budget_of env cfg st")
  case False
  then show ?thesis
    using assms(2) by (cases "be_init env")
      (auto simp: ended_def start_up_def run_readiness_probe_def Let_def budget_of_def case_prod_unfold readiness_exit_def)
next
  case True
  then obtain st1 where st1: "as_ready st1 = as_ready st" "checks_pass st1 = checks_pass st"
      "as_request_permits st1 = as_request_permits st"
    and run: "run_readiness_probe env cfg dir st =
      (case rc_cost_model_override cfg of
         Some cm \<Rightarrow> open_with cm Disabled st1
       | None \<Rightarrow>
           if rc_disable_probe_cache cfg
           then apfst Inr (spawn_probe_task (rc_workers cfg) (budget_of env cfg st) False st1)
           else case try_load_probe_cache (be_build env) (be_decode env) dir (rc_model_variant cfg) (rc_max_seq cfg) of
                  Some (a, b) \<Rightarrow>
                    open_with \<lparr>cm_a = a, cm_b = b, max_workspace_bytes = budget_of env cfg st\<rparr> CacheHit st1
                | None \<Rightarrow> apfst Inr (spawn_probe_task (rc_workers cfg) (budget_of env cfg st) True st1))"
    using run_readiness_probe_admitted by blast
  have ready: "\<not> as_ready st1" and permits: "as_request_permits st1 = initial_permits (rc_workers cfg)"
    using st1 assms(2,3) by simp_all
  show ?thesis
  proof (cases "takes_probe env cfg dir")
    case T: True
    then obtain save where "run_readiness_probe env cfg dir st = apfst Inr (spawn_probe_task (rc_workers cfg) (budget_of env cfg st) save st1)"
      using run by (auto simp: takes_probe_def split: if_splits)
    from probed_ended [OF this ready permits assms(1)] show ?thesis using True T st1(2) by simp
  next
    case F: False
    then obtain cm p where "run_readiness_probe env cfg dir st = open_with cm p st1"
      using run by (auto simp: takes_probe_def split: option.splits)
    from direct_ended [OF this ready] show ?thesis using True F st1(2) by (simp split: if_splits)
  qed
qed

section \<open>Properties\<close>

text \<open>
  C28: shutting the pool down always comes to an end. On a clock that advances by the 100 ms of each sleep,
  the wait for the workers ends after at most one more round than the timeout has sleeps, in the first round
  that finds no live worker, and otherwise only once the deadline has passed.
\<close>

theorem shutdown_wait_ends:
  assumes "sleeps_100ms now" and "started \<le> now 0"
  shows "\<exists>j b. wait_for_workers_to_exit live now started timeout = Some (j, b) \<and> 100 * j < timeout + 100 \<and>
    (b \<longleftrightarrow> live j = 0) \<and> (b \<or> started + timeout \<le> now j) \<and> (\<forall>i<j. live i \<noteq> 0)"
  using assms by (rule wait_total)

theorem shutdown_wait_ends_witness:
  "\<exists>j b. wait_for_workers_to_exit (\<lambda>k. 3 - k) (\<lambda>k. 7 + 100 * k) 7 10000 = Some (j, b) \<and> j \<le> 100"
proof -
  have "\<exists>j b. wait_for_workers_to_exit (\<lambda>k. 3 - k) (\<lambda>k. 7 + 100 * k) 7 10000 = Some (j, b) \<and> 100 * j < 10000 + 100 \<and>
      (b \<longleftrightarrow> 3 - j = 0) \<and> (b \<or> 7 + 10000 \<le> 7 + 100 * j) \<and> (\<forall>i<j. 3 - i \<noteq> (0 :: nat))"
    by (rule shutdown_wait_ends) (simp_all add: sleeps_100ms_def)
  then show ?thesis by fastforce
qed

text \<open>
  C24: the exit of a warm-up-only run tells whether the cache is usable. The process always ends; it returns success exactly
  when the pool came up and, for TensorRT, a plan for the compute capability of this host is on
  disk; it leaves with code 2 exactly when the pool came up for TensorRT but no such plan is there, and with an error
  when the pool did not come up. A plan of another compute capability never counts.
\<close>

theorem warmup_only_outcome:
  assumes "from_env (re_driver_dir env) (re_lookup env) = Inr cfg" and "cf_warmup_only cfg"
    and "sleeps_100ms (re_now env)" and "re_started env \<le> re_now env 0"
  shows "\<exists>r. run env = Some r \<and>
    (r = Returned (Inr ()) \<longleftrightarrow> re_init env = Init_Ok \<and>
       (cf_ep cfg \<noteq> TensorRt \<or> (\<exists>es e. re_engine_dir env = Some es \<and> e \<in> set es \<and>
          engine_entry (detect_sm_for_device (re_smi env) 0) e))) \<and>
    (r = Process_Exit 2 \<longleftrightarrow> re_init env = Init_Ok \<and> cf_ep cfg = TensorRt \<and>
       \<not> (\<exists>es e. re_engine_dir env = Some es \<and> e \<in> set es \<and> engine_entry (detect_sm_for_device (re_smi env) 0) e)) \<and>
    ((\<exists>m. r = Returned (Inl m)) \<longleftrightarrow> re_init env \<noteq> Init_Ok)"
proof -
  obtain w where w: "wait_for_workers_to_exit (re_live env) (re_now env) (re_started env) 10000 = Some w"
    using wait_total [OF assms(3,4)] by blast
  have run: "run env = warmup_only_path env cfg" using assms(1,2) by (simp add: run_def)
  show ?thesis
    unfolding run count_engine_files_pos [symmetric]
    by (cases "re_init env") (auto simp: warmup_only_path_def w warmup_exit_def warmup_postcondition_failed_def Let_def
        WARMUP_POSTCONDITION_FAILED_EXIT_CODE_def)
qed

definition warmup_env :: run_env where
  "warmup_env =
     \<lparr>re_tls_feature = True, re_driver_dir = None,
      re_lookup = [''BGE_M3_WARMUP_ONLY'' \<mapsto> ''1'', ''BGE_M3_EP'' \<mapsto> ''tensorrt''], re_init = Init_Ok,
      re_live = (\<lambda>k. 2 - k), re_started = 0, re_now = (\<lambda>k. 100 * k),
      re_engine_dir = Some [], re_smi = (\<lambda>d. Smi_Unavailable), re_pool = sample_pool,
      re_load_pem = (\<lambda>c k. Inr ()), re_parse_addr = (\<lambda>a. Inr ()), re_bind = (\<lambda>a. Inr ())\<rparr>"

theorem warmup_only_outcome_witness: "run warmup_env = Some (Process_Exit 2)"
proof -
  let ?cfg = "from_lookup None (re_lookup warmup_env)"
  have cfg: "from_env (re_driver_dir warmup_env) (re_lookup warmup_env) = Inr ?cfg" "cf_warmup_only ?cfg" "cf_ep ?cfg = TensorRt"
    by (simp_all add: from_env_Inr_iff) (simp_all add: from_lookup_def Let_def warmup_env_def truthy_def resolve_ep_def)
  show ?thesis
    using warmup_only_outcome [OF cfg(1,2)] cfg(3) by (auto simp: warmup_env_def sleeps_100ms_def)
qed

text \<open>
  TLS is never dropped silently. In a build with TLS, a server that listens does so in clear only when
  neither a certificate nor a key is configured, and with the configured pair otherwise; in any
  build, one without the other stops the process before a worker is spawned.
\<close>

theorem tls_not_downgraded:
  "(case run env of
      Some (Serve mode _ _ _) \<Rightarrow>
        (case mode of
           Tls cert key addr \<Rightarrow> re_tls_feature env \<and> re_lookup env ''BGE_M3_TLS_CERT_PATH'' = Some cert \<and>
             re_lookup env ''BGE_M3_TLS_KEY_PATH'' = Some key
         | Plain addr \<Rightarrow> if re_tls_feature env then re_lookup env ''BGE_M3_TLS_CERT_PATH'' = None \<and>
             re_lookup env ''BGE_M3_TLS_KEY_PATH'' = None else True)
    | _ \<Rightarrow> True) \<and>
   ((re_lookup env ''BGE_M3_TLS_CERT_PATH'' = None) = (re_lookup env ''BGE_M3_TLS_KEY_PATH'' = None) \<or>
    (\<exists>m. run env = Some (Returned (Inl m))))"
proof -
  define cfg where "cfg = from_lookup (re_driver_dir env) (re_lookup env)"
  have t: "cf_tls_cert_path cfg = re_lookup env ''BGE_M3_TLS_CERT_PATH''" "cf_tls_key_path cfg = re_lookup env ''BGE_M3_TLS_KEY_PATH''"
    by (simp_all add: cfg_def from_lookup_def Let_def)
  have w: "warmup_only_path env cfg \<noteq> Some (Serve m a rc st)" for m a rc st
    by (auto simp: warmup_only_path_def warmup_exit_def Let_def bind_eq_Some_conv split: init_outcome.splits if_splits)
  show ?thesis
    using w t unfolding run_def from_env_def cfg_def [symmetric] Let_def
    by (auto simp: validate_def listen_def rbind_Inr_iff split: option.splits bool.splits sum.splits run_result.splits serve_mode.splits)
qed

text \<open>What the handlers see of a pool.\<close>

definition observes :: "embed_pool \<Rightarrow> 'w pool \<Rightarrow> bool" where
  "observes pool p \<longleftrightarrow> ep_live pool = sh_live (pl_shared p) \<and> ep_loaded pool = sh_loaded (pl_shared p)"

text \<open>The pool the server spawns for a configuration.\<close>

definition spawned_workers :: "config \<Rightarrow> nat" where
  "spawned_workers cfg = clamp_workers (worker_config_of cfg) (cf_workers cfg)"

definition server_pool_reachable :: "(nat \<Rightarrow> 'w worker_env) \<Rightarrow> config \<Rightarrow> 'w \<Rightarrow> 'w pool \<Rightarrow> bool" where
  "server_pool_reachable env cfg w p \<longleftrightarrow>
     pool_reachable (server_pass env (worker_config_of cfg) (spawned_workers cfg))
       (server_start env (worker_config_of cfg) (spawned_workers cfg))
       (make_worker_config (worker_config_of cfg) (spawned_workers cfg))
       (pool_start (spawned_workers cfg) (initial_cost_model cfg) w) p"

lemma spawned_workers_le: "spawned_workers cfg \<le> cf_workers cfg"
  by (simp add: spawned_workers_def clamp_workers_def Let_def)

lemma health_status_word:
  assumes "server_pool_reachable env cfg w p" and "observes (as_pool st) p" and "pl_pending p = 0"
    and "as_ready st" and "as_total_workers st = cf_workers cfg" and "cf_workers cfg < 2 ^ 63"
  shows "json_index (hr_body (health st)) ''status'' = JStr (
    if tally has_exited (pl_phases p) = spawned_workers cfg then ''fail''
    else if tally holds_models (pl_phases p) + tally exited_fatally (pl_phases p) = 0 then ''idle''
    else if spawned_workers cfg - tally has_exited (pl_phases p) < cf_workers cfg then ''warn'' else ''ok'')"
proof -
  have c: "unat (ep_live (as_pool st)) = spawned_workers cfg - tally has_exited (pl_phases p)"
      "unat (ep_loaded (as_pool st)) = tally holds_models (pl_phases p) + tally exited_fatally (pl_phases p)"
    using reachable_counters [OF assms(1) [unfolded server_pool_reachable_def] _ assms(3)] spawned_workers_le [of cfg] assms(2,6)
    by (simp_all add: observes_def)
  have "length (pl_phases p) = spawned_workers cfg"
    using server.reachable_inv [OF assms(1) [unfolded server_pool_reachable_def]] by simp
  then have "tally has_exited (pl_phases p) \<le> spawned_workers cfg" using tally_le by metis
  then show ?thesis
    using assms(4,5) by (auto simp: health_def Let_def live_worker_count_def loaded_worker_count_def c split: option.split)
qed

text \<open>
  C25: \<open>/health\<close> tells the truth about the pool. For every reachable state of the pool the server spawns, an open
  server reports \<open>fail\<close> exactly when every worker has exited, \<open>idle\<close> when workers are left but no models are counted,
  \<open>warn\<close> when fewer workers are left than configured and \<open>ok\<close> otherwise; it answers 200 exactly when a
  worker is left.
\<close>

theorem health_reflects_pool:
  assumes "server_pool_reachable env cfg w p" and "observes (as_pool st) p" and "pl_pending p = 0"
    and "as_ready st" and "as_total_workers st = cf_workers cfg" and "cf_workers cfg < 2 ^ 63"
  shows "json_index (hr_body (health st)) ''status'' = JStr (
      if tally has_exited (pl_phases p) = spawned_workers cfg then ''fail''
      else if tally holds_models (pl_phases p) + tally exited_fatally (pl_phases p) = 0 then ''idle''
      else if spawned_workers cfg - tally has_exited (pl_phases p) < cf_workers cfg then ''warn'' else ''ok'') \<and>
    (hr_status (health st) = 200 \<longleftrightarrow> tally has_exited (pl_phases p) < spawned_workers cfg)"
proof -
  have "unat (ep_live (as_pool st)) = spawned_workers cfg - tally has_exited (pl_phases p)"
    using reachable_counters [OF assms(1) [unfolded server_pool_reachable_def] _ assms(3)] spawned_workers_le [of cfg] assms(2,6)
    by (simp add: observes_def)
  then have "hr_status (health st) = 200 \<longleftrightarrow> tally has_exited (pl_phases p) < spawned_workers cfg"
    using assms(4) by (simp add: health_def Let_def live_worker_count_def split: option.split)
  then show ?thesis using health_status_word [OF assms] by blast
qed

text \<open>The default configuration with CUDA on a host with one device: two workers are configured, one is spawned.\<close>

definition single_gpu :: config where
  "single_gpu = from_lookup None [''BGE_M3_EP'' \<mapsto> ''cuda'']"

definition single_gpu_env :: "unit worker_env" where
  "single_gpu_env = sample_env\<lparr>en_load := Inr ()\<rparr>"

lemma single_gpu_config: "cf_ep single_gpu = Cuda" "cf_workers single_gpu = 2" "cf_gpu_count single_gpu = 1"
    "cf_trt_cache_gc_enabled single_gpu = False"
  by (simp_all add: single_gpu_def from_lookup_def Let_def resolve_ep_def setting_def detect_gpu_count_def
      count_nvidia_gpus_from_proc_def truthy_def)

lemma single_gpu_spawned: "spawned_workers single_gpu = 1"
  by (simp add: spawned_workers_def clamp_workers_def worker_config_of_def single_gpu_config Let_def)

lemma single_gpu_serves:
  "\<exists>p. server_pool_reachable (\<lambda>i. single_gpu_env) single_gpu () p \<and> pl_pending p = 0 \<and>
    pl_phases p = [Serving fresh_worker] \<and> sh_live (pl_shared p) = 1 \<and> sh_loaded (pl_shared p) = 1"
proof -
  let ?c = "worker_config_of single_gpu" and ?init = "pool_start 1 (initial_cost_model single_gpu) ()"
  let ?served = "?init\<lparr>pl_phases := [Serving fresh_worker], pl_shared := (pl_shared ?init)\<lparr>sh_loaded := 1\<rparr>\<rparr>"
  have "server_start (\<lambda>i. single_gpu_env) ?c 1 0 (pl_shared ?init) = (Startup_Ready 20, pl_shared ?init)"
    by (simp add: server_start_def startup_worker_def prewarm_shard_def single_gpu_env_def worker_config_of_def single_gpu_config sample_env_def
        make_worker_config_def run_cache_gc_def pool_start_def Let_def)
  from one_worker_ready [OF this] show ?thesis
    by (intro exI [of _ ?served]) (simp add: server_pool_reachable_def single_gpu_spawned pool_start_def)
qed

theorem health_reflects_pool_witness:
  "\<exists>p st. server_pool_reachable (\<lambda>i. single_gpu_env) single_gpu () p \<and> observes (as_pool st) p \<and>
     json_index (hr_body (health (st :: app_state))) ''status'' = JStr ''warn'' \<and> hr_status (health st) = 200"
proof -
  obtain p where p: "server_pool_reachable (\<lambda>i. single_gpu_env) single_gpu () p" "pl_pending p = 0"
      "pl_phases p = [Serving fresh_worker]" "sh_live (pl_shared p) = 1" "sh_loaded (pl_shared p) = 1"
    using single_gpu_serves by blast
  let ?st = "(initial_state single_gpu (sample_pool\<lparr>ep_live := 1, ep_loaded := 1\<rparr>))\<lparr>as_ready := True\<rparr>"
  have "observes (as_pool ?st) p" using p(4,5) by (simp add: observes_def)
  then show ?thesis
    using health_reflects_pool [OF p(1), of ?st] p
    by (intro exI [of _ p] exI [of _ ?st]) (simp add: single_gpu_config single_gpu_spawned tally_def fresh_worker_def)
qed

text \<open>
  A GPU server whose worker count was clamped to its devices never reports \<open>ok\<close>: the total it compares with is the configured
  count, so even with every spawned worker alive and loaded its status is \<open>warn\<close>.
\<close>

theorem clamped_pool_never_ok:
  assumes "server_pool_reachable env cfg w p" and "observes (as_pool st) p" and "pl_pending p = 0"
    and "as_ready st" and "as_total_workers st = cf_workers cfg" and "cf_workers cfg < 2 ^ 63"
    and "cf_ep cfg \<noteq> Cpu" and "max (cf_gpu_count cfg) 1 < cf_workers cfg"
  shows "json_index (hr_body (health st)) ''status'' \<noteq> JStr ''ok'' \<and>
    (tally has_exited (pl_phases p) = 0 \<and> 0 < tally holds_models (pl_phases p) \<longrightarrow>
       json_index (hr_body (health st)) ''status'' = JStr ''warn'')"
proof -
  have "spawned_workers cfg = max (cf_gpu_count cfg) 1"
    using assms(7,8) by (simp add: spawned_workers_def clamp_workers_def worker_config_of_def Let_def)
  then show ?thesis using health_status_word [OF assms(1-6)] assms(8) by auto
qed

theorem clamped_pool_never_ok_witness:
  "\<exists>p st. server_pool_reachable (\<lambda>i. single_gpu_env) single_gpu () p \<and> pl_phases p = [Serving fresh_worker] \<and>
     json_index (hr_body (health (st :: app_state))) ''status'' = JStr ''warn''"
proof -
  obtain p where p: "server_pool_reachable (\<lambda>i. single_gpu_env) single_gpu () p" "pl_pending p = 0"
      "pl_phases p = [Serving fresh_worker]" "sh_live (pl_shared p) = 1" "sh_loaded (pl_shared p) = 1"
    using single_gpu_serves by blast
  let ?st = "(initial_state single_gpu (sample_pool\<lparr>ep_live := 1, ep_loaded := 1\<rparr>))\<lparr>as_ready := True\<rparr>"
  have "json_index (hr_body (health ?st)) ''status'' = JStr ''warn''"
    using clamped_pool_never_ok [OF p(1), of ?st] p(2-5)
    by (auto simp: observes_def single_gpu_config tally_def fresh_worker_def)
  with p show ?thesis by blast
qed

text \<open>
  A GPU server never runs the host-memory probe. For every environment that selects CUDA or TensorRT, start-up leaves the probe cache
  and the permits as they were, and an open server uses the conservative coefficients over its VRAM budget.
\<close>

theorem gpu_server_never_probes:
  assumes "resolve_ep lookup \<noteq> Cpu" and "cfg = from_lookup d lookup"
    and "start_up env (readiness_config_of cfg c) dir (initial_state cfg pool) = (r, Inr (dir', st'))"
  shows "dir' = dir \<and> as_request_permits st' = initial_permits (cf_workers cfg) \<and>
    (as_ready st' \<longrightarrow> as_cost_model st' =
       conservative (case Option.bind (lookup ''BGE_M3_GPU_VRAM_BUDGET_BYTES'') parse_usize of
         Some v \<Rightarrow> v | None \<Rightarrow> DEFAULT_GPU_VRAM_BUDGET_BYTES))"
proof -
  have "cf_cost_model_override cfg = Some (conservative (case Option.bind (lookup ''BGE_M3_GPU_VRAM_BUDGET_BYTES'') parse_usize of
         Some v \<Rightarrow> v | None \<Rightarrow> DEFAULT_GPU_VRAM_BUDGET_BYTES))"
    using assms(1,2) by (simp add: from_lookup_def Let_def gpu_cost_model_override_def)
  then show ?thesis using override_opens_directly [OF _ assms(3)] by simp
qed

theorem gpu_server_never_probes_witness:
  "\<exists>r st'. start_up sample_boot (readiness_config_of single_gpu False) Map.empty (initial_state single_gpu sample_pool) =
     (r, Inr (Map.empty, st')) \<and> as_request_permits st' = 1"
proof -
  have e: "resolve_ep [''BGE_M3_EP'' \<mapsto> ''cuda''] \<noteq> Cpu" by (simp add: resolve_ep_def)
  obtain r dir' st' where s: "start_up sample_boot (readiness_config_of single_gpu False) Map.empty (initial_state single_gpu sample_pool) =
      (r, Inr (dir', st'))"
    using start_up_opens [of sample_boot "readiness_config_of single_gpu False" "initial_state single_gpu sample_pool" Map.empty]
      sample_boot_sane [of "readiness_config_of single_gpu False"] by (auto simp: ends_well_def single_gpu_def from_lookup_def Let_def
        resolve_max_seq_length_range)
  from gpu_server_never_probes [OF e single_gpu_def s] s show ?thesis
    by (simp add: initial_permits_def single_gpu_config)
qed

text \<open>
  C19: when start-up ends the process. The readiness task exits with code 1 exactly when the pool failed to initialise, the budget does not
  cover one text of maximal length, or a check fails on the paths without a probe. If a check fails after the probe, the process
  stays up, closed: it neither exits nor opens.
\<close>

theorem readiness_exit_exact:
  assumes "probe_sane env cfg" and "\<not> as_ready st" and "as_request_permits st = initial_permits (rc_workers cfg)"
  shows "\<exists>r dir' st'. start_up env cfg dir st = (r, Inr (dir', st')) \<and>
    (readiness_exit r = Some 1 \<longleftrightarrow> be_init env \<noteq> Init_Ok \<or> budget_of env cfg st < physics_floor (rc_max_seq cfg) \<or>
       \<not> takes_probe env cfg dir \<and> \<not> checks_pass st) \<and>
    (readiness_exit r = None \<and> \<not> as_ready st' \<longleftrightarrow> be_init env = Init_Ok \<and>
       physics_floor (rc_max_seq cfg) \<le> budget_of env cfg st \<and> takes_probe env cfg dir \<and> \<not> checks_pass st)"
  using start_up_ended [OF assms, of dir] unfolding ended_def by (auto split: if_splits)

text \<open>A pool that initialises and then fails every request.\<close>

definition failing_state :: app_state where
  "failing_state = sample_state\<lparr>as_pool := sample_pool\<lparr>ep_dense := (\<lambda>texts. None)\<rparr>\<rparr>"

theorem readiness_exit_exact_witness:
  "\<exists>r dir' st'. start_up sample_boot sample_readiness Map.empty failing_state = (r, Inr (dir', st')) \<and>
     readiness_exit r = None \<and> \<not> as_ready st'"
proof -
  have h: "\<not> as_ready failing_state" "as_request_permits failing_state = initial_permits (rc_workers sample_readiness)"
    by (simp_all add: failing_state_def sample_state_def sample_readiness_def initial_permits_def)
  have floor: "physics_floor 0 = 0"
    by (simp add: physics_floor_def chunk_cost_def nat_to_f64_def f64.rnd_zero conservative_def CONSERVATIVE_A_def
        CONSERVATIVE_B_def sat_add_def)
  have fails: "\<not> checks_pass failing_state"
    by (simp add: checks_pass_def failing_state_def sample_state_def sample_pool_def pool_dense_def pool_call_def)
  have "takes_probe sample_boot sample_readiness Map.empty"
    by (simp add: takes_probe_def sample_readiness_def try_load_probe_cache_def)
  then show ?thesis
    using readiness_exit_exact [OF sample_boot_sane h, of Map.empty] floor fails
    by (auto simp: sample_boot_def sample_readiness_def)
qed

end
