(* ===== verification/Model_Load.thy ===== *)
theory Model_Load
  imports Server
begin

text \<open>
  Loading what a worker needs: the bundled sparse projection (\<open>src/weights.rs\<close>), the model files
  from the hub cache (\<open>embedder/model_files.rs\<close>), the execution providers and the session
  (\<open>embedder/session.rs\<close>, \<open>load_tokenizer\<close> of \<open>tokenize.rs\<close>). The safetensors parser, the hub client, the
  tokenizer library and ONNX Runtime are arguments; what is modelled is which calls are made,
  in which order, with which arguments, and what a failure leads to.
\<close>

section \<open>The bundled projection\<close>

text \<open>IEEE 754 binary32 from its bits; both zeros are one value.\<close>

definition f32_from_bits :: "32 word \<Rightarrow> fl" where
  "f32_from_bits w =
     (let n = unat w; neg = (2 ^ 31 \<le> n); e = n div 2 ^ 23 mod 256; m = n mod 2 ^ 23;
          sgn = (if neg then - 1 else 1)
      in if e = 255 then (if m = 0 then Inf neg else NaN)
         else if e = 0 then Fin (of_int (sgn * int m) * pow2 (- 149))
         else Fin (of_int (sgn * int (m + 2 ^ 23)) * pow2 (int e - 150)))"

definition f32_from_le_bytes :: "8 word \<Rightarrow> 8 word \<Rightarrow> 8 word \<Rightarrow> 8 word \<Rightarrow> fl" where
  "f32_from_le_bytes b0 b1 b2 b3 =
     f32_from_bits (word_of_nat (unat b0 + 256 * unat b1 + 65536 * unat b2 + 16777216 * unat b3))"

text \<open>\<open>chunks_exact(4)\<close>: a remainder of fewer than four bytes is dropped.\<close>

fun f32_chunks :: "8 word list \<Rightarrow> fl list" where
  "f32_chunks (b0 # b1 # b2 # b3 # bs) = f32_from_le_bytes b0 b1 b2 b3 # f32_chunks bs"
| "f32_chunks _ = []"

text \<open>The tensors of the file by name; \<open>None\<close> as the result is a panic.\<close>

definition sparse_linear :: "(string \<rightharpoonup> 8 word list) option \<Rightarrow> (fl list \<times> fl) option" where
  "sparse_linear tensors =
     Option.bind tensors (\<lambda>ts. Option.bind (ts ''weight'') (\<lambda>weight_data. Option.bind (ts ''bias'') (\<lambda>bias_data.
       if length weight_data mod 4 \<noteq> 0 then None
       else let weight = f32_chunks weight_data
            in if length bias_data \<noteq> 4 then None
               else let bias = hd (f32_chunks bias_data)
                    in if length weight \<noteq> 1024 then None else Some (weight, bias))))"

section \<open>Model files\<close>

definition REPO_ID :: string where "REPO_ID = ''BAAI/bge-m3''"

definition REPO_REVISION :: string where "REPO_REVISION = ''5617a9f61b028005a4858fdac845db406aefb181''"

definition XENOVA_REPO_ID :: string where "XENOVA_REPO_ID = ''Xenova/bge-m3''"

definition XENOVA_REPO_REVISION :: string where "XENOVA_REPO_REVISION = ''4de13258303883538bd53b696b452bf8099f0858''"

record model_files =
  mf_onnx_path :: string
  mf_tokenizer_path :: string

fun replace_slash :: "string \<Rightarrow> string" where
  "replace_slash [] = []"
| "replace_slash (c # cs) = (if c = CHR ''/'' then ''--'' else [c]) @ replace_slash cs"

definition is_model_cached :: "(string \<Rightarrow> bool) \<Rightarrow> string \<Rightarrow> string \<Rightarrow> string \<Rightarrow> string \<Rightarrow> bool" where
  "is_model_cached exists_path cache_dir repo_id revision onnx_filename =
     exists_path (path_join (path_join (path_join (path_join cache_dir (''models--'' @ replace_slash repo_id)) ''snapshots'')
       revision) onnx_filename)"

definition model_repo :: "model_variant \<Rightarrow> string \<times> string" where
  "model_repo v = (if v = Fp32 then (REPO_ID, REPO_REVISION) else (XENOVA_REPO_ID, XENOVA_REPO_REVISION))"

definition onnx_filename :: "model_variant \<Rightarrow> string" where
  "onnx_filename v =
     (case v of Fp32 \<Rightarrow> ''onnx/model.onnx'' | Fp16 \<Rightarrow> ''onnx/model_fp16.onnx'' | Int8 \<Rightarrow> ''onnx/model_int8.onnx'')"

text \<open>
  The hub: whether the cache directory can be made, whether the client can be built, and what \<open>get\<close> answers for a
  repository, a revision and a file.
\<close>

record hub =
  hub_create_dir :: "string \<Rightarrow> (string, unit) result"
  hub_build :: "(string, unit) result"
  hub_get :: "string \<Rightarrow> string \<Rightarrow> string \<Rightarrow> (string, string) result"

text \<open>Get files in order, stopping at the first failure; the first component is what was asked for.\<close>

fun get_files :: "(string \<Rightarrow> (string, string) result) \<Rightarrow> string list \<Rightarrow> string list \<times> (string, string list) result" where
  "get_files get [] = ([], Inr [])"
| "get_files get (f # fs) =
     (case get f of
        Inl e \<Rightarrow> ([f], Inl (''Failed to get '' @ f @ '': '' @ e))
      | Inr p \<Rightarrow> (case get_files get fs of (asked, r) \<Rightarrow> (f # asked, rbind r (\<lambda>ps. Inr (p # ps)))))"

definition model_file_list :: "model_variant \<Rightarrow> string list" where
  "model_file_list v =
     (case v of
        Fp32 \<Rightarrow> [''onnx/model.onnx'', ''onnx/model.onnx_data'', ''onnx/Constant_7_attr__value'']
      | Fp16 \<Rightarrow> [''onnx/model_fp16.onnx'']
      | Int8 \<Rightarrow> [''onnx/model_int8.onnx'']) @ [''tokenizer.json'']"

definition download_model_files :: "hub \<Rightarrow> string \<Rightarrow> model_variant \<Rightarrow> string list \<times> (string, model_files) result" where
  "download_model_files h cache_dir variant =
     (case hub_create_dir h cache_dir of
        Inl e \<Rightarrow> ([], Inl (''Cannot create or access model cache directory '' @ cache_dir @ '': '' @ e))
      | Inr _ \<Rightarrow>
          (case hub_build h of
             Inl e \<Rightarrow> ([], Inl (''Failed to build hf-hub API: '' @ e))
           | Inr _ \<Rightarrow>
               (case model_repo variant of (repo_id, repo_revision) \<Rightarrow>
                  apsnd (\<lambda>r. rbind r (\<lambda>ps. Inr \<lparr>mf_onnx_path = hd ps, mf_tokenizer_path = last ps\<rparr>))
                    (get_files (hub_get h repo_id repo_revision) (model_file_list variant)))))"

section \<open>Execution providers and the session\<close>

text \<open>
  The providers with what is set on them; the two GPU providers are built with \<open>error_on_failure\<close>. A build is for one platform and
  has a set of features; the specialization strategy of the macOS provider is a variable of the process.
\<close>

datatype coreml_strategy = Default_Strategy | FastPrediction

datatype provider =
    TensorRT_EP "32 word" string string "nat option"
  | CUDA_EP "32 word" "nat option"
  | CoreML_EP coreml_strategy string bool

record build_features =
  bf_macos :: bool
  bf_coreml_profile :: bool
  bf_tensorrt :: bool
  bf_cuda :: bool
  bf_coreml_strategy_var :: "string option"

definition execution_providers ::
  "build_features \<Rightarrow> string \<Rightarrow> ep_selection \<Rightarrow> 32 word \<Rightarrow> nat option \<Rightarrow> nat option \<Rightarrow> provider list" where
  "execution_providers features cache_dir ep device_id trt_max_workspace_bytes gpu_mem_limit_bytes =
     (if bf_macos features
      then [CoreML_EP (if bf_coreml_strategy_var features = Some ''default'' then Default_Strategy else FastPrediction)
              (path_join cache_dir ''coreml'') (bf_coreml_profile features)]
      else if bf_tensorrt features \<and> ep = TensorRt
      then [TensorRT_EP device_id (engine_cache_path cache_dir) (timing_cache_path cache_dir) trt_max_workspace_bytes]
      else if bf_cuda features \<and> ep = Cuda then [CUDA_EP device_id gpu_mem_limit_bytes]
      else [])"

text \<open>The calls on the session builder, in order; each may fail and ends the sequence.\<close>

datatype builder_call = New_Builder | With_Providers "provider list" | Optimization_Level3 | Intra_Threads nat | Commit_File string

definition load_session :: "(builder_call \<Rightarrow> (string, unit) result) \<Rightarrow> string \<Rightarrow> provider list \<Rightarrow> nat \<Rightarrow> (string, unit) result" where
  "load_session ort model_path eps intra_threads =
     rbind (ort New_Builder) (\<lambda>_.
     rbind (if eps = [] then Inr () else ort (With_Providers eps)) (\<lambda>_.
     rbind (ort Optimization_Level3) (\<lambda>_.
     rbind (ort (Intra_Threads (max intra_threads 1))) (\<lambda>_.
       ort (Commit_File model_path)))))"

record tokenizer_lib =
  tl_from_file :: "string \<Rightarrow> (string, unit) result"
  tl_set_truncation :: "nat \<Rightarrow> (string, unit) result"

definition load_tokenizer :: "tokenizer_lib \<Rightarrow> string \<Rightarrow> nat \<Rightarrow> (string, unit) result" where
  "load_tokenizer lib tokenizer_path max_seq_length =
     rbind (map_err (\<lambda>e. ''Failed to load tokenizer: '' @ e) (tl_from_file lib tokenizer_path)) (\<lambda>_.
       map_err (\<lambda>e. ''Failed to set truncation: '' @ e) (tl_set_truncation lib max_seq_length))"

definition load_models ::
  "hub \<Rightarrow> tokenizer_lib \<Rightarrow> (builder_call \<Rightarrow> (string, unit) result) \<Rightarrow> build_features \<Rightarrow> string \<Rightarrow> worker_config \<Rightarrow> (string, unit) result" where
  "load_models h lib ort features cache_dir config =
     rbind (snd (download_model_files h cache_dir (wc_model_variant config))) (\<lambda>files.
     rbind (load_tokenizer lib (mf_tokenizer_path files) (wc_max_seq_length config)) (\<lambda>_.
       load_session ort (mf_onnx_path files)
         (execution_providers features cache_dir (wc_ep config) (word_of_nat (wc_device_id config))
            (wc_trt_max_workspace_bytes config) (wc_gpu_mem_limit_bytes config))
         (wc_intra_threads config)))"

section \<open>Facts\<close>

lemma length_f32_chunks: "length (f32_chunks bs) = length bs div 4"
  by (induction bs rule: f32_chunks.induct) auto

text \<open>Decoding yields values of the format: rounding leaves them alone.\<close>

lemma f32_grid_exact:
  assumes "\<bar>k\<bar> < 2 ^ 24" and "- 149 \<le> q" and "q \<le> 104"
  shows "r32 (of_int k * pow2 q) = Fin (of_int k * pow2 q)"
proof -
  have "(of_int \<bar>k\<bar> :: rat) < of_int (2 ^ 24)" using assms(1) by (simp only: of_int_less_iff)
  then have "\<bar>of_int k * pow2 q\<bar> < pow2 24 * pow2 q" by (simp add: abs_mult pow2_def mult_strict_right_mono)
  also have "\<dots> \<le> pow2 128" using assms(3) by (simp flip: pow2_add) (rule pow2_mono, simp)
  finally show ?thesis
    using rat_round_exact [of k 24 "- 149" q] assms(1,2) by (simp add: r32_def fl_round_def Let_def not_le)
qed

lemma f32_from_bits_exact:
  assumes "f32_from_bits w = Fin q"
  shows "r32 q = Fin q"
proof -
  define n where "n = unat w"
  have e: "n div 2 ^ 23 mod 256 < 256" and m: "n mod 2 ^ 23 < 2 ^ 23" by simp_all
  consider k where "q = of_int k * pow2 (- 149)" "\<bar>k\<bar> < 2 ^ 24"
    | k e where "q = of_int k * pow2 (int e - 150)" "\<bar>k\<bar> < 2 ^ 24" "1 \<le> e" "e \<le> 254"
  proof -
    let ?e = "n div 2 ^ 23 mod 256"
    show thesis
    proof (cases "?e = 0")
      case True
      then have "q = of_int ((if 2 ^ 31 \<le> n then - 1 else 1) * int (n mod 2 ^ 23)) * pow2 (- 149)"
        using assms by (simp add: f32_from_bits_def Let_def n_def split: if_splits)
      moreover have "\<bar>(if 2 ^ 31 \<le> n then - 1 else 1) * int (n mod 2 ^ 23)\<bar> < 2 ^ 24" using m by (auto simp: abs_mult)
      ultimately show ?thesis by (rule that(1))
    next
      case False
      then have f: "?e \<noteq> 255" "q = of_int ((if 2 ^ 31 \<le> n then - 1 else 1) * int (n mod 2 ^ 23 + 2 ^ 23)) * pow2 (int ?e - 150)"
        using assms by (auto simp: f32_from_bits_def Let_def n_def split: if_splits)
      have "\<bar>(if 2 ^ 31 \<le> n then - 1 else 1) * int (n mod 2 ^ 23 + 2 ^ 23)\<bar> < 2 ^ 24" using m by (auto simp: abs_mult)
      moreover have "1 \<le> ?e" "?e \<le> 254" using False f(1) e by linarith+
      ultimately show ?thesis by (intro that(2) [OF f(2)])
    qed
  qed
  then show ?thesis by cases (auto intro: f32_grid_exact)
qed

lemma f32_chunks_exact: "Fin q \<in> set (f32_chunks bs) \<Longrightarrow> r32 q = Fin q"
  by (induction bs rule: f32_chunks.induct) (auto simp: f32_from_le_bytes_def f32_from_bits_exact)

lemma sparse_linear_iff:
  "sparse_linear (Some ts) = Some (weight, bias) \<longleftrightarrow>
     (\<exists>wd bd. ts ''weight'' = Some wd \<and> ts ''bias'' = Some bd \<and> length wd = 4096 \<and> length bd = 4 \<and>
        weight = f32_chunks wd \<and> bias = hd (f32_chunks bd))"
  by (auto simp: sparse_linear_def bind_eq_Some_conv Let_def length_f32_chunks split: if_splits elim: dvdE)

lemma sparse_linear_well_formed:
  assumes "sparse_linear ts = Some (weight, bias)"
  shows "length weight = 1024 \<and> (\<forall>q. Fin q \<in> insert bias (set weight) \<longrightarrow> r32 q = Fin q)"
proof -
  obtain t where t: "ts = Some t" using assms by (cases ts) (auto simp: sparse_linear_def)
  obtain wd bd where w: "length wd = 4096" "length bd = 4" "weight = f32_chunks wd" "bias = hd (f32_chunks bd)"
    using assms unfolding t sparse_linear_iff by blast
  have "f32_chunks bd \<noteq> []" using w(2) length_f32_chunks [of bd] by auto
  then have "bias \<in> set (f32_chunks bd)" unfolding w(4) by (rule hd_in_set)
  then show ?thesis using w f32_chunks_exact length_f32_chunks [of wd] by auto
qed

subsection \<open>Downloads\<close>

lemma get_files_all: "get_files get fs = (asked, Inr ps) \<longleftrightarrow> asked = fs \<and> map get fs = map Inr ps"
proof (induction fs arbitrary: asked ps)
  case (Cons f fs)
  show ?case
  proof (cases "get f")
    case (Inr p)
    then show ?thesis
      using Cons.IH by (cases ps; cases "get_files get fs") (auto simp: rbind_Inr_iff)
  qed auto
qed auto

lemma get_files_asks_prefix:
  "\<exists>n. fst (get_files get fs) = take n fs \<and> (\<forall>f\<in>set (butlast (take n fs)). \<exists>p. get f = Inr p)"
proof (induction fs)
  case (Cons f fs)
  then obtain n where n: "fst (get_files get fs) = take n fs" "\<forall>f\<in>set (butlast (take n fs)). \<exists>p. get f = Inr p" by blast
  show ?case
  proof (cases "get f")
    case (Inl e)
    then show ?thesis by (intro exI [of _ 1]) simp
  next
    case (Inr p)
    then show ?thesis using n by (intro exI [of _ "Suc n"]) (auto split: prod.splits)
  qed
qed simp

section \<open>Properties\<close>

text \<open>
  A worker asks the hub for nothing when its cache directory is unusable; otherwise it asks for the files of
  its variant in order, the tokenizer last, up to the first that cannot be had, and on success the
  session gets the path of the variant's own graph.
\<close>

theorem download_model_files_spec:
  shows "hub_create_dir h dir = Inl e \<Longrightarrow> fst (download_model_files h dir v) = [] \<and> is_err (snd (download_model_files h dir v))"
    and "\<exists>n. fst (download_model_files h dir v) = take n (model_file_list v)"
    and "download_model_files h dir v = (asked, Inr files) \<Longrightarrow>
      asked = model_file_list v \<and>
      hub_get h (fst (model_repo v)) (snd (model_repo v)) (onnx_filename v) = Inr (mf_onnx_path files) \<and>
      hub_get h (fst (model_repo v)) (snd (model_repo v)) ''tokenizer.json'' = Inr (mf_tokenizer_path files)"
proof -
  show "hub_create_dir h dir = Inl e \<Longrightarrow> fst (download_model_files h dir v) = [] \<and> is_err (snd (download_model_files h dir v))"
    by (simp add: download_model_files_def)
  let ?get = "hub_get h (fst (model_repo v)) (snd (model_repo v))"
  obtain n where "fst (get_files ?get (model_file_list v)) = take n (model_file_list v)"
    using get_files_asks_prefix by blast
  moreover have "fst (download_model_files h dir v) \<in> {[], fst (get_files ?get (model_file_list v))}"
    by (auto simp: download_model_files_def case_prod_unfold split: sum.split)
  ultimately show "\<exists>n. fst (download_model_files h dir v) = take n (model_file_list v)"
    by (metis insertE singletonD take0)
  assume "download_model_files h dir v = (asked, Inr files)"
  then obtain ps where ps: "get_files ?get (model_file_list v) = (asked, Inr ps)"
      "files = \<lparr>mf_onnx_path = hd ps, mf_tokenizer_path = last ps\<rparr>"
    by (auto simp: download_model_files_def case_prod_unfold rbind_Inr_iff apsnd_def map_prod_def prod_eq_iff split: sum.splits)
  then show "asked = model_file_list v \<and> ?get (onnx_filename v) = Inr (mf_onnx_path files) \<and>
      ?get ''tokenizer.json'' = Inr (mf_tokenizer_path files)"
    unfolding get_files_all by (cases v) (auto simp: model_file_list_def onnx_filename_def map_eq_Cons_conv)
qed

text \<open>
  A GPU provider is all or nothing: in a build with the feature the session gets exactly the selected provider, pinned to the
  worker's device, and a registration failure is an error of the load. In a build without it the
  selection is dropped without a word, while the cost model is already that of the GPU: the server
  then runs on the CPU with the VRAM budget as its workspace.
\<close>

theorem gpu_selection_needs_feature:
  "\<not> bf_macos features \<Longrightarrow> \<not> bf_tensorrt features \<Longrightarrow> \<not> bf_cuda features \<Longrightarrow>
   execution_providers features dir (cf_ep single_gpu) d t g = [] \<and>
   cf_cost_model_override single_gpu = Some (conservative DEFAULT_GPU_VRAM_BUDGET_BYTES)"
  by (simp add: execution_providers_def) (simp add: single_gpu_def from_lookup_def Let_def gpu_cost_model_override_def resolve_ep_def)

theorem provider_failure_is_fatal:
  assumes "\<not> bf_macos features" and "bf_cuda features" and "wc_ep config = Cuda"
    and "ort (With_Providers [CUDA_EP (word_of_nat (wc_device_id config)) (wc_gpu_mem_limit_bytes config)]) = Inl e"
  shows "is_err (load_models h lib ort features dir config)"
proof -
  have "load_models h lib ort features dir config \<noteq> Inr ()"
    using assms by (auto simp: load_models_def load_session_def execution_providers_def rbind_Inr_iff)
  then show ?thesis by (cases "load_models h lib ort features dir config") auto
qed

end
