(* ===== verification/Fp16_Eval.thy ===== *)
theory Fp16_Eval
  imports Model_Load
begin

text \<open>
  The release gate for the FP16 model, \<open>examples/fp16_eval.rs\<close>: it embeds a corpus with the FP32 and the FP16 model, compares the
  vectors (cosine similarity, largest difference, Jaccard index of the active tokens, correlation of the shared weights) and fails unless
  every target is met. The tool has its own copies of the loading and embedding code, modelled as they are written there.

  The tokenizers, the sessions, the hub, the file system, the iteration order of a \<open>HashMap\<close> and \<open>ndarray\<close>'s dot product are
  arguments. A panic is a failure of its own, as in the server's pipelines.
\<close>

section \<open>Arithmetic\<close>

text \<open>Conversion from \<open>f32\<close> is exact; the comparison with zero is false on a NaN.\<close>

fun f64_sqrt :: "fl \<Rightarrow> fl" where
  "f64_sqrt NaN = NaN"
| "f64_sqrt (Inf s) = (if s then NaN else Inf False)"
| "f64_sqrt (Fin x) = (if x < 0 then NaN else Fin (rat_sqrt_round 53 (- 1074) x))"

fun fl_is_zero :: "fl \<Rightarrow> bool" where
  "fl_is_zero (Fin x) = (x = 0)"
| "fl_is_zero _ = False"

definition f64_sum :: "fl list \<Rightarrow> fl" where
  "f64_sum = foldl (fl_add r64) (Fin 0)"

section \<open>Metrics\<close>

definition cosine_similarity :: "fl list \<Rightarrow> fl list \<Rightarrow> fl" where
  "cosine_similarity a b =
     (let dot = f64_sum (map2 (fl_mul r64) a b);
          norm_a = f64_sqrt (f64_sum (map (\<lambda>x. fl_mul r64 x x) a));
          norm_b = f64_sqrt (f64_sum (map (\<lambda>x. fl_mul r64 x x) b))
      in if fl_is_zero norm_a \<or> fl_is_zero norm_b then Fin 0 else fl_div r64 dot (fl_mul r64 norm_a norm_b))"

definition max_abs_diff :: "fl list \<Rightarrow> fl list \<Rightarrow> fl" where
  "max_abs_diff a b = foldl fl_max (Fin 0) (map2 (\<lambda>x y. fl_abs (fl_sub r64 x y)) a b)"

definition jaccard_index :: "nat list \<Rightarrow> nat list \<Rightarrow> fl" where
  "jaccard_index a b =
     (let intersection = length (filter (\<lambda>x. x \<in> set b) (remdups a));
          union = length (remdups (a @ b))
      in if union = 0 then Fin 1 else fl_div r64 (nat_to_f64 intersection) (nat_to_f64 union))"

text \<open>\<open>order\<close> is the iteration order of the first map's keys.\<close>

definition weight_correlation :: "(nat list \<Rightarrow> nat list) \<Rightarrow> nat list \<Rightarrow> fl list \<Rightarrow> nat list \<Rightarrow> fl list \<Rightarrow> fl" where
  "weight_correlation order a_indices a_values b_indices b_values =
     (let a_map = map_of (rev (zip a_indices a_values));
          b_map = map_of (rev (zip b_indices b_values));
          shared = filter (\<lambda>k. b_map k \<noteq> None) (order (remdups (map fst (zip a_indices a_values))))
      in if length shared < 2 then NaN
         else let a_vals = map (\<lambda>k. the (a_map k)) shared;
                  b_vals = map (\<lambda>k. the (b_map k)) shared;
                  n = nat_to_f64 (length shared);
                  mean_a = fl_div r64 (f64_sum a_vals) n;
                  mean_b = fl_div r64 (f64_sum b_vals) n;
                  da = map (\<lambda>x. fl_sub r64 x mean_a) a_vals;
                  db = map (\<lambda>x. fl_sub r64 x mean_b) b_vals;
                  cov = f64_sum (map2 (fl_mul r64) da db);
                  var_a = f64_sum (map (\<lambda>x. fl_mul r64 x x) da);
                  var_b = f64_sum (map (\<lambda>x. fl_mul r64 x x) db)
              in if fl_is_zero var_a \<or> fl_is_zero var_b then Fin 1
                 else fl_div r64 cov (fl_mul r64 (f64_sqrt var_a) (f64_sqrt var_b)))"

definition stats :: "fl list \<Rightarrow> fl \<times> fl \<times> fl" where
  "stats vals =
     (if vals = [] then (NaN, NaN, NaN)
      else (foldl fl_min (Inf False) vals, fl_div r64 (f64_sum vals) (nat_to_f64 (length vals)), foldl fl_max (Inf True) vals))"

section \<open>Embedding\<close>

text \<open>The two matrices of a batch the tokenizer has padded; the width is that of the first text.\<close>

definition batch_arrays :: "encoding list \<Rightarrow> (failure, array2 \<times> array2) result" where
  "batch_arrays encs =
     (case encs of
        [] \<Rightarrow> Inl Panic
      | e # _ \<Rightarrow>
          rbind (from_shape_vec (length encs) (length (enc_ids e)) (concat (map (\<lambda>e. map int (enc_ids e)) encs))) (\<lambda>ids.
          rbind (from_shape_vec (length encs) (length (enc_ids e)) (concat (map (\<lambda>e. map int (enc_mask e)) encs))) (\<lambda>am.
            Inr (ids, am))))"

definition eval_tokenize :: "tokenizer \<Rightarrow> string list \<Rightarrow> (failure, encoding list) result" where
  "eval_tokenize tok texts = map_err (\<lambda>e. Err (Msg (''Tokenization failed: '' @ e))) (tok texts)"

definition eval_run :: "session \<Rightarrow> array2 \<Rightarrow> array2 \<Rightarrow> (failure, session_outputs) result" where
  "eval_run sess ids am = map_err (\<lambda>e. Err (Msg e)) (sess ids am)"

fun index_rows :: "fl list list \<Rightarrow> nat list \<Rightarrow> (failure, fl list list) result" where
  "index_rows emb [] = Inr []"
| "index_rows emb (i # is) =
     (if i < length emb then rbind (index_rows emb is) (\<lambda>rs. Inr (normalize_l2 (emb ! i) # rs)) else Inl Panic)"

definition eval_embed_dense :: "session \<Rightarrow> tokenizer \<Rightarrow> string list \<Rightarrow> (failure, fl list list) result" where
  "eval_embed_dense sess tok texts =
     (if texts = [] then Inr []
      else rbind (eval_tokenize tok texts) (\<lambda>encs.
           rbind (batch_arrays encs) (\<lambda>(ids, am).
           rbind (eval_run sess ids am) (\<lambda>outputs.
           rbind (get_output (last_hidden_state outputs)) (\<lambda>lhs.
           rbind (cls_rows lhs) (\<lambda>emb. index_rows emb [0..<length encs]))))))"

text \<open>The pooling loop of one text over its positions; a hidden state is read only at an active position.\<close>

definition hidden_at :: "projection \<Rightarrow> fl list list list \<Rightarrow> nat \<Rightarrow> fl option" where
  "hidden_at pj token_emb seq_idx =
     (case token_emb of
        [] \<Rightarrow> None
      | batch0 # _ \<Rightarrow>
          if seq_idx < length batch0 \<and> length (batch0 ! seq_idx) = length (pj_weight pj)
          then Some (sparse_project (pj_dot pj) (batch0 ! seq_idx) (pj_weight pj) (pj_bias pj)) else None)"

fun pool_positions ::
  "(nat \<Rightarrow> fl option) \<Rightarrow> nat \<Rightarrow> (nat \<times> fl) list \<Rightarrow> nat list \<Rightarrow> nat list \<Rightarrow> (nat \<times> fl) list option" where
  "pool_positions score_at seq_idx m [] attn = Some m"
| "pool_positions score_at seq_idx m (token_id # ids) [] = None"
| "pool_positions score_at seq_idx m (token_id # ids) (k # attn) =
     (if k = 0 then pool_positions score_at (seq_idx + 1) m ids attn
      else if token_id \<in> set SPECIAL_TOKENS then pool_positions score_at (seq_idx + 1) m ids attn
      else case score_at seq_idx of
             None \<Rightarrow> None
           | Some score \<Rightarrow>
               pool_positions score_at (seq_idx + 1) (if fl_less (Fin 0) score then upsert_max token_id score m else m) ids attn)"

text \<open>Indexing a missing output panics; only a failed extraction falls back to the other name.\<close>

definition eval_token_output :: "session_outputs \<Rightarrow> (failure, fl list list list) result" where
  "eval_token_output outputs =
     (case token_embeddings outputs of
        None \<Rightarrow> Inl Panic
      | Some (Inr t) \<Rightarrow> Inr t
      | Some (Inl e) \<Rightarrow> get_output (last_hidden_state outputs))"

definition eval_sparse_text :: "projection \<Rightarrow> session \<Rightarrow> tokenizer \<Rightarrow> string \<Rightarrow> (failure, sparse_embedding) result" where
  "eval_sparse_text pj sess tok text =
     rbind (eval_tokenize tok [text]) (\<lambda>encs.
       case encs of
         [] \<Rightarrow> Inl Panic
       | e # _ \<Rightarrow>
           rbind (batch_arrays [e]) (\<lambda>(ids, am).
           rbind (eval_run sess ids am) (\<lambda>outputs.
           rbind (eval_token_output outputs) (\<lambda>token_emb.
             case pool_positions (hidden_at pj token_emb) 0 [] (enc_ids e) (enc_mask e) of
               None \<Rightarrow> Inl Panic
             | Some token_weights \<Rightarrow>
                 (let indices = sort (map fst token_weights)
                  in Inr \<lparr>sp_indices = indices, sp_values = map (\<lambda>k. the (map_of token_weights k)) indices\<rparr>)))))"

fun eval_embed_sparse :: "projection \<Rightarrow> session \<Rightarrow> tokenizer \<Rightarrow> string list \<Rightarrow> (failure, sparse_embedding list) result" where
  "eval_embed_sparse pj sess tok [] = Inr []"
| "eval_embed_sparse pj sess tok (text # texts) =
     rbind (eval_sparse_text pj sess tok text) (\<lambda>s. rbind (eval_embed_sparse pj sess tok texts) (\<lambda>ss. Inr (s # ss)))"

section \<open>Loading\<close>

text \<open>An error with a context is rendered as the whole chain.\<close>

definition with_context :: "string \<Rightarrow> (string, 'a) result \<Rightarrow> (failure, 'a) result" where
  "with_context c r = map_err (\<lambda>e. Err (Msg (c @ '': '' @ e))) r"

text \<open>A panic where the server's loader also panics, without its check that the weight bytes are whole values.\<close>

definition load_sparse_weights :: "(string \<rightharpoonup> 8 word list) option \<Rightarrow> (failure, fl list \<times> fl) result" where
  "load_sparse_weights tensors =
     (case tensors of
        None \<Rightarrow> Inl Panic
      | Some ts \<Rightarrow>
          (case (ts ''weight'', ts ''bias'') of
             (Some weight_data, Some bias_data) \<Rightarrow>
               (let weight = f32_chunks weight_data
                in if length bias_data \<noteq> 4 \<or> length weight \<noteq> 1024 then Inl Panic
                   else Inr (weight, hd (f32_chunks bias_data)))
           | _ \<Rightarrow> Inl Panic))"

definition eval_download :: "hub \<Rightarrow> (failure, string \<times> string) result" where
  "eval_download h =
     (let get = hub_get h REPO_ID REPO_REVISION
      in rbind (with_context ''Failed to build hf-hub API'' (hub_build h)) (\<lambda>_.
         rbind (with_context ''model.onnx'' (get ''onnx/model.onnx'')) (\<lambda>onnx_path.
         rbind (with_context ''model.onnx_data'' (get ''onnx/model.onnx_data'')) (\<lambda>_.
         rbind (with_context ''Constant_7'' (get ''onnx/Constant_7_attr__value'')) (\<lambda>_.
         rbind (with_context ''tokenizer.json'' (get ''tokenizer.json'')) (\<lambda>tokenizer_path.
           Inr (onnx_path, tokenizer_path)))))))"

definition MAX_SEQ_LENGTH :: nat where "MAX_SEQ_LENGTH = 8192"

definition eval_load_tokenizer :: "tokenizer_lib \<Rightarrow> string \<Rightarrow> (failure, unit) result" where
  "eval_load_tokenizer lib path =
     rbind (with_context ''Failed to load tokenizer'' (tl_from_file lib path)) (\<lambda>_.
       with_context ''Truncation'' (tl_set_truncation lib MAX_SEQ_LENGTH))"

definition eval_load_session :: "(builder_call \<Rightarrow> (string, unit) result) \<Rightarrow> string \<Rightarrow> (failure, unit) result" where
  "eval_load_session ort model_path =
     map_err (\<lambda>e. Err (Msg e))
       (rbind (ort New_Builder) (\<lambda>_. rbind (ort Optimization_Level3) (\<lambda>_. rbind (ort (Intra_Threads 1)) (\<lambda>_.
          ort (Commit_File model_path)))))"

section \<open>The run\<close>

record scenario =
  sc_description :: string
  sc_texts :: "string list"

text \<open>
  The tool's surroundings: its variables, the corpus file and its parser, the hub, the tokenizer library with the tokenizer of a
  file (padding to the longest text of a batch, truncating at a length), ONNX Runtime with the session of a model file, the file
  lengths, the bundled tensors, \<open>ndarray\<close>'s dot product and a map's iteration order.
\<close>

record eval_env =
  ev_var :: "string \<rightharpoonup> string"
  ev_corpus :: "(string, string) result"
  ev_parse_corpus :: "string \<Rightarrow> (string, (string \<times> scenario) list) result"
  ev_hub :: "string \<Rightarrow> hub"
  ev_lib :: tokenizer_lib
  ev_tokenizer :: "string \<Rightarrow> nat \<Rightarrow> tokenizer"
  ev_ort :: "builder_call \<Rightarrow> (string, unit) result"
  ev_session :: "string \<Rightarrow> session"
  ev_file_len :: "string \<Rightarrow> (string, nat) result"
  ev_tensors :: "(string \<rightharpoonup> 8 word list) option"
  ev_dot :: "fl list \<Rightarrow> fl list \<Rightarrow> fl"
  ev_order :: "nat list \<Rightarrow> nat list"

definition load_corpus :: "eval_env \<Rightarrow> (failure, (string \<times> scenario) list) result" where
  "load_corpus env =
     rbind (with_context ''Failed to read corpus.json'' (ev_corpus env)) (\<lambda>raw.
       with_context ''Failed to parse corpus.json'' (ev_parse_corpus env raw))"

record metrics =
  m_cosines :: "fl list"
  m_diffs :: "fl list"
  m_jaccards :: "fl list"
  m_correlations :: "fl list"

record models =
  mo_fp32 :: session
  mo_fp16 :: session
  mo_tok32 :: tokenizer
  mo_tok16 :: tokenizer
  mo_weights :: projection

text \<open>One pass of the scenario loop: what it appends to the four lists.\<close>

definition scenario_metrics :: "(nat list \<Rightarrow> nat list) \<Rightarrow> models \<Rightarrow> string list \<Rightarrow> (failure, metrics) result" where
  "scenario_metrics order mo texts =
     rbind (eval_embed_dense (mo_fp32 mo) (mo_tok32 mo) texts) (\<lambda>fp32_embs.
     rbind (eval_embed_dense (mo_fp16 mo) (mo_tok16 mo) texts) (\<lambda>fp16_embs.
     rbind (eval_embed_sparse (mo_weights mo) (mo_fp32 mo) (mo_tok32 mo) texts) (\<lambda>fp32_sp.
     rbind (eval_embed_sparse (mo_weights mo) (mo_fp16 mo) (mo_tok16 mo) texts) (\<lambda>fp16_sp.
       Inr \<lparr>m_cosines = map2 cosine_similarity fp32_embs fp16_embs,
            m_diffs = map2 max_abs_diff fp32_embs fp16_embs,
            m_jaccards = map2 (\<lambda>a b. jaccard_index (sp_indices a) (sp_indices b)) fp32_sp fp16_sp,
            m_correlations =
              filter (\<lambda>c. c \<noteq> NaN)
                (map2 (\<lambda>a b. weight_correlation order (sp_indices a) (sp_values a) (sp_indices b) (sp_values b)) fp32_sp fp16_sp)\<rparr>))))"

definition extend_metrics :: "metrics \<Rightarrow> metrics \<Rightarrow> metrics" where
  "extend_metrics a b = \<lparr>m_cosines = m_cosines a @ m_cosines b, m_diffs = m_diffs a @ m_diffs b,
     m_jaccards = m_jaccards a @ m_jaccards b, m_correlations = m_correlations a @ m_correlations b\<rparr>"

fun scenario_loop :: "(nat list \<Rightarrow> nat list) \<Rightarrow> models \<Rightarrow> metrics \<Rightarrow> scenario list \<Rightarrow> (failure, metrics) result" where
  "scenario_loop order mo acc [] = Inr acc"
| "scenario_loop order mo acc (sc # scs) =
     rbind (scenario_metrics order mo (sc_texts sc)) (\<lambda>m. scenario_loop order mo (extend_metrics acc m) scs)"

definition targets_met :: "metrics \<Rightarrow> bool" where
  "targets_met m =
     (case (stats (m_cosines m), stats (m_diffs m), stats (m_jaccards m), stats (m_correlations m)) of
        ((c_min, _, _), (_, _, d_max), (j_min, _, _), (r_min, _, _)) \<Rightarrow>
          fl_less (r64 (999 / 1000)) c_min \<and> fl_less d_max (r64 (1 / 100)) \<and>
          fl_less (r64 (95 / 100)) j_min \<and> fl_less (r64 (99 / 100)) r_min)"

text \<open>Everything \<open>main\<close> loads before the first comparison, in its order.\<close>

definition load_eval :: "eval_env \<Rightarrow> (failure, (string \<times> scenario) list \<times> models) result" where
  "load_eval env =
     (let cache_dir = case_option ''/tmp/bge-m3-cache'' id (ev_var env ''BGE_M3_CACHE_DIR'');
          fp16_model_path = case_option ''/tmp/bge-m3-cache/xenova-bge-m3-fp16/model_fp16.onnx'' id (ev_var env ''FP16_MODEL_PATH'')
      in rbind (load_corpus env) (\<lambda>corpus.
         rbind (eval_download (ev_hub env cache_dir)) (\<lambda>(onnx_path, tokenizer_path).
         rbind (eval_load_tokenizer (ev_lib env) tokenizer_path) (\<lambda>_.
         rbind (eval_load_session (ev_ort env) onnx_path) (\<lambda>_.
         rbind (with_context (''stat '' @ fp16_model_path) (ev_file_len env fp16_model_path)) (\<lambda>fp16_size.
         rbind (eval_load_session (ev_ort env) fp16_model_path) (\<lambda>_.
         rbind (eval_load_tokenizer (ev_lib env) tokenizer_path) (\<lambda>_.
         rbind (load_sparse_weights (ev_tensors env)) (\<lambda>(weight, bias).
           Inr (corpus,
             \<lparr>mo_fp32 = ev_session env onnx_path, mo_fp16 = ev_session env fp16_model_path,
              mo_tok32 = ev_tokenizer env tokenizer_path MAX_SEQ_LENGTH, mo_tok16 = ev_tokenizer env tokenizer_path MAX_SEQ_LENGTH,
              mo_weights = \<lparr>pj_dot = ev_dot env, pj_weight = weight, pj_bias = bias\<rparr>\<rparr>))))))))))"

text \<open>The scenarios run in the order of their names.\<close>

definition eval_metrics :: "eval_env \<Rightarrow> (failure, metrics) result" where
  "eval_metrics env =
     rbind (load_eval env) (\<lambda>(corpus, mo).
       scenario_loop (ev_order env) mo \<lparr>m_cosines = [], m_diffs = [], m_jaccards = [], m_correlations = []\<rparr>
         (map (\<lambda>name. the (map_of corpus name)) (sort (map fst corpus))))"

definition eval_main :: "eval_env \<Rightarrow> (failure, unit) result" where
  "eval_main env =
     rbind (eval_metrics env) (\<lambda>m.
       if targets_met m then Inr () else Inl (Err (Msg ''Phase A fidelity targets not met'')))"

section \<open>Facts\<close>

text \<open>A fold of \<open>f64::min\<close> or \<open>f64::max\<close> passes over every NaN.\<close>

lemma fl_less_fold_min:
  "acc \<noteq> NaN \<Longrightarrow> fl_less t (foldl fl_min acc vals) \<longleftrightarrow> fl_less t acc \<and> (\<forall>v\<in>set vals. v = NaN \<or> fl_less t v)"
proof (induction vals arbitrary: acc)
  case (Cons v vals)
  have "fl_min acc v \<noteq> NaN" "fl_less t (fl_min acc v) \<longleftrightarrow> fl_less t acc \<and> (v = NaN \<or> fl_less t v)"
    using Cons.prems by (cases t; cases acc; cases v; auto simp: fl_min_def)+
  then show ?case using Cons.IH [of "fl_min acc v"] by auto
qed simp

lemma fl_less_fold_max:
  "acc \<noteq> NaN \<Longrightarrow> fl_less (foldl fl_max acc vals) t \<longleftrightarrow> fl_less acc t \<and> (\<forall>v\<in>set vals. v = NaN \<or> fl_less v t)"
proof (induction vals arbitrary: acc)
  case (Cons v vals)
  have "fl_max acc v \<noteq> NaN" "fl_less (fl_max acc v) t \<longleftrightarrow> fl_less acc t \<and> (v = NaN \<or> fl_less v t)"
    using Cons.prems by (cases t; cases acc; cases v; auto simp: fl_max_def)+
  then show ?case using Cons.IH [of "fl_max acc v"] by auto
qed simp

lemma fold_max_not_NaN: "acc \<noteq> NaN \<Longrightarrow> foldl fl_max acc vals \<noteq> NaN"
  by (induction vals arbitrary: acc) (auto simp: fl_max_def)

lemma max_abs_diff_not_NaN: "max_abs_diff a b \<noteq> NaN"
  by (simp add: max_abs_diff_def fold_max_not_NaN)

lemma stats_gate:
  assumes "0 \<le> t" and "t < pow2 1000"
  shows "fl_less (r64 t) (fst (stats vals)) \<longleftrightarrow> vals \<noteq> [] \<and> (\<forall>v\<in>set vals. v = NaN \<or> fl_less (r64 t) v)"
    and "fl_less (snd (snd (stats vals))) (r64 t) \<longleftrightarrow> vals \<noteq> [] \<and> (\<forall>v\<in>set vals. v = NaN \<or> fl_less v (r64 t))"
proof -
  have "rat_round 53 (- 1074) t \<le> rat_round 53 (- 1074) (of_int 1 * pow2 1000)"
    using assms by (intro rat_round_mono) auto
  also have "\<dots> = of_int 1 * pow2 1000" by (rule rat_round_exact) auto
  also have "\<dots> < pow2 1024" by (simp add: pow2_less_iff)
  finally obtain q where "r64 t = Fin q"
    using rat_round_sign(1) [OF assms(1)] by (simp add: r64_def fl_round_def Let_def)
  then show "fl_less (r64 t) (fst (stats vals)) \<longleftrightarrow> vals \<noteq> [] \<and> (\<forall>v\<in>set vals. v = NaN \<or> fl_less (r64 t) v)"
    and "fl_less (snd (snd (stats vals))) (r64 t) \<longleftrightarrow> vals \<noteq> [] \<and> (\<forall>v\<in>set vals. v = NaN \<or> fl_less v (r64 t))"
    by (cases "vals = []"; simp add: stats_def fl_less_fold_min fl_less_fold_max)+
qed

lemma targets_met_iff:
  "targets_met m \<longleftrightarrow>
     m_cosines m \<noteq> [] \<and> m_diffs m \<noteq> [] \<and> m_jaccards m \<noteq> [] \<and> m_correlations m \<noteq> [] \<and>
     (\<forall>c\<in>set (m_cosines m). c = NaN \<or> fl_less (r64 (999 / 1000)) c) \<and>
     (\<forall>d\<in>set (m_diffs m). d = NaN \<or> fl_less d (r64 (1 / 100))) \<and>
     (\<forall>j\<in>set (m_jaccards m). j = NaN \<or> fl_less (r64 (95 / 100)) j) \<and>
     (\<forall>r\<in>set (m_correlations m). r = NaN \<or> fl_less (r64 (99 / 100)) r)"
proof -
  have big: "t < pow2 1000" if "t < 1" for t
    using that pow2_mono [of 0 1000] by (simp add: pow2_def)
  have g: "fl_less (r64 (999 / 1000)) (fst (stats vs)) \<longleftrightarrow> vs \<noteq> [] \<and> (\<forall>v\<in>set vs. v = NaN \<or> fl_less (r64 (999 / 1000)) v)"
    "fl_less (snd (snd (stats vs))) (r64 (1 / 100)) \<longleftrightarrow> vs \<noteq> [] \<and> (\<forall>v\<in>set vs. v = NaN \<or> fl_less v (r64 (1 / 100)))"
    "fl_less (r64 (95 / 100)) (fst (stats vs)) \<longleftrightarrow> vs \<noteq> [] \<and> (\<forall>v\<in>set vs. v = NaN \<or> fl_less (r64 (95 / 100)) v)"
    "fl_less (r64 (99 / 100)) (fst (stats vs)) \<longleftrightarrow> vs \<noteq> [] \<and> (\<forall>v\<in>set vs. v = NaN \<or> fl_less (r64 (99 / 100)) v)" for vs
    by (rule stats_gate [OF _ big]; simp)+
  have "targets_met m \<longleftrightarrow> fl_less (r64 (999 / 1000)) (fst (stats (m_cosines m))) \<and>
      fl_less (snd (snd (stats (m_diffs m)))) (r64 (1 / 100)) \<and> fl_less (r64 (95 / 100)) (fst (stats (m_jaccards m))) \<and>
      fl_less (r64 (99 / 100)) (fst (stats (m_correlations m)))"
    unfolding targets_met_def by (simp add: case_prod_beta)
  then show ?thesis unfolding g by blast
qed

text \<open>What every collected list satisfies: no NaN among the differences and the correlations, one difference per cosine.\<close>

definition metrics_inv :: "metrics \<Rightarrow> bool" where
  "metrics_inv m \<longleftrightarrow> NaN \<notin> set (m_diffs m) \<and> NaN \<notin> set (m_correlations m) \<and> length (m_diffs m) = length (m_cosines m)"

lemma scenario_metrics_inv: "scenario_metrics order mo texts = Inr m \<Longrightarrow> metrics_inv m"
  by (auto simp: scenario_metrics_def rbind_Inr_iff metrics_inv_def max_abs_diff_not_NaN [symmetric])

lemma scenario_loop_inv: "scenario_loop order mo acc scs = Inr m \<Longrightarrow> metrics_inv acc \<Longrightarrow> metrics_inv m"
proof (induction order mo acc scs rule: scenario_loop.induct)
  case (2 order mo acc sc scs)
  then obtain m' where m': "scenario_metrics order mo (sc_texts sc) = Inr m'"
    "scenario_loop order mo (extend_metrics acc m') scs = Inr m"
    by (auto simp: rbind_Inr_iff)
  moreover have "metrics_inv (extend_metrics acc m')"
    using 2(3) scenario_metrics_inv [OF m'(1)] by (auto simp: metrics_inv_def extend_metrics_def)
  ultimately show ?case using 2(1) by blast
qed simp

lemma eval_metrics_inv: "eval_metrics env = Inr m \<Longrightarrow> metrics_inv m"
  by (auto simp: eval_metrics_def rbind_Inr_iff metrics_inv_def dest!: scenario_loop_inv)

text \<open>A fraction below one with a small denominator stays below one when rounded.\<close>

lemma r64_fraction:
  fixes i u :: nat
  assumes "i \<le> u" and "0 < u" and "u < 2 ^ 53"
  obtains q where "r64 (of_nat i / of_nat u) = Fin q" "0 \<le> q" "q \<le> 1" "q = 1 \<longleftrightarrow> i = u"
proof -
  let ?x = "of_nat i / of_nat u :: rat"
  let ?r = "rat_round 53 (- 1074) ?x"
  have x: "0 \<le> ?x" "?x \<le> 1" using assms by (simp_all add: divide_le_eq)
  have one: "rat_round 53 (- 1074) 1 = 1" using rat_round_exact [of 1 53 "- 1074" 0] by (simp add: pow2_def)
  have r: "0 \<le> ?r" "?r \<le> 1"
    using rat_round_sign(1) [OF x(1)] rat_round_mono [OF x(2), of 53 "- 1074"] one by simp_all
  have lt: "?r < 1" if i: "i < u"
  proof (cases "i = 0")
    case False
    have u: "(of_nat u :: rat) \<le> 2 ^ 53" using assms(3) by (metis less_imp_le of_nat_le_iff of_nat_numeral of_nat_power)
    have "(of_nat (Suc i) :: rat) \<le> of_nat u" using i by (simp only: of_nat_le_iff Suc_le_eq)
    then have "?x \<le> (of_nat u - 1) / of_nat u" by (intro divide_right_mono) simp_all
    also have "\<dots> = 1 - 1 / of_nat u" using assms(2) by (simp add: diff_divide_distrib)
    also have "\<dots> \<le> 1 - 1 / 2 ^ 53" using u assms(2) by (intro diff_left_mono divide_left_mono) simp_all
    also have "\<dots> = of_int (2 ^ 53 - 1) * pow2 (- 53)" by (simp add: pow2_def)
    finally have le: "?x \<le> of_int (2 ^ 53 - 1) * pow2 (- 53)" .
    have pos: "0 < ?x" using False assms(2) by simp
    have "pow2 (ilog2 ?x) \<le> ?x" using pos by (rule ilog2_bounds)
    also have "\<dots> < pow2 0" using i by (simp add: pow2_def divide_less_eq)
    finally have "pow2 (ilog2 ?x) < pow2 0" .
    then have "ulp_exp 53 (- 1074) ?x \<le> - 53" using pos by (simp add: ulp_exp_def pow2_less_iff)
    with pos le have "?r \<le> of_int (2 ^ 53 - 1) * pow2 (- 53)" by (intro rat_round_le_grid less_imp_neq [symmetric])
    also have "\<dots> < 1" by (simp add: pow2_def)
    finally show ?thesis .
  qed simp
  have "?r < pow2 1024" using r(2) pow2_mono [of 1 1024] by simp
  then have "r64 ?x = Fin ?r" using r(1) by (simp add: r64_def fl_round_def Let_def)
  moreover have "?r = 1 \<longleftrightarrow> i = u" using lt one assms by (cases "i = u") auto
  ultimately show thesis using r that by blast
qed

lemma targets_below_one:
  "fl_less (r64 (999 / 1000)) (Fin 1)" "fl_less (r64 (95 / 100)) (Fin 1)" "fl_less (r64 (99 / 100)) (Fin 1)"
proof -
  have lt: "fl_less (r64 (of_nat i / of_nat u)) (Fin 1)" if "i < u" "u < 2 ^ 53" for i u :: nat
    using r64_fraction [of i u] that by (metis fl_less.simps(1) gr_zeroI less_imp_le less_imp_neq not_less_zero order_le_less)
  show "fl_less (r64 (999 / 1000)) (Fin 1)" "fl_less (r64 (95 / 100)) (Fin 1)" "fl_less (r64 (99 / 100)) (Fin 1)"
    using lt [of 999 1000] lt [of 95 100] lt [of 99 100] by simp_all
qed

lemma diff_target_positive: "fl_less (Fin 0) (r64 (1 / 100))"
proof -
  have p: "pow2 (- 7) = 1 / 128" by (simp add: pow2_def)
  have "of_int 1 * pow2 (- 7) \<le> rat_round 53 (- 1074) (of_int 1 * pow2 (- 7))" by (subst rat_round_exact) simp_all
  also have "\<dots> \<le> rat_round 53 (- 1074) (1 / 100)" by (intro rat_round_mono) (simp_all add: p)
  finally have "0 < rat_round 53 (- 1074) (1 / 100)" by (simp add: p)
  then show ?thesis by (simp add: r64_def fl_round_def Let_def)
qed

lemma jaccard_sizes:
  "length (filter (\<lambda>x. x \<in> set b) (remdups a)) = card (set a \<inter> set b)" "length (remdups (a @ b)) = card (set a \<union> set b)"
  by (simp_all only: length_remdups_card_conv set_append)
     (simp add: Int_def flip: distinct_card [OF distinct_filter [OF distinct_remdups]])

lemma jaccard_index_eq:
  assumes "card (set a \<union> set b) < 2 ^ 53"
  shows "jaccard_index a b =
    (if set a \<union> set b = {} then Fin 1 else r64 (of_nat (card (set a \<inter> set b)) / of_nat (card (set a \<union> set b))))"
proof -
  have "card (set a \<inter> set b) \<le> card (set a \<union> set b)" by (intro card_mono) auto
  then show ?thesis using assms
    by (simp add: jaccard_index_def jaccard_sizes Let_def nat_to_f64_exact card_eq_0_iff)
qed

text \<open>The pooling loop is the server's, with the scores computed on demand.\<close>

lemma pool_positions_maxpool:
  assumes "length scores = length ids" and "\<forall>j<length ids. score_at (i + j) = Some (scores ! j)"
  shows "pool_positions score_at i m ids attn = maxpool_loop m ids attn scores"
  using assms
proof (induction ids arbitrary: i m attn scores)
  case (Cons t ids)
  then obtain s scores' where s: "scores = s # scores'" "length scores' = length ids" by (cases scores) auto
  have "\<forall>j<length ids. score_at (i + 1 + j) = Some (scores' ! j)"
  proof (intro allI impI)
    fix j assume "j < length ids"
    then show "score_at (i + 1 + j) = Some (scores' ! j)" using Cons.prems(2) [rule_format, of "Suc j"] s by simp
  qed
  moreover have "score_at i = Some s" using Cons.prems(2) [rule_format, of 0] s by simp
  ultimately show ?case using Cons.IH [OF s(2)] s by (cases attn) auto
qed simp

lemma batch_arrays_single:
  assumes "wf_encoding e"
  shows "batch_arrays [e] =
    Inr (\<lparr>arr_rows = 1, arr_cols = length (enc_ids e), arr_flat = map int (enc_ids e)\<rparr>,
         \<lparr>arr_rows = 1, arr_cols = length (enc_ids e), arr_flat = map int (enc_mask e)\<rparr>)"
  using assms by (simp add: batch_arrays_def from_shape_vec_def wf_encoding_def)

lemma eval_sparse_text_eq:
  assumes tok: "tokenizes tok [text] [e]" and sess: "session_contract sess Fp32 g h (length (pj_weight pj))"
  shows "eval_sparse_text pj sess tok text = Inr (sparse_of pj e (h (map int (enc_ids e)) (map int (enc_mask e))))"
proof -
  let ?hid = "h (map int (enc_ids e)) (map int (enc_mask e))"
  let ?scores = "map (\<lambda>x. sparse_project (pj_dot pj) x (pj_weight pj) (pj_bias pj)) (take (length (enc_ids e)) ?hid)"
  let ?A = "\<lambda>xs. \<lparr>arr_rows = Suc 0, arr_cols = length (enc_ids e), arr_flat = map int xs\<rparr>"
  have wf: "wf_encoding e" and t: "tok [text] = Inr [e]" using tok by (auto simp: tokenizes_def)
  have hid: "length ?hid = length (enc_ids e)" "\<forall>x\<in>set ?hid. length x = length (pj_weight pj)"
    using sess by (simp_all add: session_contract_def)
  have "wf_array (?A (enc_ids e))" "wf_array (?A (enc_mask e))" using wf by (simp_all add: wf_array_def wf_encoding_def)
  from session_contractD [OF sess this] obtain outs where outs: "sess (?A (enc_ids e)) (?A (enc_mask e)) = Inr outs"
    "token_embeddings outs = Some (Inr (rows_of h (?A (enc_ids e)) (?A (enc_mask e))))" by auto
  have rows [simp]: "rows_of h (?A (enc_ids e)) (?A (enc_mask e)) = [?hid]"
    using wf by (simp add: rows_of_def array_row_def wf_encoding_def)
  have "pool_positions (hidden_at pj [?hid]) 0 [] (enc_ids e) (enc_mask e) = maxpool_loop [] (enc_ids e) (enc_mask e) ?scores"
    using hid by (intro pool_positions_maxpool) (auto simp: hidden_at_def)
  moreover obtain tw where "maxpool_loop [] (enc_ids e) (enc_mask e) ?scores = Some tw"
    using maxpool_loop_inv [of "[]" "[]" "[]" "[]" "enc_mask e" "enc_ids e" ?scores] wf hid
    by (auto simp: wf_encoding_def pool_inv_def contributes_def)
  ultimately show ?thesis using outs t
    by (simp add: eval_sparse_text_def eval_tokenize_def batch_arrays_single [OF wf] eval_run_def eval_token_output_def
        sparse_of_def sparse_maxpool_def Let_def)
qed

text \<open>A text alone runs unpadded, so both programs feed the model the same row.\<close>

lemma server_sparse_single:
  assumes tok: "tokenizes tok [text] [e]" and sess: "session_contract sess v g h (length (pj_weight pj))"
  shows "\<exists>st. embed_sparse pj sess tok tm [text] cm v None =
    Inr ([sparse_of pj e (h (map int (enc_ids e)) (map int (enc_mask e)))], st)"
proof -
  let ?c = "chunk_at cm [e] 0"
  obtain ss st where ss: "embed_sparse pj sess tok tm [text] cm v None = Inr (ss, st)" "length ss = 1"
    "ss ! 0 = sparse_of pj e (padded_run h [e] ?c 0)"
    using sparse_complete [OF tok sess, of None cm tm] by auto
  have c: "0 \<in> set ?c" "\<forall>i\<in>set ?c. i = 0"
    using bp.chunk_of_covers [of 0 "seq_lens_of [e]" cm] bp.pack_bound [of ?c "seq_lens_of [e]" cm] by auto
  then have "?c \<noteq> []" "(\<lambda>i. seq_lens_of [e] ! i) ` set ?c = {length (enc_ids e)}" by force+
  then have "list_max (map (\<lambda>i. seq_lens_of [e] ! i) ?c) = Some (length (enc_ids e))"
    by (simp add: list_max_eq_Max)
  then have pad: "chunk_pad (seq_lens_of [e]) ?c = max (length (enc_ids e)) 1" by (simp add: chunk_pad_def)
  have "sparse_of pj e (padded_run h [e] ?c 0) = sparse_of pj e (h (map int (enc_ids e)) (map int (enc_mask e)))"
  proof (cases "enc_ids e = []")
    case True
    then show ?thesis by (simp add: sparse_of_def)
  next
    case False
    then have "chunk_pad (seq_lens_of [e]) ?c = length (enc_ids e)" using pad by (cases "enc_ids e") auto
    then show ?thesis by (simp add: padded_run_def padded_ids_def padded_mask_def)
  qed
  then show ?thesis using ss by (cases ss) auto
qed

lemma batch_arrays_padded:
  assumes "encs \<noteq> []" and "\<forall>e\<in>set encs. length (enc_ids e) = n \<and> length (enc_mask e) = n"
  shows "\<exists>ids am. batch_arrays encs = Inr (ids, am)"
proof -
  have "length (concat (map (\<lambda>e. map int (f e)) encs)) = length encs * n" if "\<forall>e\<in>set encs. length (f e) = n"
    for f :: "encoding \<Rightarrow> nat list"
    using concat_uniform_length [of "map (\<lambda>e. map int (f e)) encs" n] that by simp
  then have "length (concat (map (\<lambda>e. map int (enc_ids e)) encs)) = length encs * n"
    "length (concat (map (\<lambda>e. map int (enc_mask e)) encs)) = length encs * n"
    using assms(2) by blast+
  moreover have "length (enc_ids (hd encs)) = n" using assms by simp
  ultimately show ?thesis using assms(1) by (cases encs) (simp_all add: batch_arrays_def from_shape_vec_def)
qed

text \<open>
  The tokenizer pads a batch to its longest text; the FP32 export names its outputs \<open>sentence_embedding\<close> and
  \<open>token_embeddings\<close> (\<open>docs/model-variants.md\<close>).
\<close>

definition pads_batches :: "tokenizer \<Rightarrow> bool" where
  "pads_batches tok \<longleftrightarrow>
     (\<forall>texts. \<exists>encs n. tok texts = Inr encs \<and> length encs = length texts \<and>
        (\<forall>e\<in>set encs. length (enc_ids e) = n \<and> length (enc_mask e) = n))"

definition no_last_hidden_state :: "session \<Rightarrow> bool" where
  "no_last_hidden_state sess \<longleftrightarrow> (\<forall>ids am. \<exists>outs. sess ids am = Inr outs \<and> last_hidden_state outs = None)"

lemma eval_embed_dense_panics:
  assumes "pads_batches tok" and "no_last_hidden_state sess" and "texts \<noteq> []"
  shows "eval_embed_dense sess tok texts = Inl Panic"
proof -
  obtain encs n where e: "tok texts = Inr encs" "length encs = length texts"
    "\<forall>e\<in>set encs. length (enc_ids e) = n \<and> length (enc_mask e) = n"
    using assms(1) unfolding pads_batches_def by blast
  have "encs \<noteq> []" using e(2) assms(3) by auto
  then obtain ids am where "batch_arrays encs = Inr (ids, am)" using batch_arrays_padded e(3) by blast
  moreover obtain outs where "sess ids am = Inr outs" "last_hidden_state outs = None"
    using assms(2) unfolding no_last_hidden_state_def by blast
  ultimately show ?thesis using e assms(3) by (simp add: eval_embed_dense_def eval_tokenize_def eval_run_def)
qed

text \<open>The FP16 export names its only output \<open>last_hidden_state\<close>.\<close>

definition no_token_embeddings :: "session \<Rightarrow> bool" where
  "no_token_embeddings sess \<longleftrightarrow> (\<forall>ids am outs. sess ids am = Inr outs \<longrightarrow> token_embeddings outs = None)"

lemma eval_sparse_text_panics:
  assumes tok: "tokenizes tok [text] [e]" and sess: "session_contract sess Fp16 g h w" and none: "no_token_embeddings sess"
  shows "eval_sparse_text pj sess tok text = Inl Panic"
proof -
  let ?A = "\<lambda>xs. \<lparr>arr_rows = Suc 0, arr_cols = length (enc_ids e), arr_flat = map int xs\<rparr>"
  have wf: "wf_encoding e" and t: "tok [text] = Inr [e]" using tok by (auto simp: tokenizes_def)
  have "wf_array (?A (enc_ids e))" "wf_array (?A (enc_mask e))" using wf by (simp_all add: wf_array_def wf_encoding_def)
  from session_contractD [OF sess this] obtain outs where outs: "sess (?A (enc_ids e)) (?A (enc_mask e)) = Inr outs" by auto
  moreover have "token_embeddings outs = None" using none outs unfolding no_token_embeddings_def by blast
  ultimately show ?thesis using t
    by (simp add: eval_sparse_text_def eval_tokenize_def batch_arrays_single [OF wf] eval_run_def eval_token_output_def)
qed

lemma f64_sum_NaN: "NaN \<in> set xs \<Longrightarrow> f64_sum xs = NaN"
proof -
  have stays: "foldl (fl_add r64) NaN ys = NaN" for ys by (induction ys) auto
  assume "NaN \<in> set xs"
  then have "foldl (fl_add r64) acc xs = NaN" for acc
    by (induction xs arbitrary: acc) (auto simp: stays, metis fl_add.simps fl.exhaust stays)
  then show ?thesis by (simp add: f64_sum_def)
qed

lemma cosine_similarity_NaN:
  assumes "NaN \<in> set b" and "\<not> fl_is_zero (f64_sqrt (f64_sum (map (\<lambda>x. fl_mul r64 x x) a)))"
  shows "cosine_similarity a b = NaN"
proof -
  have "NaN \<in> set (map (\<lambda>x. fl_mul r64 x x) b)" using assms(1) by force
  then have "f64_sum (map (\<lambda>x. fl_mul r64 x x) b) = NaN" by (rule f64_sum_NaN)
  moreover have "fl_mul r64 x NaN = NaN" "fl_div r64 x NaN = NaN" for x by (cases x; simp)+
  ultimately show ?thesis using assms(2) by (simp add: cosine_similarity_def Let_def)
qed

section \<open>A concrete run\<close>

definition sample_eval :: eval_env where
  "sample_eval = \<lparr>ev_var = Map.empty, ev_corpus = Inr [], ev_parse_corpus = (\<lambda>_. Inr []),
     ev_hub = (\<lambda>_. \<lparr>hub_create_dir = (\<lambda>_. Inr ()), hub_build = Inr (), hub_get = (\<lambda>r v f. Inr f)\<rparr>),
     ev_lib = \<lparr>tl_from_file = (\<lambda>_. Inr ()), tl_set_truncation = (\<lambda>_. Inr ())\<rparr>,
     ev_tokenizer = (\<lambda>p n texts. Inr (map (\<lambda>t. \<lparr>enc_ids = [0, 7], enc_mask = [1, 1]\<rparr>) texts)), ev_ort = (\<lambda>_. Inr ()),
     ev_session = (\<lambda>p. sample_run), ev_file_len = (\<lambda>_. Inr 1),
     ev_tensors = Some [''weight'' \<mapsto> replicate 4096 0, ''bias'' \<mapsto> replicate 4 0], ev_dot = (\<lambda>x y. hd x), ev_order = sort\<rparr>"

definition sample_fp16_run :: session where
  "sample_fp16_run ids am =
     Inr \<lparr>sentence_embedding = None, token_embeddings = None, last_hidden_state = Some (Inr (rows_of sample_h ids am))\<rparr>"

definition sample_models :: models where
  "sample_models = \<lparr>mo_fp32 = sample_run, mo_fp16 = sample_run,
     mo_tok32 = (\<lambda>texts. Inr (map (\<lambda>t. \<lparr>enc_ids = [0, 7], enc_mask = [1, 1]\<rparr>) texts)),
     mo_tok16 = (\<lambda>texts. Inr (map (\<lambda>t. \<lparr>enc_ids = [0, 7], enc_mask = [1, 1]\<rparr>) texts)),
     mo_weights = \<lparr>pj_dot = (\<lambda>x y. hd x), pj_weight = f32_chunks (replicate 4096 0), pj_bias = hd (f32_chunks (replicate 4 0))\<rparr>\<rparr>"

lemma sample_eval_loads:
  "load_eval (sample_eval\<lparr>ev_parse_corpus := (\<lambda>_. Inr corpus)\<rparr>) = Inr (corpus, sample_models)"
  "load_eval sample_eval = Inr ([], sample_models)"
  by (simp_all add: load_eval_def sample_eval_def sample_models_def load_corpus_def with_context_def eval_download_def Let_def
      eval_load_tokenizer_def eval_load_session_def load_sparse_weights_def length_f32_chunks)

lemma sample_models_export: "pads_batches (mo_tok32 sample_models)" "no_last_hidden_state (mo_fp32 sample_models)"
  by (auto simp: sample_models_def pads_batches_def no_last_hidden_state_def sample_run_def)

section \<open>Properties\<close>

text \<open>
  C33: the verdict, exactly: once the run has collected its metrics, the tool succeeds if and only if there is a cosine, a Jaccard
  index and a correlation, every difference and correlation meets its target, and every cosine and Jaccard index that is a number
  does; otherwise it fails with the error of missed targets. Means and maxima (minima for the differences) never matter.
\<close>

theorem fp16_gate_exact:
  assumes "eval_metrics env = Inr m"
  shows "eval_main env =
    (if m_cosines m \<noteq> [] \<and> m_jaccards m \<noteq> [] \<and> m_correlations m \<noteq> [] \<and>
        (\<forall>c\<in>set (m_cosines m). c = NaN \<or> fl_less (r64 (999 / 1000)) c) \<and>
        (\<forall>d\<in>set (m_diffs m). fl_less d (r64 (1 / 100))) \<and>
        (\<forall>j\<in>set (m_jaccards m). j = NaN \<or> fl_less (r64 (95 / 100)) j) \<and>
        (\<forall>r\<in>set (m_correlations m). fl_less (r64 (99 / 100)) r)
     then Inr () else Inl (Err (Msg ''Phase A fidelity targets not met'')))"
proof -
  have "NaN \<notin> set (m_diffs m)" "NaN \<notin> set (m_correlations m)" "m_diffs m = [] \<longleftrightarrow> m_cosines m = []"
    using eval_metrics_inv [OF assms] by (auto simp: metrics_inv_def simp flip: length_0_conv)
  then show ?thesis using assms by (auto simp: eval_main_def targets_met_iff)
qed

text \<open>A corpus without scenarios leaves nothing to judge: the tool fails.\<close>

theorem fp16_gate_exact_witness:
  "eval_metrics sample_eval = Inr \<lparr>m_cosines = [], m_diffs = [], m_jaccards = [], m_correlations = []\<rparr> \<and>
   eval_main sample_eval = Inl (Err (Msg ''Phase A fidelity targets not met''))"
proof -
  have "eval_metrics sample_eval = Inr \<lparr>m_cosines = [], m_diffs = [], m_jaccards = [], m_correlations = []\<rparr>"
    by (simp add: eval_metrics_def sample_eval_loads)
  from this fp16_gate_exact [OF this] show ?thesis by simp
qed

text \<open>
  C34: the tool's copy of the sparse pipeline against the server's, on both of the sessions the tool gives it. On a session with the
  FP32 export's outputs every text gets exactly the sparse embedding the server computes for that text alone, whatever the server's
  cost model. On a session with the FP16 model's only output, \<open>last_hidden_state\<close>, the copies part: the server pools every
  text, and the tool panics on the first one, so that it has no sparse embedding of any non-empty list of texts.
\<close>

theorem eval_sparse_agrees:
  assumes "\<forall>t\<in>set texts. tokenizes tok [t] [enc t]"
    and "session_contract fp32 Fp32 g h (length (pj_weight pj))"
    and "session_contract fp16 Fp16 g' h' (length (pj_weight pj))" and "no_token_embeddings fp16"
  shows "(\<exists>ss. eval_embed_sparse pj fp32 tok texts = Inr ss \<and> length ss = length texts \<and>
      (\<forall>i<length texts. \<exists>st. embed_sparse pj fp32 tok tm [texts ! i] cm Fp32 None = Inr ([ss ! i], st))) \<and>
    eval_embed_sparse pj fp16 tok texts = (if texts = [] then Inr [] else Inl Panic) \<and>
    (\<forall>t\<in>set texts. \<exists>s st. embed_sparse pj fp16 tok tm [t] cm Fp16 None = Inr ([s], st))"
proof (intro conjI)
  let ?s = "\<lambda>t. sparse_of pj (enc t) (h (map int (enc_ids (enc t))) (map int (enc_mask (enc t))))"
  have "eval_embed_sparse pj fp32 tok texts = Inr (map ?s texts)"
    using assms(1) by (induction texts) (auto simp: eval_sparse_text_eq [OF _ assms(2)])
  then show "\<exists>ss. eval_embed_sparse pj fp32 tok texts = Inr ss \<and> length ss = length texts \<and>
      (\<forall>i<length texts. \<exists>st. embed_sparse pj fp32 tok tm [texts ! i] cm Fp32 None = Inr ([ss ! i], st))"
    using server_sparse_single [OF _ assms(2)] assms(1) by (intro exI [of _ "map ?s texts"]) simp
  show "eval_embed_sparse pj fp16 tok texts = (if texts = [] then Inr [] else Inl Panic)"
    using eval_sparse_text_panics [OF _ assms(3,4)] assms(1) by (cases texts) auto
  show "\<forall>t\<in>set texts. \<exists>s st. embed_sparse pj fp16 tok tm [t] cm Fp16 None = Inr ([s], st)"
    using server_sparse_single [OF _ assms(3)] assms(1) by blast
qed

theorem eval_sparse_agrees_witness:
  "(\<exists>ss. eval_embed_sparse sample_pj sample_run sample_tok [''ab'', ''c''] = Inr ss \<and> length ss = 2 \<and>
    (\<forall>i<2. \<exists>st. embed_sparse sample_pj sample_run sample_tok sample_tm [[''ab'', ''c''] ! i] (conservative 100) Fp32 None = Inr ([ss ! i], st))) \<and>
   eval_embed_sparse sample_pj sample_fp16_run sample_tok [''ab'', ''c''] = Inl Panic \<and>
   (\<exists>s st. embed_sparse sample_pj sample_fp16_run sample_tok sample_tm [''ab''] (conservative 100) Fp16 None = Inr ([s], st))"
proof -
  have t: "tokenizes sample_tok [t] [hd (sample_encs [t])]" for t
    using sample_tokenizes [of "[t]"] by (simp add: sample_encs_def sample_tok_def)
  have w: "session_contract sample_run Fp32 sample_g sample_h (length (pj_weight sample_pj))"
    using sample_contract by (simp add: sample_pj_def)
  then have w16: "session_contract sample_fp16_run Fp16 sample_g sample_h (length (pj_weight sample_pj))"
    by (simp add: session_contract_def sample_fp16_run_def)
  have n: "no_token_embeddings sample_fp16_run" by (simp add: no_token_embeddings_def sample_fp16_run_def)
  from t have "\<forall>t\<in>set [''ab'', ''c'']. tokenizes sample_tok [t] [hd (sample_encs [t])]" by blast
  from eval_sparse_agrees [OF this w w16 n, of sample_tm "conservative 100"] show ?thesis
    by (simp add: numeral_2_eq_2)
qed

text \<open>
  The Jaccard index of two token lists lies in [0, 1], is a number, and is 1 exactly when both hold the same tokens: rounding
  the quotient never turns a difference into a match.
\<close>

theorem jaccard_one_iff_same_tokens:
  assumes "card (set a \<union> set b) < 2 ^ 53"
  shows "\<exists>q. jaccard_index a b = Fin q \<and> 0 \<le> q \<and> q \<le> 1 \<and> (q = 1 \<longleftrightarrow> set a = set b)"
proof (cases "set a \<union> set b = {}")
  case True
  then show ?thesis using jaccard_index_eq [OF assms] by (intro exI [of _ 1]) auto
next
  case False
  have le: "card (set a \<inter> set b) \<le> card (set a \<union> set b)" by (intro card_mono) auto
  have "card (set a \<inter> set b) = card (set a \<union> set b) \<longleftrightarrow> set a \<inter> set b = set a \<union> set b"
    using card_subset_eq [of "set a \<union> set b" "set a \<inter> set b"] by auto
  then have same: "card (set a \<inter> set b) = card (set a \<union> set b) \<longleftrightarrow> set a = set b" by blast
  have "0 < card (set a \<union> set b)" using False by (simp add: card_gt_0_iff)
  from le this assms obtain q where
    "r64 (of_nat (card (set a \<inter> set b)) / of_nat (card (set a \<union> set b))) = Fin q" "0 \<le> q" "q \<le> 1"
    "q = 1 \<longleftrightarrow> card (set a \<inter> set b) = card (set a \<union> set b)"
    by (rule r64_fraction)
  then show ?thesis using jaccard_index_eq [OF assms] False same by (intro exI [of _ q]) simp
qed

theorem jaccard_one_iff_same_tokens_witness:
  "card (set [5, 9] \<union> set [9, 7::nat]) < 2 ^ 53 \<and>
   (\<exists>q. jaccard_index [5, 9] [9, 7] = Fin q \<and> 0 \<le> q \<and> q \<le> 1 \<and> q \<noteq> 1)"
proof -
  have "set [5, 9] \<union> set [9, 7::nat] = {5, 7, 9}" by auto
  then have "card (set [5, 9] \<union> set [9, 7::nat]) < 2 ^ 53" by simp
  moreover have "5 \<notin> set [9, 7::nat]" and "5 \<in> set [5, 9::nat]" by simp_all
  then have "set [5, 9] \<noteq> set [9, 7::nat]" by metis
  ultimately show ?thesis using jaccard_one_iff_same_tokens [of "[5, 9]" "[9, 7]"] by blast
qed

text \<open>
  The dense targets do not see a NaN: adding a text whose FP16 vector has a NaN, the rest within the allowed difference, leaves
  the verdict as it was.
\<close>

theorem nan_vector_passes_gate:
  assumes "m_cosines m \<noteq> []" and "m_diffs m \<noteq> []"
    and "NaN \<in> set b" and "\<not> fl_is_zero (f64_sqrt (f64_sum (map (\<lambda>x. fl_mul r64 x x) a)))"
    and "\<forall>(x, y)\<in>set (zip a b). fl_sub r64 x y = NaN \<or> fl_less (fl_abs (fl_sub r64 x y)) (r64 (1 / 100))"
  shows "targets_met (m\<lparr>m_cosines := m_cosines m @ [cosine_similarity a b], m_diffs := m_diffs m @ [max_abs_diff a b]\<rparr>) =
    targets_met m"
proof -
  have "fl_less (max_abs_diff a b) (r64 (1 / 100))"
    using assms(5) diff_target_positive by (auto simp: max_abs_diff_def fl_less_fold_max)
  then show ?thesis using assms(1,2) cosine_similarity_NaN [OF assms(3,4)] by (auto simp: targets_met_iff)
qed

theorem nan_vector_passes_gate_witness:
  "targets_met \<lparr>m_cosines = [Fin 1, cosine_similarity [Fin 1, Fin 0] [Fin 1, NaN]],
     m_diffs = [Fin 0, max_abs_diff [Fin 1, Fin 0] [Fin 1, NaN]], m_jaccards = [Fin 1], m_correlations = [Fin 1]\<rparr>"
proof -
  let ?m = "\<lparr>m_cosines = [Fin 1], m_diffs = [Fin 0], m_jaccards = [Fin 1], m_correlations = [Fin 1]\<rparr>"
  have "targets_met ?m" using targets_below_one diff_target_positive by (simp add: targets_met_iff)
  moreover have "f64_sum (map (\<lambda>x. fl_mul r64 x x) [Fin 1, Fin 0]) = Fin 1"
    using f64.rnd_int_exact [of 1] by (simp add: f64_sum_def f64.rnd_zero)
  then have "\<not> fl_is_zero (f64_sqrt (f64_sum (map (\<lambda>x. fl_mul r64 x x) [Fin 1, Fin 0])))"
    using rat_sqrt_round_pos [of 1 "- 1074" 53] pow2_mono [of "- 2148" 0] by (simp add: pow2_def)
  moreover have "fl_less (fl_abs (fl_sub r64 (Fin 1) (Fin 1))) (r64 (1 / 100))" "fl_sub r64 (Fin 0) NaN = NaN"
    using diff_target_positive by (simp_all add: fl_sub_def f64.rnd_zero)
  ultimately show ?thesis using nan_vector_passes_gate [of ?m "[Fin 1, NaN]" "[Fin 1, Fin 0]"] by simp
qed

text \<open>
  C35: on the FP32 export the tool never reaches its verdict: that model has no output \<open>last_hidden_state\<close>, which the dense
  comparison indexes by name, so the first scenario with texts panics.
\<close>

theorem fp32_export_panics:
  assumes "load_eval env = Inr (corpus, mo)" and "corpus \<noteq> []" and "\<forall>(name, sc)\<in>set corpus. sc_texts sc \<noteq> []"
    and "pads_batches (mo_tok32 mo)" and "no_last_hidden_state (mo_fp32 mo)"
  shows "eval_main env = Inl Panic"
proof -
  have "set (sort (map fst corpus)) = fst ` set corpus" by simp
  with assms(2) obtain n ns where n: "sort (map fst corpus) = n # ns" "n \<in> fst ` set corpus"
    by (cases "sort (map fst corpus)") auto
  then obtain sc where "map_of corpus n = Some sc" by (cases "map_of corpus n") (auto simp: map_of_eq_None_iff)
  then have "sc_texts (the (map_of corpus n)) \<noteq> []" using assms(3) map_of_SomeD by fastforce
  then show ?thesis
    using eval_embed_dense_panics [OF assms(4,5)] assms(1) n
    by (simp add: eval_main_def eval_metrics_def scenario_metrics_def)
qed

theorem fp32_export_panics_witness:
  "eval_main (sample_eval\<lparr>ev_parse_corpus := (\<lambda>_. Inr [(''short'', \<lparr>sc_description = [], sc_texts = [''a'']\<rparr>)])\<rparr>) = Inl Panic"
  using fp32_export_panics [OF sample_eval_loads(1) _ _ sample_models_export,
      of "[(''short'', \<lparr>sc_description = [], sc_texts = [''a'']\<rparr>)]"] by simp

end
