(* ===== verification/Telemetry.thy ===== *)
theory Telemetry
  imports Server
begin

text \<open>
  What operators see: the JSON log line (\<open>src/logging.rs\<close>), the GPU heartbeat (\<open>src/gpu_stats.rs\<close>) and the
  inspection of the engine cache (\<open>embedder/trt_cache/inspect.rs\<close>, \<open>prewarm_log.rs\<close>, \<open>fsync.rs\<close>). The inner
  formatter, NVML and the file system are arguments.
\<close>

section \<open>Log lines\<close>

definition BGE_MODULE :: string where "BGE_MODULE = ''server''"

definition BUILD_VARIANT :: "bool \<Rightarrow> string" where
  "BUILD_VARIANT gpu_feature = (if gpu_feature then ''cuda'' else ''cpu'')"

definition nl :: char where "nl = CHR 0x0A"

definition quoted :: "string \<Rightarrow> string" where
  "quoted s = CHR 0x22 # s @ [CHR 0x22]"

text \<open>Both wrappers rewrite the opening brace of what the inner formatter rendered; they differ in the key.\<close>

definition prepend_key :: "string \<Rightarrow> string \<Rightarrow> string \<Rightarrow> string" where
  "prepend_key key val buf =
     (let trailing_newline = (buf \<noteq> [] \<and> last buf = nl);
          body = (if trailing_newline then butlast buf else buf);
          out = (if body \<noteq> [] \<and> hd body = CHR ''{''
                 then let rest = tl body
                      in if rest \<noteq> [] \<and> hd rest = CHR ''}'' then ''{'' @ quoted key @ '':'' @ quoted val @ ''}'' @ tl rest
                         else ''{'' @ quoted key @ '':'' @ quoted val @ '','' @ rest
                 else body)
      in out @ (if trailing_newline then [nl] else []))"

definition prepend_build :: "bool \<Rightarrow> string \<Rightarrow> string" where
  "prepend_build gpu_feature buf = prepend_key ''build'' (BUILD_VARIANT gpu_feature) buf"

definition prepend_module :: "string \<Rightarrow> string" where
  "prepend_module buf = prepend_key ''bge_module'' BGE_MODULE buf"

definition want_json :: "string option \<Rightarrow> bool \<Rightarrow> bool" where
  "want_json log_format is_terminal =
     (if log_format = Some ''text'' \<or> log_format = Some ''pretty'' then False
      else if log_format = Some ''json'' then True else \<not> is_terminal)"

definition render_event :: "string option \<Rightarrow> bool \<Rightarrow> bool \<Rightarrow> string \<Rightarrow> string" where
  "render_event log_format is_terminal gpu_feature inner =
     (if want_json log_format is_terminal then prepend_module (prepend_build gpu_feature inner) else inner)"

section \<open>The GPU heartbeat\<close>

record gpu_reading =
  gr_used :: nat
  gr_total :: nat
  gr_utilization :: nat
  gr_temp_c :: nat

record gpu_event =
  ge_device :: nat
  ge_vram_used_mb :: nat
  ge_vram_total_mb :: nat
  ge_vram_utilization_pct :: fl
  ge_utilization_pct :: nat
  ge_temp_c :: nat
  ge_temp_f :: nat

definition nat_to_f32 :: "nat \<Rightarrow> fl" where "nat_to_f32 n = r32 (of_nat n)"

definition vram_utilization_pct :: "nat \<Rightarrow> nat \<Rightarrow> fl" where
  "vram_utilization_pct used vram_total =
     (if 0 < vram_total then fl_mul r32 (fl_div r32 (nat_to_f32 used) (nat_to_f32 vram_total)) (Fin 100) else Fin 0)"

definition heartbeat_event :: "nat \<Rightarrow> gpu_reading \<Rightarrow> gpu_event" where
  "heartbeat_event d r =
     \<lparr>ge_device = d, ge_vram_used_mb = gr_used r div (1024 * 1024), ge_vram_total_mb = gr_total r div (1024 * 1024),
      ge_vram_utilization_pct = vram_utilization_pct (gr_used r) (gr_total r), ge_utilization_pct = gr_utilization r,
      ge_temp_c = gr_temp_c r, ge_temp_f = gr_temp_c r * 9 div 5 + 32\<rparr>"

text \<open>The collector holds NVML only when the build has it and it could be initialised; every failure disables it for good.\<close>

definition gpu_stats_init :: "bool \<Rightarrow> (string, nat \<Rightarrow> gpu_reading option) result \<Rightarrow> (nat \<Rightarrow> gpu_reading option) option" where
  "gpu_stats_init nvml_feature nvml =
     (if nvml_feature then (case nvml of Inr device \<Rightarrow> Some device | Inl e \<Rightarrow> None) else None)"

text \<open>
  \<open>None\<close>: NVML is unavailable. A device whose readings cannot be had is skipped. The device index is cut to 32 bits.
\<close>

definition emit_heartbeat :: "(nat \<Rightarrow> gpu_reading option) option \<Rightarrow> nat \<Rightarrow> gpu_event list" where
  "emit_heartbeat nvml gpu_count =
     (case nvml of
        None \<Rightarrow> []
      | Some device \<Rightarrow>
          List.map_filter (\<lambda>i. map_option (heartbeat_event (i mod 2 ^ 32)) (device (i mod 2 ^ 32))) [0..<gpu_count])"

section \<open>Abandoned requests and the build's revision\<close>

text \<open>The warning for a request whose client left during inference: the sizes only when the inference succeeded.\<close>

record abandoned_line =
  al_worker_id :: nat
  al_route :: string
  al_inference_ms_so_far :: nat
  al_sizes :: "(nat \<times> nat \<times> nat) option"

definition log_if_abandoned_mid_flight ::
  "bool \<Rightarrow> string \<Rightarrow> nat \<Rightarrow> ('e, 'a \<times> embed_stats) result \<Rightarrow> nat \<Rightarrow> abandoned_line option" where
  "log_if_abandoned_mid_flight reply_closed route worker_id res inference_ms =
     (if \<not> reply_closed then None
      else Some \<lparr>al_worker_id = worker_id, al_route = route, al_inference_ms_so_far = min inference_ms (2 ^ 64 - 1),
        al_sizes = (case res of
            Inr (_, stats) \<Rightarrow> Some (st_chunks stats, st_max_chunk_seq stats, st_total_token_positions stats)
          | Inl _ \<Rightarrow> None)\<rparr>)"

text \<open>The revision baked in by the build script; \<open>git\<close> is what the command printed, \<open>None\<close> when it could not run or was not UTF-8.\<close>

definition git_sha :: "string option \<Rightarrow> string" where
  "git_sha git = (case map_option trim git of Some s \<Rightarrow> if s = [] then ''unknown'' else s | None \<Rightarrow> ''unknown'')"

section \<open>Inspection of the engine cache\<close>

definition PROBE_NAME :: string where "PROBE_NAME = ''.write_probe''"

definition PROBE_DATA :: string where "PROBE_DATA = ''trt-probe''"

text \<open>
  What the file system does with the calls of the write probe: whether removal works, and for creation, writing, opening and reading
  whether they work; \<open>wp_read_back\<close> is what the read returns of the bytes written.
\<close>

record probe_io =
  wp_remove_stale :: bool
  wp_create :: bool
  wp_write :: bool
  wp_open :: bool
  wp_read_back :: "string option"
  wp_unlink :: bool

datatype probe_phase = Phase_Create | Phase_Write | Phase_Read | Phase_Mismatch | Phase_Unlink

type_synonym files = "string \<rightharpoonup> string"

definition remove_probe :: "bool \<Rightarrow> files \<Rightarrow> files" where
  "remove_probe works fs = (if works then fs(PROBE_NAME := None) else fs)"

text \<open>The phase that failed, if any, whether success was reported, and the files afterwards.\<close>

definition run_write_probe :: "probe_io \<Rightarrow> files \<Rightarrow> probe_phase option \<times> bool \<times> files" where
  "run_write_probe io fs =
     (let fs0 = remove_probe (wp_remove_stale io) fs
      in if \<not> wp_create io \<or> fs0 PROBE_NAME \<noteq> None then (Some Phase_Create, False, fs0)
         else if \<not> wp_write io then (Some Phase_Write, False, remove_probe (wp_unlink io) (fs0(PROBE_NAME \<mapsto> [])))
         else let fs1 = fs0(PROBE_NAME \<mapsto> PROBE_DATA)
              in if \<not> wp_open io then (Some Phase_Read, False, remove_probe (wp_unlink io) fs1)
                 else case wp_read_back io of
                        None \<Rightarrow> (Some Phase_Read, False, remove_probe (wp_unlink io) fs1)
                      | Some buf \<Rightarrow>
                          if buf \<noteq> PROBE_DATA then (Some Phase_Mismatch, False, remove_probe (wp_unlink io) fs1)
                          else if \<not> wp_unlink io then (Some Phase_Unlink, True, fs1)
                          else (None, True, remove_probe True fs1))"

record trt_cache_info =
  ci_path :: string
  ci_engine_count :: nat
  ci_profile_count :: nat

text \<open>\<open>listing\<close> is what \<open>read_dir\<close> returns for the files of the directory.\<close>

definition ensure_and_inspect ::
  "bool \<Rightarrow> probe_io \<Rightarrow> (files \<Rightarrow> directory) \<Rightarrow> string \<Rightarrow> files \<Rightarrow> trt_cache_info \<times> files" where
  "ensure_and_inspect create_ok io listing cache_dir fs =
     (if \<not> create_ok then (\<lparr>ci_path = engine_cache_path cache_dir, ci_engine_count = 0, ci_profile_count = 0\<rparr>, fs)
      else case run_write_probe io fs of (_, _, fs') \<Rightarrow>
             (case count_cache_entries (listing fs') of (engines, profiles) \<Rightarrow>
                (\<lparr>ci_path = engine_cache_path cache_dir, ci_engine_count = engines, ci_profile_count = profiles\<rparr>, fs')))"

definition MAX_LIST :: nat where "MAX_LIST = 64"

record basename_log =
  bl_count :: nat
  bl_total_count :: nat
  bl_truncated :: bool
  bl_listed :: "string list"

text \<open>\<open>None\<close>: the directory could not be read.\<close>

definition log_engine_basenames_before_prewarm_for_sm :: "directory \<Rightarrow> string option \<Rightarrow> basename_log option" where
  "log_engine_basenames_before_prewarm_for_sm dir sm =
     (case engine_basenames_for_sm dir sm of
        None \<Rightarrow> None
      | Some basenames \<Rightarrow>
          let matching_total = length basenames
          in Some \<lparr>bl_count = matching_total,
                bl_total_count = (if sm \<noteq> None
                   then (case engine_basenames_for_sm dir None of Some v \<Rightarrow> length v | None \<Rightarrow> matching_total)
                   else matching_total),
                bl_truncated = (MAX_LIST < matching_total),
                bl_listed = (if MAX_LIST < matching_total then take MAX_LIST basenames else basenames)\<rparr>)"

text \<open>How many regular files were flushed, given which flushes work.\<close>

definition fsync_cache_dir :: "(string \<Rightarrow> bool) \<Rightarrow> directory \<Rightarrow> nat" where
  "fsync_cache_dir sync_ok dir =
     (case dir of
        None \<Rightarrow> 0
      | Some es \<Rightarrow> length (filter (\<lambda>e. de_is_file e \<and> sync_ok (de_name e)) es))"

section \<open>Facts\<close>

text \<open>A JSON object as the inner formatter renders it, member by member.\<close>

definition render_object :: "string list \<Rightarrow> string" where
  "render_object members = ''{'' @ join (CHR '','') members @ ''}''"

definition member :: "string \<Rightarrow> string \<Rightarrow> string" where
  "member key val = quoted key @ '':'' @ quoted val"

lemma join_hd: "ms \<noteq> [] \<Longrightarrow> hd ms \<noteq> [] \<Longrightarrow> join c ms \<noteq> [] \<and> hd (join c ms) = hd (hd ms)"
  by (cases "(c, ms)" rule: join.cases) auto

lemma prepend_key_object:
  assumes "list_all (\<lambda>m. m \<noteq> [] \<and> hd m \<noteq> CHR ''}'') members"
  shows "prepend_key key val (render_object members @ (if b then [nl] else [])) =
    render_object (member key val # members) @ (if b then [nl] else [])"
proof (cases members)
  case Nil
  then show ?thesis
    by (simp add: prepend_key_def render_object_def member_def nl_def Let_def quoted_def split: if_splits)
next
  case (Cons m ms)
  then obtain c r where j: "join (CHR '','') members = c # r" "c \<noteq> CHR ''}''"
    using join_hd [of members "CHR '',''"] assms by (cases "join (CHR '','') members") auto
  have "join (CHR '','') (member key val # members) = member key val @ CHR '','' # join (CHR '','') members"
    using Cons by simp
  then show ?thesis
    using j by (simp add: prepend_key_def render_object_def member_def nl_def Let_def butlast_append)
qed

lemma member_ok: "member k v \<noteq> [] \<and> hd (member k v) \<noteq> CHR ''}''"
  by (simp add: member_def quoted_def)

section \<open>Properties\<close>

text \<open>
  Every JSON log line starts with the two tags: an object rendered by the inner formatter comes out as the object
  with \<open>bge_module\<close> and \<open>build\<close> as its first two members, its own members and its newline untouched.
\<close>

theorem json_line_tagged:
  assumes "want_json fmt tty" and "list_all (\<lambda>m. m \<noteq> [] \<and> hd m \<noteq> CHR ''}'') members"
  shows "render_event fmt tty gpu (render_object members @ [nl]) =
    render_object (member ''bge_module'' ''server'' # member ''build'' (BUILD_VARIANT gpu) # members) @ [nl]"
  using assms prepend_key_object [of members "''build''" "BUILD_VARIANT gpu" True]
    prepend_key_object [of "member ''build'' (BUILD_VARIANT gpu) # members" "''bge_module''" "''server''" True]
  by (simp add: render_event_def prepend_module_def prepend_build_def BGE_MODULE_def member_ok)

text \<open>The reported share of video memory is a percentage, whatever \<open>f32\<close> rounding does.\<close>

theorem vram_utilization_pct_range:
  assumes "used \<le> vram_total" and "vram_total \<le> usize_max"
  shows "fl_le (Fin 0) (vram_utilization_pct used vram_total) \<and> fl_le (vram_utilization_pct used vram_total) (Fin 100)"
proof (cases "vram_total = 0")
  case False
  have one: "r32 1 = Fin 1" and h: "r32 100 = Fin 100" using f32.rnd_int_exact [of 1] f32.rnd_int_exact [of 100] by simp_all
  have t1: "fl_le (Fin 1) (r32 (of_nat vram_total))" using f32.rnd_mono [of 1 "of_nat vram_total"] False one by simp
  have u0: "fl_le (Fin 0) (r32 (of_nat used))" by (rule f32.rnd_nonneg) simp
  have ut: "fl_le (r32 (of_nat used)) (r32 (of_nat vram_total))" using assms(1) by (intro f32.rnd_mono) simp
  have "rat_round 24 (- 149) (of_int 1 * pow2 64) = of_int 1 * pow2 64" by (rule rat_round_exact) auto
  moreover have "pow2 64 < pow2 128" by (simp only: pow2_less_iff)
  ultimately have g: "r32 (pow2 64) = Fin (pow2 64)" by (simp add: r32_def fl_round_def Let_def not_le)
  have "vram_total \<le> 2 ^ 64" using assms(2) by (simp add: usize_max_def)
  then have "(of_nat vram_total :: rat) \<le> of_nat (2 ^ 64)" by (simp only: of_nat_le_iff)
  then have "fl_le (r32 (of_nat vram_total)) (Fin (pow2 64))"
    using f32.rnd_mono [of "of_nat vram_total" "pow2 64"] g by (simp add: pow2_def)
  then have fin: "r32 (of_nat vram_total) \<noteq> Inf False" by auto
  obtain t u where t: "r32 (of_nat vram_total) = Fin t" "1 \<le> t" and u: "r32 (of_nat used) = Fin u" "0 \<le> u" "u \<le> t"
    using t1 u0 ut fin by (cases "r32 (of_nat vram_total)"; cases "r32 (of_nat used)") auto
  have q: "0 \<le> u / t" "u / t \<le> 1" using t u by (auto simp: divide_le_eq_1)
  have d: "fl_le (Fin 0) (r32 (u / t))" "fl_le (r32 (u / t)) (Fin 1)"
    using f32.rnd_nonneg [OF q(1)] f32.rnd_mono [OF q(2)] one by simp_all
  then obtain p where p: "r32 (u / t) = Fin p" "0 \<le> p" "p \<le> 1" by (cases "r32 (u / t)") auto
  have "fl_le (Fin 0) (r32 (p * 100))" "fl_le (r32 (p * 100)) (r32 100)"
    using p by (auto intro: f32.rnd_nonneg f32.rnd_mono)
  then show ?thesis
    using False t u p h by (simp add: vram_utilization_pct_def nat_to_f32_def)
qed (simp add: vram_utilization_pct_def)

text \<open>
  The write probe touches no other file, and when it reports no error it has succeeded and its own file is
  gone again; should the file stay behind, it is never counted as an engine plan.
\<close>

theorem write_probe_leaves_cache:
  assumes "run_write_probe io fs = (err, ok, fs')"
  shows "(\<forall>name. name \<noteq> PROBE_NAME \<longrightarrow> fs' name = fs name) \<and> (err = None \<longrightarrow> ok \<and> fs' PROBE_NAME = None)"
  using assms
  by (auto simp: run_write_probe_def remove_probe_def Let_def split: if_splits option.splits)

theorem write_probe_not_counted: "de_name e = PROBE_NAME \<Longrightarrow> \<not> engine_entry sm e"
  by (cases sm) (auto simp: engine_entry_def PROBE_NAME_def matches_sm_suffix_def str_ends_with_def suffix_def)

end
