(* ===== verification/Request_Flow.thy ===== *)
theory Request_Flow
  imports Pool "HOL-Library.Multiset"
begin

text \<open>
  The path of a request through the pool: the bounded channel of \<open>src/embedder/pool.rs\<close>, from which the workers of
  \<open>src/embedder/worker/run.rs\<close> take turns to receive. Callers queue up in \<open>send\<close> while the channel is full, a worker holds the
  request it has received while it computes, clients may give up at any time, and the channel closes when
  its last receiver is dropped. The channels are those of the \<open>tokio\<close> runtime: the shared one is first in, first out and bounded, a send
  fails when no receiver is left, and a reply to a client that has gone is lost.

  Receiving a request and answering it are separate steps, so several workers compute at once. Erasing the
  requests from a run leaves a run of the pool of theory Pool; the bookkeeping theorems are proved in a
  locale over what a pass of a worker owes a request, and interpreted on the worker loop.
\<close>

section \<open>State\<close>

text \<open>
  The channel, what each busy worker has received, and the history: requests in the order of the calls, of
  their entry into the channel and of their receipt; what the workers sent; and the calls
  that ended otherwise (\<open>refused\<close>: \<open>send\<close> failed, \<open>dropped\<close>: the reply sender was dropped unanswered, \<open>cancelled\<close>: given
  up inside \<open>send\<close>). \<open>rf_left\<close> are the clients that no longer wait for a reply.
\<close>

record 'w flow =
  rf_pool :: "'w pool"
  rf_senders :: bool
  rf_receiver :: bool
  rf_sending :: "embed_request list"
  rf_queue :: "embed_request list"
  rf_busy :: "(nat \<times> embed_request) list"
  rf_submitted :: "embed_request list"
  rf_accepted :: "nat list"
  rf_received :: "nat list"
  rf_finished :: "nat list"
  rf_effects :: "effect list"
  rf_refused :: "nat list"
  rf_dropped :: "nat list"
  rf_cancelled :: "nat list"
  rf_left :: "nat set"

definition req_id :: "embed_request \<Rightarrow> nat" where
  "req_id r = tx_id (request_tx r)"

fun close_tx :: "embed_request \<Rightarrow> embed_request" where
  "close_tx (Dense_Req texts tx) = Dense_Req texts (tx\<lparr>tx_closed := True\<rparr>)"
| "close_tx (Sparse_Req texts tx) = Sparse_Req texts (tx\<lparr>tx_closed := True\<rparr>)"
| "close_tx (Both_Req texts tx) = Both_Req texts (tx\<lparr>tx_closed := True\<rparr>)"
| "close_tx (Probe_Req texts tx) = Probe_Req texts (tx\<lparr>tx_closed := True\<rparr>)"
| "close_tx (AdaptiveWarmup_Req batch seq tx) = AdaptiveWarmup_Req batch seq (tx\<lparr>tx_closed := True\<rparr>)"

definition flow_start :: "nat \<Rightarrow> cost_model \<Rightarrow> 'w \<Rightarrow> 'w flow" where
  "flow_start n cm w =
     \<lparr>rf_pool = pool_start n cm w, rf_senders = True, rf_receiver = True, rf_sending = [], rf_queue = [], rf_busy = [],
      rf_submitted = [], rf_accepted = [], rf_received = [], rf_finished = [], rf_effects = [], rf_refused = [],
      rf_dropped = [], rf_cancelled = [], rf_left = {}\<rparr>"

section \<open>Steps\<close>

text \<open>Start-up and retuning, which touch no request.\<close>

inductive boot_step ::
  "(nat \<Rightarrow> 'w shared \<Rightarrow> startup_outcome \<times> 'w shared) \<Rightarrow> 'w pool \<Rightarrow> 'w pool \<Rightarrow> bool"
  for start where
  boot_spawn: "i < length (pl_phases p) \<Longrightarrow> pl_phases p ! i = Unspawned \<Longrightarrow>
    \<forall>j<i. pl_phases p ! j \<noteq> Unspawned \<and> pl_phases p ! j \<noteq> Starting \<Longrightarrow> pl_pending p = 0 \<Longrightarrow> pl_init_ok p \<Longrightarrow>
    boot_step start p (p\<lparr>pl_phases := (pl_phases p)[i := Starting]\<rparr>)"
| boot_ready: "i < length (pl_phases p) \<Longrightarrow> pl_phases p ! i = Starting \<Longrightarrow> start i (pl_shared p) = (Startup_Ready d, s') \<Longrightarrow>
    boot_step start p
      (p\<lparr>pl_phases := (pl_phases p)[i := Serving fresh_worker], pl_pending := pl_pending p + 1, pl_shared := s'\<rparr>)"
| boot_failed: "i < length (pl_phases p) \<Longrightarrow> pl_phases p ! i = Starting \<Longrightarrow> start i (pl_shared p) = (Startup_Failed e b, s') \<Longrightarrow>
    boot_step start p
      (p\<lparr>pl_phases := (pl_phases p)[i := Exited False], pl_init_ok := False, pl_shared := guard_drop s'\<rparr>)"
| boot_counted: "pl_pending p = Suc k \<Longrightarrow>
    boot_step start p (p\<lparr>pl_pending := k, pl_shared := (pl_shared p)\<lparr>sh_loaded := sh_loaded (pl_shared p) + 1\<rparr>\<rparr>)"
| boot_retune: "boot_step start p (p\<lparr>pl_shared := (pl_shared p)\<lparr>sh_cost_model := cm\<rparr>\<rparr>)"

text \<open>The worker \<open>i\<close> after a pass of its loop.\<close>

definition after_worker :: "nat \<Rightarrow> control \<Rightarrow> worker \<Rightarrow> 'w shared \<Rightarrow> 'w pool \<Rightarrow> 'w pool" where
  "after_worker i ctl wk s p = p\<lparr>pl_phases := (pl_phases p)[i := after_pass ctl wk], pl_shared := s\<rparr>"

text \<open>A reply sent to a client that has gone is lost: \<open>send\<close> fails and the worker ignores it.\<close>

definition delivered :: "embed_request \<Rightarrow> effect list \<Rightarrow> effect list" where
  "delivered r effs =
     (if tx_closed (request_tx r) then filter (\<lambda>e. case e of Reply _ _ \<Rightarrow> False | _ \<Rightarrow> True) effs else effs)"

text \<open>
  The steps that move requests towards an answer: a caller's \<open>send\<close> completes in the order of the calls once the channel
  has room, a worker that waits in \<open>recv\<close> takes the oldest request, a busy worker ends its pass. A client that left while the
  worker was busy left either before the worker looked at the reply channel, and the pass ran on the closed
  request, or after it, and the pass ran on the open one (\<open>r'\<close>).
\<close>

inductive work_step ::
  "(nat \<Rightarrow> notice list \<Rightarrow> message \<Rightarrow> worker \<Rightarrow> 'w shared \<Rightarrow> effect list \<times> control \<times> worker \<times> 'w shared) \<Rightarrow> nat \<Rightarrow>
   nat \<Rightarrow> 'w flow \<Rightarrow> 'w flow \<Rightarrow> bool"
  for pass cap i where
  enter: "rf_receiver f \<Longrightarrow> rf_sending f = r # rs \<Longrightarrow> length (rf_queue f) < cap \<Longrightarrow>
    work_step pass cap i f
      (f\<lparr>rf_sending := rs, rf_queue := rf_queue f @ [r], rf_accepted := rf_accepted f @ [req_id r]\<rparr>)"
| receive: "i < length (pl_phases (rf_pool f)) \<Longrightarrow> pl_phases (rf_pool f) ! i = Serving wk \<Longrightarrow> i \<notin> fst ` set (rf_busy f) \<Longrightarrow>
    rf_queue f = r # rs \<Longrightarrow>
    work_step pass cap i f
      (f\<lparr>rf_queue := rs, rf_busy := (i, r) # rf_busy f, rf_received := rf_received f @ [req_id r]\<rparr>)"
| finish: "(i, r) \<in> set (rf_busy f) \<Longrightarrow> i < length (pl_phases (rf_pool f)) \<Longrightarrow> pl_phases (rf_pool f) ! i = Serving wk \<Longrightarrow>
    pass i ns (Request r') wk (pl_shared (rf_pool f)) = (effs, ctl, wk', s') \<Longrightarrow> ctl \<noteq> Abort \<Longrightarrow> r = r' \<or> r = close_tx r' \<Longrightarrow>
    work_step pass cap i f
      (f\<lparr>rf_pool := after_worker i ctl wk' s' (rf_pool f), rf_busy := remove1 (i, r) (rf_busy f),
         rf_finished := rf_finished f @ [req_id r], rf_effects := rf_effects f @ delivered r effs\<rparr>)"

text \<open>Every worker has returned and the init task is over: the last \<open>Arc\<close> of the receiver is gone.\<close>

definition receivers_gone :: "'w pool \<Rightarrow> bool" where
  "receivers_gone p \<longleftrightarrow>
     (\<forall>ph\<in>set (pl_phases p). has_exited ph \<or> (ph = Unspawned \<and> \<not> pl_init_ok p)) \<and> (pl_init_ok p \<longrightarrow> pl_pending p = 0)"

inductive flow_step ::
  "(nat \<Rightarrow> notice list \<Rightarrow> message \<Rightarrow> worker \<Rightarrow> 'w shared \<Rightarrow> effect list \<times> control \<times> worker \<times> 'w shared) \<Rightarrow>
   (nat \<Rightarrow> 'w shared \<Rightarrow> startup_outcome \<times> 'w shared) \<Rightarrow> (nat \<Rightarrow> worker_config) \<Rightarrow> nat \<Rightarrow> 'w flow \<Rightarrow> 'w flow \<Rightarrow> bool"
  for pass start cfg cap where
  submit: "rf_senders f \<Longrightarrow> rf_receiver f \<Longrightarrow> req_id r \<notin> req_id ` set (rf_submitted f) \<Longrightarrow> \<not> tx_closed (request_tx r) \<Longrightarrow>
    flow_step pass start cfg cap f (f\<lparr>rf_submitted := rf_submitted f @ [r], rf_sending := rf_sending f @ [r]\<rparr>)"
| refuse: "rf_senders f \<Longrightarrow> \<not> rf_receiver f \<Longrightarrow> req_id r \<notin> req_id ` set (rf_submitted f) \<Longrightarrow> \<not> tx_closed (request_tx r) \<Longrightarrow>
    flow_step pass start cfg cap f (f\<lparr>rf_submitted := rf_submitted f @ [r], rf_refused := rf_refused f @ [req_id r]\<rparr>)"
| work: "work_step pass cap i f f' \<Longrightarrow> flow_step pass start cfg cap f f'"
| boot: "boot_step start (rf_pool f) p \<Longrightarrow> flow_step pass start cfg cap f (f\<lparr>rf_pool := p\<rparr>)"
| idle: "i < length (pl_phases (rf_pool f)) \<Longrightarrow> pl_phases (rf_pool f) ! i = Serving wk \<Longrightarrow> i \<notin> fst ` set (rf_busy f) \<Longrightarrow>
    may_elapse (cfg i) wk \<Longrightarrow> pass i ns Elapsed wk (pl_shared (rf_pool f)) = (effs, ctl, wk', s') \<Longrightarrow> ctl \<noteq> Abort \<Longrightarrow>
    flow_step pass start cfg cap f
      (f\<lparr>rf_pool := after_worker i ctl wk' s' (rf_pool f), rf_effects := rf_effects f @ effs\<rparr>)"
| hang_up: "i < length (pl_phases (rf_pool f)) \<Longrightarrow> pl_phases (rf_pool f) ! i = Serving wk \<Longrightarrow> i \<notin> fst ` set (rf_busy f) \<Longrightarrow>
    \<not> rf_senders f \<Longrightarrow> rf_queue f = [] \<Longrightarrow>
    pass i ns Channel_Closed wk (pl_shared (rf_pool f)) = (effs, ctl, wk', s') \<Longrightarrow> ctl \<noteq> Abort \<Longrightarrow>
    flow_step pass start cfg cap f
      (f\<lparr>rf_pool := after_worker i ctl wk' s' (rf_pool f), rf_effects := rf_effects f @ effs\<rparr>)"
| drop_senders: "rf_sending f = [] \<Longrightarrow> flow_step pass start cfg cap f (f\<lparr>rf_senders := False\<rparr>)"
| drop_receiver: "rf_receiver f \<Longrightarrow> receivers_gone (rf_pool f) \<Longrightarrow>
    flow_step pass start cfg cap f
      (f\<lparr>rf_receiver := False, rf_sending := [], rf_queue := [],
         rf_refused := rf_refused f @ map req_id (rf_sending f), rf_dropped := map req_id (rf_queue f)\<rparr>)"
| cancel: "r \<in> set (rf_sending f) \<Longrightarrow>
    flow_step pass start cfg cap f
      (f\<lparr>rf_sending := remove1 r (rf_sending f), rf_cancelled := rf_cancelled f @ [req_id r],
         rf_left := insert (req_id r) (rf_left f)\<rparr>)"
| leave_queued: "k < length (rf_queue f) \<Longrightarrow>
    flow_step pass start cfg cap f
      (f\<lparr>rf_queue := (rf_queue f)[k := close_tx (rf_queue f ! k)], rf_left := insert (req_id (rf_queue f ! k)) (rf_left f)\<rparr>)"
| leave_busy: "k < length (rf_busy f) \<Longrightarrow> rf_busy f ! k = (i, r) \<Longrightarrow>
    flow_step pass start cfg cap f
      (f\<lparr>rf_busy := (rf_busy f)[k := (i, close_tx r)], rf_left := insert (req_id r) (rf_left f)\<rparr>)"

inductive flow_reachable ::
  "(nat \<Rightarrow> notice list \<Rightarrow> message \<Rightarrow> worker \<Rightarrow> 'w shared \<Rightarrow> effect list \<times> control \<times> worker \<times> 'w shared) \<Rightarrow>
   (nat \<Rightarrow> 'w shared \<Rightarrow> startup_outcome \<times> 'w shared) \<Rightarrow> (nat \<Rightarrow> worker_config) \<Rightarrow> nat \<Rightarrow> 'w flow \<Rightarrow> 'w flow \<Rightarrow> bool"
  for pass start cfg cap f0 where
  flow_init: "flow_reachable pass start cfg cap f0 f0"
| flow_more: "flow_reachable pass start cfg cap f0 f \<Longrightarrow> flow_step pass start cfg cap f f' \<Longrightarrow>
    flow_reachable pass start cfg cap f0 f'"

text \<open>The pool of the server with its channel of four slots per worker.\<close>

definition server_flow_reachable ::
  "(nat \<Rightarrow> 'w worker_env) \<Rightarrow> worker_config \<Rightarrow> nat \<Rightarrow> cost_model \<Rightarrow> 'w \<Rightarrow> 'w flow \<Rightarrow> bool" where
  "server_flow_reachable env config n cm w f \<longleftrightarrow>
     flow_reachable (server_pass env config n) (server_start env config n) (make_worker_config config n) (queue_capacity n)
       (flow_start n cm w) f"

text \<open>What the awaiting call of pool.rs returns: \<open>None\<close> while it waits.\<close>

fun reply_for :: "nat \<Rightarrow> effect list \<Rightarrow> reply option" where
  "reply_for n [] = None"
| "reply_for n (Reply i r # es) = (if i = n then Some r else reply_for n es)"
| "reply_for n (_ # es) = reply_for n es"

definition call_result :: "'w flow \<Rightarrow> nat \<Rightarrow> (string, reply) result option" where
  "call_result f n =
     (case reply_for n (rf_effects f) of
        Some r \<Rightarrow> Some (Inr r)
      | None \<Rightarrow>
          if n \<in> set (rf_refused f) then Some (Inl ''EmbedPool channel closed'')
          else if n \<in> set (rf_dropped f) \<or> n \<in> set (rf_finished f) then Some (Inl ''Worker dropped reply sender'')
          else None)"

section \<open>Facts\<close>

lemma request_tx_close_tx [simp]: "request_tx (close_tx r) = (request_tx r)\<lparr>tx_closed := True\<rparr>"
  by (cases r) auto

lemma req_id_close_tx [simp]: "req_id (close_tx r) = req_id r"
  by (simp add: req_id_def)

lemma close_tx_close_tx [simp]: "close_tx (close_tx r) = close_tx r"
  by (cases r) auto

lemma delivered_ids:
  "reply_ids (delivered r effs) = (if tx_closed (request_tx r) then [] else reply_ids effs)"
proof -
  have "reply_ids (filter (\<lambda>e. case e of Reply _ _ \<Rightarrow> False | _ \<Rightarrow> True) effs) = []"
    by (induction effs) (auto split: effect.split)
  then show ?thesis by (simp add: delivered_def)
qed

lemma delivered_open [simp]: "\<not> tx_closed (request_tx r) \<Longrightarrow> delivered r effs = effs"
  by (simp add: delivered_def)

lemma delivered_subset: "set (delivered r effs) \<subseteq> set effs"
  by (auto simp: delivered_def)

lemma after_worker_simps [simp]:
  "pl_phases (after_worker i ctl wk s p) = (pl_phases p)[i := after_pass ctl wk]"
  "pl_pending (after_worker i ctl wk s p) = pl_pending p" "pl_init_ok (after_worker i ctl wk s p) = pl_init_ok p"
  "pl_shared (after_worker i ctl wk s p) = s"
  by (simp_all add: after_worker_def)

lemma map_close_update [simp]:
  "map req_id (q[k := close_tx (q ! k)]) = map req_id q"
  by (cases "k < length q") (auto intro!: nth_equalityI simp: nth_list_update)

text \<open>A request is in the channel of the flow as it was submitted, or with its client gone.\<close>

definition known :: "'w flow \<Rightarrow> embed_request \<Rightarrow> bool" where
  "known f r \<longleftrightarrow> (\<exists>r0\<in>set (rf_submitted f). r = r0 \<or> r = close_tx r0)"

lemma known_update [simp]:
  "known (f\<lparr>rf_queue := q, rf_left := l\<rparr>) = known f" "known (f\<lparr>rf_busy := b, rf_left := l\<rparr>) = known f"
  by (simp_all add: known_def fun_eq_iff)

lemma known_close: "known f r \<Longrightarrow> known f (close_tx r)"
  by (auto simp: known_def)

section \<open>Invariants\<close>

text \<open>Every submitted request is in exactly one place, and the channel is first in, first out.\<close>

definition places_inv :: "nat \<Rightarrow> 'w flow \<Rightarrow> bool" where
  "places_inv cap f \<longleftrightarrow>
     distinct (map req_id (rf_submitted f)) \<and>
     mset (map req_id (rf_submitted f)) =
       mset (map req_id (rf_sending f)) + mset (rf_accepted f) + mset (rf_refused f) + mset (rf_cancelled f) \<and>
     rf_accepted f = rf_received f @ map req_id (rf_queue f) @ rf_dropped f \<and>
     mset (rf_received f) = mset (map (req_id \<circ> snd) (rf_busy f)) + mset (rf_finished f) \<and>
     (rf_receiver f \<longrightarrow> rf_dropped f = []) \<and>
     (\<not> rf_receiver f \<longrightarrow> rf_sending f = [] \<and> rf_queue f = [] \<and> receivers_gone (rf_pool f)) \<and>
     length (rf_queue f) \<le> cap"

text \<open>A busy worker is serving, and has received one request.\<close>

definition busy_inv :: "'w flow \<Rightarrow> bool" where
  "busy_inv f \<longleftrightarrow>
     distinct (map fst (rf_busy f)) \<and>
     (\<forall>i\<in>fst ` set (rf_busy f). i < length (pl_phases (rf_pool f)) \<and> (\<exists>wk. pl_phases (rf_pool f) ! i = Serving wk))"

text \<open>One reply per finished request, unless its client had gone.\<close>

definition replies_inv :: "'w flow \<Rightarrow> bool" where
  "replies_inv f \<longleftrightarrow>
     distinct (reply_ids (rf_effects f)) \<and> set (reply_ids (rf_effects f)) \<subseteq> set (rf_finished f) \<and>
     set (rf_finished f) - set (reply_ids (rf_effects f)) \<subseteq> rf_left f \<and>
     (\<forall>r\<in>set (rf_sending f). known f r \<and> \<not> tx_closed (request_tx r)) \<and>
     (\<forall>r\<in>set (rf_queue f) \<union> snd ` set (rf_busy f). known f r \<and> (tx_closed (request_tx r) \<longrightarrow> req_id r \<in> rf_left f))"

lemma boot_step_pool_step: "boot_step start p p' \<Longrightarrow> pool_step pass start cfg p p'"
  by (induction rule: boot_step.induct) (blast intro: pool_step.intros)+

lemma boot_step_serving:
  assumes "boot_step start p p'" and "i < length (pl_phases p)" and "pl_phases p ! i = Serving wk"
  shows "i < length (pl_phases p') \<and> pl_phases p' ! i = Serving wk"
  using assms by (induction rule: boot_step.induct) (auto simp: nth_list_update)

lemma gone_phase:
  assumes "receivers_gone p" and "i < length (pl_phases p)"
  shows "pl_phases p ! i \<noteq> Serving wk" and "pl_phases p ! i \<noteq> Starting" and "pl_init_ok p \<Longrightarrow> pl_phases p ! i \<noteq> Unspawned"
  using assms by (auto simp: receivers_gone_def dest!: bspec [OF _ nth_mem])

lemma boot_step_gone:
  assumes "boot_step start p p'" and "receivers_gone p"
  shows "receivers_gone p'"
  using assms
proof (induction rule: boot_step.induct)
  case (boot_counted p k)
  then show ?case by (auto simp: receivers_gone_def)
next
  case (boot_retune p cm)
  then show ?case by (simp add: receivers_gone_def)
qed (use gone_phase in blast)+

text \<open>An answered request: the reply is the one its pass sent.\<close>

lemma reply_for_mem: "reply_for n effs = Some rep \<Longrightarrow> Reply n rep \<in> set effs"
  by (induction n effs rule: reply_for.induct) (auto split: if_splits)

lemma reply_for_None_iff: "reply_for n effs = None \<longleftrightarrow> n \<notin> set (reply_ids effs)"
  by (induction n effs rule: reply_for.induct) auto

lemma mset_map_remove1:
  assumes "x \<in> set xs"
  shows "mset (map g xs) = add_mset (g x) (mset (map g (remove1 x xs)))"
  using assms by (induction xs) auto

lemma distinct_remove1_key:
  assumes "distinct (map fst xs)" and "(i, r) \<in> set xs"
  shows "distinct (map fst (remove1 (i, r) xs)) \<and> fst ` set (remove1 (i, r) xs) = fst ` set xs - {i}"
proof -
  have "distinct xs" and inj: "inj_on fst (set xs)" using assms(1) by (auto simp: distinct_map)
  then have "set (remove1 (i, r) xs) = set xs - {(i, r)}" by simp
  then have "fst ` set (remove1 (i, r) xs) = fst ` set xs - {i}"
    using inj assms(2) by (simp add: inj_on_image_set_diff [where C = "set xs"])
  moreover have "distinct (map fst (remove1 (i, r) xs))"
    using \<open>distinct xs\<close> inj by (auto simp: distinct_map intro: inj_on_subset dest: notin_set_remove1 intro!: inj_on_subset [OF inj] set_remove1_subset)
  ultimately show ?thesis by simp
qed

lemma distinct_mset_append:
  assumes "distinct xs" and "mset xs = mset ys + mset zs"
  shows "distinct ys \<and> distinct zs \<and> set ys \<inter> set zs = {}"
proof -
  have "mset xs = mset (ys @ zs)" using assms(2) by simp
  then have "distinct (ys @ zs)" using assms(1) mset_eq_imp_distinct_iff by blast
  then show ?thesis by simp
qed

lemma received_distinct:
  assumes "places_inv cap f"
  shows "distinct (rf_accepted f)" and "distinct (rf_received f)"
proof -
  have "mset (map req_id (rf_submitted f)) = mset (rf_accepted f) +
      mset (map req_id (rf_sending f) @ rf_refused f @ rf_cancelled f)"
    using assms by (simp add: places_inv_def)
  then show "distinct (rf_accepted f)" using assms distinct_mset_append unfolding places_inv_def by blast
  then show "distinct (rf_received f)" using assms by (simp add: places_inv_def)
qed

lemma busy_not_finished:
  assumes "places_inv cap f" and "(i, r) \<in> set (rf_busy f)"
  shows "req_id r \<notin> set (rf_finished f)"
proof -
  have "set (map (req_id \<circ> snd) (rf_busy f)) \<inter> set (rf_finished f) = {}"
    using distinct_mset_append [OF received_distinct(2) [OF assms(1)]] assms(1) unfolding places_inv_def by blast
  then show ?thesis using assms(2) by force
qed

text \<open>The steps of work a request can still take, three before it is in the channel.\<close>

definition remaining :: "'w flow \<Rightarrow> nat" where
  "remaining f = 3 * length (rf_sending f) + 2 * length (rf_queue f) + length (rf_busy f)"

lemma work_decreases: "work_step pass cap i f f' \<Longrightarrow> remaining f' < remaining f"
  by (induction rule: work_step.induct) (auto simp: remaining_def length_remove1 dest: length_pos_if_in_set)

lemma work_run_maximal: "\<exists>k f'. (work_step pass cap i ^^ k) f f' \<and> (\<nexists>f''. work_step pass cap i f' f'')"
proof (induction f rule: measure_induct_rule [of remaining])
  case (less f)
  show ?case
  proof (cases "\<exists>g. work_step pass cap i f g")
    case True
    then obtain g where g: "work_step pass cap i f g" by blast
    obtain k f' where "(work_step pass cap i ^^ k) g f'" "\<nexists>f''. work_step pass cap i f' f''"
      using less [OF work_decreases [OF g]] by blast
    then show ?thesis using relpowp_Suc_I2 [of "work_step pass cap i", OF g] by blast
  next
    case False
    then show ?thesis by (intro exI [of _ 0] exI [of _ f]) simp
  qed
qed

lemma work_run_clients:
  "(work_step pass cap i ^^ k) f f' \<Longrightarrow> rf_submitted f' = rf_submitted f \<and> rf_left f' = rf_left f"
proof (induction k arbitrary: f)
  case (Suc k)
  obtain g where g: "work_step pass cap i f g" "(work_step pass cap i ^^ k) g f'" using Suc.prems by (metis relpowp_Suc_D2)
  from g(1) have "rf_submitted g = rf_submitted f \<and> rf_left g = rf_left f" by cases auto
  then show ?case using Suc.IH [OF g(2)] by simp
qed simp

text \<open>The requests in front of worker \<open>i\<close>: on their way into the channel, in it, or with the worker.\<close>

definition owed :: "nat \<Rightarrow> 'w flow \<Rightarrow> nat set" where
  "owed i f = req_id ` (set (rf_sending f) \<union> set (rf_queue f)) \<union> {req_id r |r. (i, r) \<in> set (rf_busy f)}"

lemma work_keeps_owed:
  assumes "work_step pass cap i f f'"
  shows "owed i f \<union> set (rf_finished f) \<subseteq> owed i f' \<union> set (rf_finished f')"
  using assms
proof cases
  case (finish r wk ns r' effs ctl wk' s')
  have "req_id q \<in> owed i f' \<union> set (rf_finished f')" if "(i, q) \<in> set (rf_busy f)" for q
    using that in_set_remove1 [of "(i, q)" "(i, r)" "rf_busy f"] by (cases "q = r") (auto simp: finish(1) owed_def)
  then show ?thesis by (auto simp: finish(1) owed_def)
qed (auto simp: owed_def)

lemma work_run_keeps_owed:
  "(work_step pass cap i ^^ k) f f' \<Longrightarrow> owed i f \<union> set (rf_finished f) \<subseteq> owed i f' \<union> set (rf_finished f')"
proof (induction k arbitrary: f)
  case (Suc k)
  obtain g where "work_step pass cap i f g" "(work_step pass cap i ^^ k) g f'" using Suc.prems by (metis relpowp_Suc_D2)
  then show ?case using work_keeps_owed Suc.IH by blast
qed simp

lemma reply_in_ids: "Reply j rep \<in> set effs \<Longrightarrow> j \<in> set (reply_ids effs)"
  by (force simp: reply_ids_def)

section \<open>The contract of a pass towards a request\<close>

locale request_workers = pool_workers +
  assumes pass_replies: "pass i ns (Request r) wk s = (effs, ctl, wk', s') \<Longrightarrow> ctl \<noteq> Abort \<Longrightarrow>
      reply_ids effs = [req_id r] \<or> (reply_ids effs = [] \<and> tx_closed (request_tx r))"
    and pass_silent: "pass i ns msg wk s = (effs, ctl, wk', s') \<Longrightarrow> (\<And>r. msg \<noteq> Request r) \<Longrightarrow> reply_ids effs = []"
begin

lemma work_places:
  assumes "work_step pass cap i f f'" and "places_inv cap f"
  shows "places_inv cap f'"
  using assms(1)
proof cases
  case (finish r wk ns r' effs ctl wk' s')
  have "\<not> receivers_gone (rf_pool f)" using gone_phase(1) [OF _ finish(3)] finish(4) by blast
  then show ?thesis using assms(2) finish(1) mset_map_remove1 [OF finish(2), of "req_id \<circ> snd"]
    by (auto simp: places_inv_def)
next
  case (receive wk r rs)
  then show ?thesis using assms(2) by (auto simp: places_inv_def)
next
  case (enter r rs)
  then show ?thesis using assms(2) by (auto simp: places_inv_def)
qed

lemma step_places:
  assumes "flow_step pass start cfg cap f f'" and "places_inv cap f"
  shows "places_inv cap f'"
  using assms(1)
proof cases
  case (work i)
  then show ?thesis using assms(2) by (rule work_places)
next
  case (boot p)
  then show ?thesis using assms(2) boot_step_gone by (auto simp: places_inv_def)
next
  case (idle i wk ns effs ctl wk' s')
  have "\<not> receivers_gone (rf_pool f)" using gone_phase(1) [OF _ idle(2)] idle(3) by blast
  then show ?thesis using assms(2) idle(1) by (auto simp: places_inv_def)
next
  case (hang_up i wk ns effs ctl wk' s')
  have "\<not> receivers_gone (rf_pool f)" using gone_phase(1) [OF _ hang_up(2)] hang_up(3) by blast
  then show ?thesis using assms(2) hang_up(1) by (auto simp: places_inv_def)
next
  case (cancel r)
  then show ?thesis using assms(2) mset_map_remove1 [OF cancel(2), of req_id] by (auto simp: places_inv_def)
next
  case (leave_busy k i r)
  have "map (req_id \<circ> snd) ((rf_busy f)[k := (i, close_tx r)]) = map (req_id \<circ> snd) (rf_busy f)"
    using leave_busy(2,3) by (intro nth_equalityI) (auto simp: nth_list_update)
  then show ?thesis using assms(2) leave_busy(1) by (simp add: places_inv_def)
qed (use assms(2) in \<open>auto simp: places_inv_def\<close>)

lemma step_busy:
  assumes "flow_step pass start cfg cap f f'" and "busy_inv f"
  shows "busy_inv f'"
  using assms(1)
proof cases
  case (work i)
  from work show ?thesis
  proof cases
    case (finish r wk ns r' effs ctl wk' s')
    then show ?thesis
      using assms(2) distinct_remove1_key [of "rf_busy f" i r] by (auto simp: busy_inv_def nth_list_update)
  qed (use assms(2) in \<open>auto simp: busy_inv_def\<close>)
next
  case (boot p)
  then show ?thesis using assms(2) boot_step_serving [OF boot(2)] by (fastforce simp: busy_inv_def)
next
  case (idle i wk ns effs ctl wk' s')
  then show ?thesis using assms(2) by (auto simp: busy_inv_def nth_list_update)
next
  case (hang_up i wk ns effs ctl wk' s')
  then show ?thesis using assms(2) by (auto simp: busy_inv_def nth_list_update)
next
  case (leave_busy k i r)
  have "map fst ((rf_busy f)[k := (i, close_tx r)]) = map fst (rf_busy f)"
    using leave_busy(2,3) by (intro nth_equalityI) (auto simp: nth_list_update)
  moreover from this have "fst ` set ((rf_busy f)[k := (i, close_tx r)]) = fst ` set (rf_busy f)" by (metis set_map)
  ultimately show ?thesis using assms(2) leave_busy(1) by (simp add: busy_inv_def)
qed (use assms(2) in \<open>auto simp: busy_inv_def\<close>)

lemma step_replies:
  assumes "flow_step pass start cfg cap f f'" and "replies_inv f" and "places_inv cap f"
  shows "replies_inv f'"
  using assms(1)
proof cases
  case (work i)
  from work show ?thesis
  proof cases
    case (finish r wk ns r' effs ctl wk' s')
    have "r \<in> snd ` set (rf_busy f)" using finish(2) by force
    then have r: "tx_closed (request_tx r) \<longrightarrow> req_id r \<in> rf_left f"
      using assms(2) by (simp add: replies_inv_def)
    have sub: "snd ` set (remove1 (i, r) (rf_busy f)) \<subseteq> snd ` set (rf_busy f)"
      using set_remove1_subset by (rule image_mono)
    have k: "known f' = known f" by (simp add: finish(1) known_def fun_eq_iff)
    have sent: "reply_ids (delivered r effs) = (if tx_closed (request_tx r) then [] else [req_id r])"
      using pass_replies [OF finish(5,6)] finish(7) by (auto simp: delivered_ids)
    have ids: "distinct (reply_ids (rf_effects f'))" "set (reply_ids (rf_effects f')) \<subseteq> set (rf_finished f')"
        "set (rf_finished f') - set (reply_ids (rf_effects f')) \<subseteq> rf_left f'"
      using sent assms(2) r busy_not_finished [OF assms(3) finish(2)]
      by (auto simp: finish(1) replies_inv_def)
    have "\<forall>r\<in>set (rf_queue f') \<union> snd ` set (rf_busy f'). known f r \<and> (tx_closed (request_tx r) \<longrightarrow> req_id r \<in> rf_left f')"
      using assms(2) sub by (simp add: finish(1) replies_inv_def) blast
    then show ?thesis using ids assms(2) unfolding replies_inv_def k by (simp add: finish(1))
  next
    case (receive wk r rs)
    then show ?thesis using assms(2) by (auto simp: replies_inv_def known_def)
  next
    case (enter r rs)
    then show ?thesis using assms(2) by (auto simp: replies_inv_def known_def)
  qed
next
  case (idle i wk ns effs ctl wk' s')
  then show ?thesis using assms(2) pass_silent [OF idle(6)] by (simp add: replies_inv_def known_def)
next
  case (hang_up i wk ns effs ctl wk' s')
  then show ?thesis using assms(2) pass_silent [OF hang_up(7)] by (simp add: replies_inv_def known_def)
next
  case (cancel r)
  then show ?thesis using assms(2) by (auto simp: replies_inv_def known_def dest: in_set_remove1 notin_set_remove1)
next
  case (leave_queued k)
  have "known f (rf_queue f ! k)" using assms(2) leave_queued(2) by (simp add: replies_inv_def)
  from known_close [OF this] show ?thesis
    using assms(2) leave_queued by (auto simp: replies_inv_def dest!: subsetD [OF set_update_subset_insert])
next
  case (leave_busy k i r)
  have "r \<in> snd ` set (rf_busy f)" using leave_busy(2,3) by (metis nth_mem image_eqI snd_conv)
  then have "known f r" using assms(2) by (simp add: replies_inv_def)
  from known_close [OF this] show ?thesis
    using assms(2) leave_busy by (auto simp: replies_inv_def dest!: subsetD [OF set_update_subset_insert])
qed (use assms(2) in \<open>auto simp: replies_inv_def known_def\<close>)

text \<open>Erasing the requests leaves a run of the pool.\<close>

lemma after_worker_pool_step:
  assumes "i < length (pl_phases p)" and "pl_phases p ! i = Serving wk" and "msg = Elapsed \<Longrightarrow> may_elapse (cfg i) wk"
    and "pass i ns msg wk (pl_shared p) = (effs, ctl, wk', s')" and "ctl \<noteq> Abort"
  shows "pool_step pass start cfg p (after_worker i ctl wk' s' p)"
  unfolding after_worker_def using assms by (rule pool_step.iterate)

lemma flow_step_pool:
  assumes "flow_step pass start cfg cap f f'"
  shows "rf_pool f' = rf_pool f \<or> pool_step pass start cfg (rf_pool f) (rf_pool f')"
  using assms
proof cases
  case (work i)
  then show ?thesis by cases (auto intro: after_worker_pool_step)
next
  case (boot p)
  then show ?thesis by (simp add: boot_step_pool_step)
qed (auto intro: after_worker_pool_step)

lemma flow_reachable_pool:
  assumes "flow_reachable pass start cfg cap (flow_start n cm w) f"
  shows "pool_reachable pass start cfg (pool_start n cm w) (rf_pool f)"
  using assms
proof induction
  case flow_init
  then show ?case by (simp add: flow_start_def reach_init)
next
  case (flow_more f f')
  then show ?case using flow_step_pool reach_step by metis
qed

lemma flow_reachable_inv:
  assumes "flow_reachable pass start cfg cap (flow_start n cm w) f"
  shows "places_inv cap f \<and> busy_inv f \<and> replies_inv f"
  using assms
proof induction
  case flow_init
  then show ?case by (simp add: flow_start_def places_inv_def busy_inv_def replies_inv_def)
next
  case (flow_more f f')
  then show ?case using step_places step_busy step_replies by blast
qed

lemma closed_all_settled:
  assumes "flow_reachable pass start cfg cap (flow_start n cm w) f" and "\<not> rf_receiver f"
  shows "rf_sending f = [] \<and> rf_queue f = [] \<and> rf_busy f = []"
proof -
  have inv: "places_inv cap f" "busy_inv f" using flow_reachable_inv [OF assms(1)] by auto
  then have gone: "receivers_gone (rf_pool f)" using assms(2) by (simp add: places_inv_def)
  have "i \<notin> fst ` set (rf_busy f)" for i
    using inv(2) gone_phase(1) [OF gone] unfolding busy_inv_def by blast
  then have "rf_busy f = []" by (metis image_is_empty ex_in_conv set_empty)
  then show ?thesis using inv(1) assms(2) by (simp add: places_inv_def)
qed

text \<open>
  Work ends. Each step of a worker's work brings the requests closer to their end, and a serving worker that stays in
  its loop cannot be stuck while a request is left in front of it.
\<close>

lemma work_enabled:
  assumes "busy_inv f" and "rf_receiver f" and "0 < cap"
    and "i < length (pl_phases (rf_pool f))" and "pl_phases (rf_pool f) ! i = Serving wk"
    and "\<And>ns r wk s. \<exists>effs wk' s'. pass i ns (Request r) wk s = (effs, Continue, wk', s')"
    and "\<nexists>f'. work_step pass cap i f f'"
  shows "rf_sending f = [] \<and> rf_queue f = [] \<and> i \<notin> fst ` set (rf_busy f)"
proof -
  have free: "i \<notin> fst ` set (rf_busy f)"
  proof
    assume "i \<in> fst ` set (rf_busy f)"
    then obtain r where r: "(i, r) \<in> set (rf_busy f)" by force
    obtain effs wk' s' where "pass i [] (Request r) wk (pl_shared (rf_pool f)) = (effs, Continue, wk', s')"
      using assms(6) by blast
    from finish [where pass = pass and cap = cap and f = f, OF r assms(4,5) this] show False using assms(7) by blast
  qed
  then have q: "rf_queue f = []"
    using receive [where pass = pass and cap = cap and f = f, OF assms(4,5)] assms(7) by (cases "rf_queue f") blast+
  then have "rf_sending f = []"
    using enter [where pass = pass and cap = cap and f = f and i = i, OF assms(2)] assms(3,7) by (cases "rf_sending f") auto
  then show ?thesis using free q by blast
qed

lemma work_keeps_serving:
  assumes "work_step pass cap i f f'"
    and "\<And>ns r wk s. \<exists>effs wk' s'. pass i ns (Request r) wk s = (effs, Continue, wk', s')"
    and "i < length (pl_phases (rf_pool f))" and "pl_phases (rf_pool f) ! i = Serving wk"
  shows "i < length (pl_phases (rf_pool f')) \<and> (\<exists>wk. pl_phases (rf_pool f') ! i = Serving wk) \<and> rf_receiver f' = rf_receiver f"
  using assms(1)
proof cases
  case (finish r wk ns r' effs ctl wk' s')
  moreover obtain effs1 wk1 s1 where "pass i ns (Request r') wk (pl_shared (rf_pool f)) = (effs1, Continue, wk1, s1)"
    using assms(2) by blast
  ultimately show ?thesis by simp
qed (use assms(3,4) in auto)

lemma work_runs_end:
  assumes "(work_step pass cap i ^^ k) f f'" and "busy_inv f" and "rf_receiver f" and "0 < cap"
    and "\<And>ns r wk s. \<exists>effs wk' s'. pass i ns (Request r) wk s = (effs, Continue, wk', s')"
    and "i < length (pl_phases (rf_pool f))" and "pl_phases (rf_pool f) ! i = Serving wk"
  shows "k + remaining f' \<le> remaining f \<and>
    ((\<nexists>f''. work_step pass cap i f' f'') \<longrightarrow> rf_sending f' = [] \<and> rf_queue f' = [] \<and> i \<notin> fst ` set (rf_busy f'))"
  using assms(1-3,6,7)
proof (induction k arbitrary: f wk)
  case 0
  then show ?case using work_enabled [of f cap i wk] assms(4,5) by auto
next
  case (Suc k)
  obtain g where g: "work_step pass cap i f g" "(work_step pass cap i ^^ k) g f'"
    using Suc.prems(1) by (metis relpowp_Suc_D2)
  obtain wk' where "i < length (pl_phases (rf_pool g))" "pl_phases (rf_pool g) ! i = Serving wk'" "rf_receiver g"
    using work_keeps_serving [OF g(1) assms(5) Suc.prems(4,5)] Suc.prems(3) by blast
  moreover have "busy_inv g" using step_busy [OF flow_step.work [OF g(1)]] Suc.prems(2) by blast
  ultimately have "k + remaining f' \<le> remaining g \<and>
      ((\<nexists>f''. work_step pass cap i f' f'') \<longrightarrow> rf_sending f' = [] \<and> rf_queue f' = [] \<and> i \<notin> fst ` set (rf_busy f'))"
    using Suc.IH [OF g(2)] by blast
  then show ?case using work_decreases [OF g(1)] by auto
qed

lemma work_run_reachable:
  assumes "(work_step pass cap i ^^ k) f f'" and "flow_reachable pass start cfg cap f0 f"
  shows "flow_reachable pass start cfg cap f0 f'"
  using assms
proof (induction k arbitrary: f)
  case (Suc k)
  obtain g where "work_step pass cap i f g" "(work_step pass cap i ^^ k) g f'" using Suc.prems(1) by (metis relpowp_Suc_D2)
  then show ?case using Suc.IH flow_more [OF Suc.prems(2) flow_step.work] by blast
qed simp

text \<open>A worker that stays in its loop settles every request in front of it.\<close>

lemma work_settles:
  assumes "(work_step pass cap i ^^ k) f f'" and "\<nexists>f''. work_step pass cap i f' f''"
    and "busy_inv f" and "rf_receiver f" and "0 < cap"
    and "\<And>ns r wk s. \<exists>effs wk' s'. pass i ns (Request r) wk s = (effs, Continue, wk', s')"
    and "i < length (pl_phases (rf_pool f))" and "pl_phases (rf_pool f) ! i = Serving wk"
  shows "owed i f \<subseteq> set (rf_finished f')"
proof -
  have "rf_sending f' = []" "rf_queue f' = []" "i \<notin> fst ` set (rf_busy f')"
    using work_runs_end [OF assms(1,3-8)] assms(2) by simp_all
  then have "owed i f' = {}" by (force simp: owed_def)
  then show ?thesis using work_run_keeps_owed [OF assms(1)] by blast
qed

end

text \<open>Replies that keep a promise about the request they answer.\<close>

locale checked_workers = request_workers +
  fixes ok :: "embed_request \<Rightarrow> reply \<Rightarrow> bool"
  assumes ok_close: "ok (close_tx r) = ok r"
    and pass_ok: "pass i ns (Request r) wk s = (effs, ctl, wk', s') \<Longrightarrow> Reply j rep \<in> set effs \<Longrightarrow> ok r rep"
begin

definition kept :: "'a flow \<Rightarrow> bool" where
  "kept f \<longleftrightarrow> (\<forall>j rep. Reply j rep \<in> set (rf_effects f) \<longrightarrow> (\<exists>r\<in>set (rf_submitted f). req_id r = j \<and> ok r rep))"

lemma step_kept:
  assumes "flow_step pass start cfg cap f f'" and "kept f" and "replies_inv f"
  shows "kept f'"
  using assms(1)
proof cases
  case (work i)
  from work show ?thesis
  proof cases
    case (finish r wk ns r' effs ctl wk' s')
    have "r \<in> snd ` set (rf_busy f)" using finish(2) by force
    then have "known f r" using assms(3) by (simp add: replies_inv_def)
    then obtain r0 where r0: "r0 \<in> set (rf_submitted f)" "req_id r0 = req_id r" "ok r0 = ok r"
      unfolding known_def by (metis ok_close req_id_close_tx)
    have "j = req_id r \<and> ok r rep" if "Reply j rep \<in> set (delivered r effs)" for j rep
      using pass_replies [OF finish(5,6)] pass_ok [OF finish(5) subsetD [OF delivered_subset that]]
        reply_in_ids [OF subsetD [OF delivered_subset that]] finish(7) by (auto simp: ok_close)
    then show ?thesis using assms(2) r0 finish(1) unfolding kept_def by fastforce
  qed (use assms(2) in \<open>auto simp: kept_def\<close>)
next
  case (idle i wk ns effs ctl wk' s')
  have "Reply j rep \<notin> set effs" for j rep using pass_silent [OF idle(6)] reply_in_ids [of j rep effs] by auto
  then show ?thesis using assms(2) idle(1) by (auto simp: kept_def)
next
  case (hang_up i wk ns effs ctl wk' s')
  have "Reply j rep \<notin> set effs" for j rep using pass_silent [OF hang_up(7)] reply_in_ids [of j rep effs] by auto
  then show ?thesis using assms(2) hang_up(1) by (auto simp: kept_def)
qed (use assms(2) in \<open>auto simp: kept_def\<close>)

lemma reachable_kept:
  assumes "flow_reachable pass start cfg cap (flow_start n cm w) f"
  shows "kept f"
  using assms
proof induction
  case flow_init
  then show ?case by (simp add: flow_start_def kept_def)
next
  case (flow_more f f')
  then show ?case using step_kept flow_reachable_inv by blast
qed

end

section \<open>The workers of the server\<close>

text \<open>A reply has the type of the channel it is sent on.\<close>

fun reply_fits :: "embed_request \<Rightarrow> reply \<Rightarrow> bool" where
  "reply_fits (Dense_Req _ _) (Dense_Reply _) = True"
| "reply_fits (Sparse_Req _ _) (Sparse_Reply _) = True"
| "reply_fits (Both_Req _ _) (Both_Reply _) = True"
| "reply_fits (Probe_Req _ _) (Probe_Reply _) = True"
| "reply_fits (AdaptiveWarmup_Req _ _ _) (Warmup_Ack _) = True"
| "reply_fits _ _ = False"

lemma finalize_no_reply_mem:
  "finalize_embed_route config failures n res warmed = (outcome, effs, warmed') \<Longrightarrow> Reply j rep \<notin> set effs"
  using finalize_no_reply reply_in_ids by fastforce

text \<open>The reply of an embedding route, in terms of the pipeline it runs.\<close>

lemma dispatch_embed_reply_value:
  assumes "dispatch_embed config failures mk what f texts tx warmed s = Some d" and "Reply j rep \<in> set (dp_effects d)"
  shows "\<exists>res. rep = mk res \<and> (case res of Inr v \<Rightarrow> embed_with_trt_retry f (sh_cost_model s) = Inr v | Inl e \<Rightarrow> True)"
  using assms finalize_no_reply_mem
  by (fastforce simp: dispatch_embed_def Let_def split: if_splits sum.splits failure.splits prod.splits)

lemma dispatch_reply_fits:
  assumes "dispatch_request env config wid guard failures warmed req s = Some d" and "Reply j rep \<in> set (dp_effects d)"
  shows "reply_fits req rep"
proof (cases req)
  case (Probe_Req texts tx)
  then show ?thesis using assms by (auto split: sum.splits failure.splits)
next
  case (AdaptiveWarmup_Req batch seq tx)
  then show ?thesis using assms by (auto simp: Let_def split: if_splits prod.splits)
qed (use assms dispatch_embed_reply_value in fastforce)+

text \<open>Where a reply of a pass comes from: a failed reload, or the dispatch of the request.\<close>

lemma iteration_reply_source:
  assumes "worker_iteration env config wid ns (Request r) wk s = (effs, ctl, wk', s')" and "Reply j rep \<in> set effs"
  shows "(\<exists>e. Reply j rep = reply_request_load_error r e) \<or>
    (\<exists>guard failures warmed s1 d. dispatch_request env config wid guard failures warmed r s1 = Some d \<and>
       Reply j rep \<in> set (dp_effects d) \<and> guard = build_shape_guard config (sh_ceiling s1))"
proof -
  obtain wk1 s1 where d: "drain_peers env config ns wk s = (wk1, s1)" by (cases "drain_peers env config ns wk s")
  have serve: "\<exists>guard failures warmed s1 d. dispatch_request env config wid guard failures warmed r s1 = Some d \<and>
      Reply j rep \<in> set (dp_effects d) \<and> guard = build_shape_guard config (sh_ceiling s1)"
    if "serve_loaded env config wid r wk2 s2 = (effs, ctl, wk', s')" for wk2 s2
    using that assms(2) by (auto simp: serve_loaded_def Let_def split: option.splits if_splits)
  have "worker_message env config wid (Request r) wk1 s1 = (effs, ctl, wk', s')"
    using assms(1) d by (simp add: worker_iteration_def)
  then show ?thesis
    using serve assms(2) by (auto split: if_splits sum.splits)
qed

lemma load_error_fits: "Reply j rep = reply_request_load_error r e \<Longrightarrow> reply_fits r rep"
  by (cases r) auto

lemma iteration_silent:
  assumes "worker_iteration env config wid ns msg wk s = (effs, ctl, wk', s')" and "\<And>r. msg \<noteq> Request r"
  shows "reply_ids effs = []"
  using assms by (cases msg) (auto simp: worker_iteration_def Let_def split: prod.splits)

lemma server_request_workers:
  "request_workers (server_pass env config n) (server_start env config n) (make_worker_config config n)"
proof (rule request_workers.intro [OF server.pool_workers_axioms], unfold_locales)
  fix i ns r wk s effs ctl wk' s'
  assume a: "server_pass env config n i ns (Request r) wk s = (effs, ctl, wk', s')" "ctl \<noteq> Abort"
  obtain wk1 s1 where "drain_peers (env i) (make_worker_config config n i) ns wk s = (wk1, s1)" by fastforce
  then have "worker_message (env i) (make_worker_config config n i) i (Request r) wk1 s1 = (effs, ctl, wk', s')"
    using a(1) by (simp add: server_pass_def worker_iteration_def)
  from worker_message_replies [OF this a(2)]
  show "reply_ids effs = [req_id r] \<or> reply_ids effs = [] \<and> tx_closed (request_tx r)" by (auto simp: req_id_def)
qed (simp add: server_pass_def iteration_silent)

interpretation flow: checked_workers "server_pass env config n" "server_start env config n" "make_worker_config config n" reply_fits
  for env config n
proof (rule checked_workers.intro [OF server_request_workers], unfold_locales)
  show "reply_fits (close_tx r) = reply_fits r" for r by (cases r) (auto simp: fun_eq_iff elim: reply_fits.elims)
  fix i ns r wk s effs ctl wk' s' j rep
  assume "server_pass env config n i ns (Request r) wk s = (effs, ctl, wk', s')" "Reply j rep \<in> set effs"
  from iteration_reply_source [OF this [unfolded server_pass_def]] show "reply_fits r rep"
    using load_error_fits dispatch_reply_fits by metis
qed

lemma server_flow_inv:
  assumes "server_flow_reachable env config n cm w f"
  shows "places_inv (queue_capacity n) f" and "busy_inv f" and "replies_inv f" and "length (pl_phases (rf_pool f)) = n"
    and "flow.kept f"
proof -
  note r = assms [unfolded server_flow_reachable_def]
  show "places_inv (queue_capacity n) f" "busy_inv f" "replies_inv f" using flow.flow_reachable_inv [OF r] by simp_all
  show "length (pl_phases (rf_pool f)) = n" using server.reachable_inv [OF flow.flow_reachable_pool [OF r]] by simp
  show "flow.kept f" by (rule flow.reachable_kept [OF r])
qed

section \<open>Runs of a pool with one worker\<close>

lemma server_flow_more:
  assumes "server_flow_reachable env config n cm w f"
    and "flow_step (server_pass env config n) (server_start env config n) (make_worker_config config n) (queue_capacity n) f f'"
  shows "server_flow_reachable env config n cm w f'"
  using assms unfolding server_flow_reachable_def by (rule flow_more)

lemma flow_one_worker:
  fixes cm w
  defines "p0 \<equiv> pool_start 1 cm w"
  assumes "server_start env config 1 0 (pl_shared p0) = (Startup_Ready d, pl_shared p0)"
  shows "server_flow_reachable env config 1 cm w ((flow_start 1 cm w)\<lparr>rf_pool :=
    p0\<lparr>pl_phases := [Serving fresh_worker], pl_shared := (pl_shared p0)\<lparr>sh_loaded := 1\<rparr>\<rparr>\<rparr>)"
proof -
  let ?start = "server_start env config 1" and ?f0 = "flow_start 1 cm w"
  have r0: "server_flow_reachable env config 1 cm w ?f0" unfolding server_flow_reachable_def by (rule flow_init)
  have b: "server_flow_reachable env config 1 cm w (?f0\<lparr>rf_pool := p'\<rparr>)"
    if "server_flow_reachable env config 1 cm w (?f0\<lparr>rf_pool := p\<rparr>)" "boot_step ?start p p'" for p p'
    using server_flow_more [OF that(1) flow_step.boot] that(2) by simp
  have "boot_step ?start p0 (p0\<lparr>pl_phases := [Starting]\<rparr>)"
    using boot_spawn [of 0 p0 ?start] by (simp add: p0_def pool_start_def)
  moreover have "boot_step ?start (p0\<lparr>pl_phases := [Starting]\<rparr>) (p0\<lparr>pl_phases := [Serving fresh_worker], pl_pending := 1\<rparr>)"
    using boot_ready [of 0 "p0\<lparr>pl_phases := [Starting]\<rparr>" ?start d "pl_shared p0"] assms(2) by (simp add: p0_def pool_start_def)
  moreover have "boot_step ?start (p0\<lparr>pl_phases := [Serving fresh_worker], pl_pending := 1\<rparr>)
      (p0\<lparr>pl_phases := [Serving fresh_worker], pl_shared := (pl_shared p0)\<lparr>sh_loaded := 1\<rparr>\<rparr>)"
    using boot_counted [of "p0\<lparr>pl_phases := [Serving fresh_worker], pl_pending := 1\<rparr>" 0 ?start] by (simp add: p0_def pool_start_def)
  moreover have "?f0 = ?f0\<lparr>rf_pool := p0\<rparr>" by (simp add: flow_start_def p0_def)
  ultimately show ?thesis using r0 b by metis
qed

abbreviation dense_call :: "nat \<Rightarrow> embed_request" where
  "dense_call k \<equiv> Dense_Req [''a''] \<lparr>tx_id = k, tx_closed = False\<rparr>"

text \<open>A caller enters an idle one-worker pool; the worker takes the request at once.\<close>

lemma flow_one_call:
  assumes "server_flow_reachable env config 1 cm w f" and "rf_senders f" and "rf_receiver f" and "k \<notin> req_id ` set (rf_submitted f)"
    and "rf_sending f = []" and "length (rf_queue f) < 4"
  shows "server_flow_reachable env config 1 cm w (f\<lparr>rf_submitted := rf_submitted f @ [dense_call k], rf_sending := [dense_call k]\<rparr>)"
    and "server_flow_reachable env config 1 cm w (f\<lparr>rf_queue := rf_queue f @ [dense_call k],
      rf_submitted := rf_submitted f @ [dense_call k], rf_accepted := rf_accepted f @ [k]\<rparr>)"
proof -
  let ?f1 = "f\<lparr>rf_submitted := rf_submitted f @ [dense_call k], rf_sending := [dense_call k]\<rparr>"
  show r1: "server_flow_reachable env config 1 cm w ?f1"
    using server_flow_more [OF assms(1) flow_step.submit [of f "dense_call k"]] assms by (simp add: req_id_def)
  have "?f1\<lparr>rf_sending := [], rf_queue := rf_queue ?f1 @ [dense_call k], rf_accepted := rf_accepted ?f1 @ [req_id (dense_call k)]\<rparr> =
      f\<lparr>rf_queue := rf_queue f @ [dense_call k], rf_submitted := rf_submitted f @ [dense_call k], rf_accepted := rf_accepted f @ [k]\<rparr>"
    using assms(5) by (cases f) (simp add: req_id_def)
  then show "server_flow_reachable env config 1 cm w (f\<lparr>rf_queue := rf_queue f @ [dense_call k],
      rf_submitted := rf_submitted f @ [dense_call k], rf_accepted := rf_accepted f @ [k]\<rparr>)"
    using server_flow_more [OF r1 flow_step.work [OF enter [where f = ?f1 and i = 0 and r = "dense_call k" and rs = "[]"]]]
      assms(3,6) by (simp add: queue_capacity_def)
qed

text \<open>The first call to a one-worker pool that has started.\<close>

abbreviation started_pool :: "cost_model \<Rightarrow> 'w \<Rightarrow> 'w pool" where
  "started_pool cm w \<equiv> (pool_start 1 cm w)\<lparr>pl_phases := [Serving fresh_worker],
     pl_shared := (pl_shared (pool_start 1 cm w))\<lparr>sh_loaded := 1\<rparr>\<rparr>"

abbreviation first_received :: "cost_model \<Rightarrow> 'w \<Rightarrow> 'w flow" where
  "first_received cm w \<equiv> (flow_start 1 cm w)\<lparr>rf_pool := started_pool cm w, rf_busy := [(0, dense_call 0)],
     rf_submitted := [dense_call 0], rf_accepted := [0], rf_received := [0]\<rparr>"

lemma flow_one_received:
  assumes "server_start env config 1 0 (pl_shared (pool_start 1 cm w)) = (Startup_Ready d, pl_shared (pool_start 1 cm w))"
  shows "server_flow_reachable env config 1 cm w (first_received cm w)"
proof -
  let ?f1 = "(flow_start 1 cm w)\<lparr>rf_pool := started_pool cm w, rf_queue := [dense_call 0], rf_submitted := [dense_call 0],
      rf_accepted := [0]\<rparr>"
  have r1: "server_flow_reachable env config 1 cm w ?f1"
    using flow_one_call(2) [OF flow_one_worker [OF assms], of 0] by (simp add: flow_start_def)
  show ?thesis
    using server_flow_more [OF r1 flow_step.work [OF receive [where f = ?f1 and i = 0 and r = "dense_call 0" and rs = "[]"
            and wk = fresh_worker]]] by (simp add: flow_start_def req_id_def pool_start_def)
qed

lemma flow_first_finish:
  assumes "server_flow_reachable env config 1 cm w (first_received cm w\<lparr>rf_queue := q, rf_submitted := sub, rf_accepted := acc\<rparr>)"
    and "server_pass env config 1 0 [] (Request (dense_call 0)) fresh_worker (pl_shared (started_pool cm w)) = (effs, ctl, wk', s')"
    and "ctl \<noteq> Abort"
  shows "server_flow_reachable env config 1 cm w (first_received cm w\<lparr>rf_pool := after_worker 0 ctl wk' s' (started_pool cm w),
    rf_queue := q, rf_busy := [], rf_submitted := sub, rf_accepted := acc, rf_finished := [0], rf_effects := effs\<rparr>)"
proof -
  let ?f = "first_received cm w\<lparr>rf_queue := q, rf_submitted := sub, rf_accepted := acc\<rparr>"
  have "work_step (server_pass env config 1) (queue_capacity 1) 0 ?f (first_received cm w\<lparr>rf_pool := after_worker 0 ctl wk' s'
      (started_pool cm w), rf_queue := q, rf_busy := [], rf_submitted := sub, rf_accepted := acc, rf_finished := [0], rf_effects := effs\<rparr>)"
    using finish [where pass = "server_pass env config 1" and cap = "queue_capacity 1" and f = ?f and i = 0
        and r = "dense_call 0" and r' = "dense_call 0" and wk = fresh_worker and ns = "[]" and effs = effs and ctl = ctl and wk' = wk'
        and s' = s'] assms(2,3)
    by (simp add: flow_start_def req_id_def pool_start_def)
  then show ?thesis by (rule server_flow_more [OF assms(1) flow_step.work])
qed

text \<open>Two calls to a pool whose only worker cannot build its engine: the first is answered, the second dropped.\<close>

lemma fatal_flow:
  "\<exists>f. server_flow_reachable (\<lambda>i. fatal_env) fatal_config 1 (conservative 0) () f \<and> \<not> rf_receiver f \<and>
     rf_submitted f = [dense_call 0, dense_call 1] \<and> rf_finished f = [0] \<and> rf_dropped f = [1] \<and> rf_cancelled f = [] \<and>
     rf_refused f = [] \<and> rf_left f = {}"
proof -
  let ?reach = "server_flow_reachable (\<lambda>i. fatal_env) fatal_config 1 (conservative 0) ()"
  let ?start = "pool_start 1 (conservative 0) () :: unit pool" and ?ready = "started_pool (conservative 0) ()"
  let ?f2 = "first_received (conservative 0) ()"
  have "server_start (\<lambda>i. fatal_env) fatal_config 1 0 (pl_shared ?start) = (Startup_Ready 20, pl_shared ?start)"
    by (simp add: server_start_def startup_worker_def prewarm_shard_def fatal_env_def fatal_config_def sample_env_def sample_config_def
        make_worker_config_def run_cache_gc_def pool_start_def Let_def)
  from flow_one_call(2) [OF flow_one_received [OF this], of 1]
  have r3: "?reach (?f2\<lparr>rf_queue := [dense_call 1], rf_submitted := [dense_call 0, dense_call 1], rf_accepted := [0, 1]\<rparr>)"
    by (simp add: flow_start_def req_id_def)
  obtain effs m wk' where it: "server_pass (\<lambda>i. fatal_env) fatal_config 1 0 [] (Request (dense_call 0)) fresh_worker (pl_shared ?ready) =
      (effs, Exit_Error m, wk', guard_drop (pl_shared ?ready))"
    using fatal_iteration [of "pl_shared ?ready"] unfolding server_pass_def by blast
  let ?f4 = "?f2\<lparr>rf_pool := after_worker 0 (Exit_Error m) wk' (guard_drop (pl_shared ?ready)) ?ready, rf_queue := [dense_call 1],
      rf_busy := [], rf_submitted := [dense_call 0, dense_call 1], rf_accepted := [0, 1], rf_finished := [0], rf_effects := effs\<rparr>"
  have r4: "?reach ?f4" by (rule flow_first_finish [OF r3 it]) simp
  have gone: "receivers_gone (rf_pool ?f4)" by (simp add: receivers_gone_def pool_start_def)
  let ?f5 = "?f4\<lparr>rf_receiver := False, rf_sending := [], rf_queue := [], rf_refused := [], rf_dropped := [1]\<rparr>"
  have "?reach ?f5"
    using server_flow_more [OF r4 flow_step.drop_receiver [OF _ gone]] by (simp add: flow_start_def req_id_def)
  then show ?thesis by (intro exI [of _ ?f5]) (simp add: flow_start_def)
qed

text \<open>A worker that answers every request with an error and stays in its loop.\<close>

definition stubborn_env :: "unit worker_env" where
  "stubborn_env = sample_env\<lparr>en_tokenizer := \<lambda>texts. Inl ''bad'', en_load := Inr ()\<rparr>"

definition stubborn_config :: worker_config where
  "stubborn_config = fatal_config\<lparr>wc_ep := Cpu\<rparr>"

lemma stubborn_message:
  "\<not> is_trt_engine_build_fatal (Context ''Dense embed error'' (Msg ''Tokenization failed: bad''))"
  "\<not> is_trt_engine_build_fatal (Context ''Sparse embed error'' (Msg ''Tokenization failed: bad''))"
  "\<not> is_trt_engine_build_fatal (Context ''Dual embed error'' (Msg ''Tokenization failed: bad''))"
  "\<not> is_trt_jit_oom (Msg ''Tokenization failed: bad'')"
  by code_simp+

lemma stubborn_embed:
  assumes "f = (\<lambda>cm. Inl (Err (Msg ''Tokenization failed: bad'')))"
    and "\<not> is_trt_engine_build_fatal (Context what (Msg ''Tokenization failed: bad''))"
  shows "\<exists>d. dispatch_embed config failures mk what f texts tx warmed s = Some d \<and> (dp_skip d \<or> dp_outcome d \<noteq> TrtFatal)"
  using assms stubborn_message(4)
  by (auto simp: dispatch_embed_def embed_with_trt_retry_def finalize_embed_route_def classify_inference_outcome_def Let_def)

lemma stubborn_dispatch:
  "\<exists>d. dispatch_request stubborn_env (make_worker_config stubborn_config 1 0) 0 guard failures warmed r s = Some d \<and>
     (dp_skip d \<or> dp_outcome d \<noteq> TrtFatal)"
proof (cases r)
  case (Probe_Req texts tx)
  then show ?thesis by (simp add: run_probe_batch_def tokenize_no_pad_def stubborn_env_def)
next
  case (AdaptiveWarmup_Req batch seq tx)
  then show ?thesis by (simp add: make_worker_config_def stubborn_config_def Let_def)
qed (auto intro!: stubborn_embed stubborn_message
      simp: embed_dense_def embed_sparse_def embed_both_def embed_route_def tokenize_no_pad_def stubborn_env_def)

lemma stubborn_stays:
  "\<exists>effs wk' s'. server_pass (\<lambda>i. stubborn_env) stubborn_config 1 0 ns (Request r) wk s = (effs, Continue, wk', s')"
proof -
  have serve: "\<exists>effs wk' s'. serve_loaded stubborn_env (make_worker_config stubborn_config 1 0) 0 r wk s = (effs, Continue, wk', s')"
    for wk s
    using stubborn_dispatch [of "build_shape_guard (make_worker_config stubborn_config 1 0) (sh_ceiling s)" "wk_failures wk"
        "wk_warmed_local wk" r s]
    by (auto simp: serve_loaded_def Let_def)
  obtain wk1 s1 where "drain_peers stubborn_env (make_worker_config stubborn_config 1 0) ns wk s = (wk1, s1)" by fastforce
  then show ?thesis using serve by (auto simp: server_pass_def worker_iteration_def stubborn_env_def)
qed

section \<open>Properties\<close>

text \<open>
  C7: every request is answered at most once, with a reply of its own kind, and only by the worker that received it. A finished
  request whose client still waits has exactly one reply, on every path and in every interleaving.
\<close>

theorem answered_exactly_once:
  assumes "server_flow_reachable env config n cm w f"
  shows "(\<forall>k. count (mset (reply_ids (rf_effects f))) k \<le> of_bool (k \<in> set (rf_finished f))) \<and>
    (\<forall>k\<in>set (rf_finished f) - rf_left f. count (mset (reply_ids (rf_effects f))) k = 1 \<and>
       (\<exists>r\<in>set (rf_submitted f). \<exists>rep. req_id r = k \<and> reply_for k (rf_effects f) = Some rep \<and> reply_fits r rep))"
proof -
  have inv: "distinct (reply_ids (rf_effects f))" "set (reply_ids (rf_effects f)) \<subseteq> set (rf_finished f)"
      "set (rf_finished f) - set (reply_ids (rf_effects f)) \<subseteq> rf_left f"
    using server_flow_inv(3) [OF assms] by (simp_all add: replies_inv_def)
  have c: "count (mset (reply_ids (rf_effects f))) k = of_bool (k \<in> set (reply_ids (rf_effects f)))" for k
    using inv(1) by (simp add: distinct_count_atmost_1)
  have "\<exists>r\<in>set (rf_submitted f). \<exists>rep. req_id r = k \<and> reply_for k (rf_effects f) = Some rep \<and> reply_fits r rep"
    if k: "k \<in> set (reply_ids (rf_effects f))" for k
  proof -
    obtain rep where rep: "reply_for k (rf_effects f) = Some rep" using k reply_for_None_iff by (metis not_None_eq)
    then have "Reply k rep \<in> set (rf_effects f)" by (rule reply_for_mem)
    then show ?thesis using server_flow_inv(5) [OF assms] rep unfolding flow.kept_def by blast
  qed
  then show ?thesis using inv(2,3) by (auto simp: c)
qed

theorem answered_exactly_once_witness:
  "\<exists>f rep. server_flow_reachable (\<lambda>i. fatal_env) fatal_config 1 (conservative 0) () f \<and>
     reply_for 0 (rf_effects f) = Some (Dense_Reply rep)"
proof -
  obtain f where f: "server_flow_reachable (\<lambda>i. fatal_env) fatal_config 1 (conservative 0) () f"
      "rf_submitted f = [dense_call 0, dense_call 1]" "rf_finished f = [0]" "rf_left f = {}"
    using fatal_flow by blast
  obtain r rep where "r \<in> set (rf_submitted f)" "req_id r = 0" "reply_for 0 (rf_effects f) = Some rep" "reply_fits r rep"
    using answered_exactly_once [OF f(1)] f(3,4) by auto
  then show ?thesis using f(1,2) by (cases rep) (auto simp: req_id_def)
qed



lemma stubborn_start:
  "server_start (\<lambda>i. stubborn_env) stubborn_config 1 0 (pl_shared (pool_start 1 (conservative 0) ())) =
    (Startup_Ready 20, pl_shared (pool_start 1 (conservative 0) ()))"
  by (simp add: server_start_def startup_worker_def prewarm_shard_def stubborn_env_def stubborn_config_def fatal_config_def sample_env_def
      sample_config_def make_worker_config_def run_cache_gc_def pool_start_def Let_def)

end
