(* ===== verification/Teardown.thy ===== *)
theory Teardown
  imports Request_Flow
begin

text \<open>
  The end of a pool: its handle is dropped (\<open>src/lib.rs\<close>, the warm-up-only path), so the channel has no sender, and every worker
  leaves its loop when \<open>recv\<close> finds the channel closed and empty (\<open>src/embedder/worker/run.rs\<close>). The steps are those of theory
  Request_Flow that need no sender; what is in flight or queued is still served.
\<close>

section \<open>Steps\<close>

inductive teardown_step ::
  "(nat \<Rightarrow> notice list \<Rightarrow> message \<Rightarrow> worker \<Rightarrow> 'w shared \<Rightarrow> effect list \<times> control \<times> worker \<times> 'w shared) \<Rightarrow> nat \<Rightarrow>
   'w flow \<Rightarrow> 'w flow \<Rightarrow> bool"
  for pass cap where
  serve: "work_step pass cap i f f' \<Longrightarrow> teardown_step pass cap f f'"
| quit: "i < length (pl_phases (rf_pool f)) \<Longrightarrow> pl_phases (rf_pool f) ! i = Serving wk \<Longrightarrow> i \<notin> fst ` set (rf_busy f) \<Longrightarrow>
    \<not> rf_senders f \<Longrightarrow> rf_queue f = [] \<Longrightarrow>
    pass i ns Channel_Closed wk (pl_shared (rf_pool f)) = (effs, ctl, wk', s') \<Longrightarrow> ctl \<noteq> Abort \<Longrightarrow>
    teardown_step pass cap f
      (f\<lparr>rf_pool := after_worker i ctl wk' s' (rf_pool f), rf_effects := rf_effects f @ effs\<rparr>)"

lemma teardown_flow: "teardown_step pass cap f f' \<Longrightarrow> flow_step pass start cfg cap f f'"
  by (induction rule: teardown_step.induct) (auto intro: flow_step.work flow_step.hang_up)

fun is_serving :: "phase \<Rightarrow> bool" where
  "is_serving (Serving wk) = True"
| "is_serving _ = False"

lemma is_serving_iff: "is_serving ph \<longleftrightarrow> (\<exists>wk. ph = Serving wk)"
  by (cases ph) auto

lemma after_pass_serving: "is_serving (after_pass ctl wk) \<longleftrightarrow> ctl = Continue \<or> ctl = Abort"
  by (cases ctl) auto

lemma after_pass_settled: "has_exited (after_pass ctl wk) \<or> is_serving (after_pass ctl wk)"
  by (cases ctl) auto

text \<open>What is left to do: the steps of the requests, and one exit per serving worker.\<close>

definition left_to_do :: "'w flow \<Rightarrow> nat" where
  "left_to_do f = remaining f + tally is_serving (pl_phases (rf_pool f))"

text \<open>Start-up is over: every worker is in its loop or has left it.\<close>

definition settled :: "'w pool \<Rightarrow> bool" where
  "settled p \<longleftrightarrow> pl_pending p = 0 \<and> (\<forall>ph\<in>set (pl_phases p). has_exited ph \<or> is_serving ph)"

lemma settled_after_worker:
  assumes "settled p"
  shows "settled (after_worker i ctl wk s p)"
  using assms after_pass_settled [of ctl wk] by (auto simp: settled_def dest!: subsetD [OF set_update_subset_insert])

lemma tally_after_worker:
  assumes "i < length (pl_phases p)" and "pl_phases p ! i = Serving wk"
  shows "tally is_serving (pl_phases (after_worker i ctl wk' s p)) + of_bool (ctl \<noteq> Continue \<and> ctl \<noteq> Abort) =
    tally is_serving (pl_phases p)"
  using tally_update [OF assms(1), of is_serving "after_pass ctl wk'"] assms(2) by (auto simp: after_pass_serving of_bool_def)

section \<open>Workers that leave a closed channel\<close>

locale leaving_workers = request_workers +
  assumes pass_leaves: "pass i ns Channel_Closed wk s = (effs, ctl, wk', s') \<Longrightarrow> ctl = Exit"
begin

lemma teardown_settled:
  assumes "teardown_step pass cap f f'" and "settled (rf_pool f)"
  shows "settled (rf_pool f') \<and> rf_senders f' = rf_senders f"
  using assms(1)
proof cases
  case (serve i)
  then show ?thesis using assms(2) by cases (auto intro: settled_after_worker)
qed (use assms(2) in \<open>auto intro: settled_after_worker\<close>)

lemma teardown_decreases:
  assumes "teardown_step pass cap f f'"
  shows "left_to_do f' < left_to_do f"
  using assms
proof cases
  case (serve i)
  have "tally is_serving (pl_phases (rf_pool f')) \<le> tally is_serving (pl_phases (rf_pool f))"
    using serve
  proof cases
    case (finish r wk ns r' effs ctl wk' s')
    then show ?thesis using tally_after_worker [OF finish(3,4), of ctl wk' s'] by simp
  qed auto
  then show ?thesis using work_decreases [OF serve] by (simp add: left_to_do_def)
next
  case (quit i wk ns effs ctl wk' s')
  then show ?thesis
    using tally_after_worker [OF quit(2,3), of Exit wk' s'] pass_leaves [OF quit(7)] by (simp add: left_to_do_def remaining_def)
qed

lemma stuck_exited:
  assumes "\<nexists>f'. teardown_step pass cap f f'" and "settled (rf_pool f)" and "\<not> rf_senders f" and "busy_inv f"
    and "\<And>i ns r wk s effs ctl wk' s'. i < length (pl_phases (rf_pool f)) \<Longrightarrow>
      pass i ns (Request r) wk s = (effs, ctl, wk', s') \<Longrightarrow> ctl \<noteq> Abort"
  shows "rf_busy f = [] \<and> (\<forall>ph\<in>set (pl_phases (rf_pool f)). has_exited ph)"
proof -
  have none: "pl_phases (rf_pool f) ! i \<noteq> Serving wk" if i: "i < length (pl_phases (rf_pool f))" for i wk
  proof
    assume wk: "pl_phases (rf_pool f) ! i = Serving wk"
    have "\<nexists>f'. work_step pass cap i f f'" using assms(1) serve by blast
    have free: "i \<notin> fst ` set (rf_busy f)"
    proof
      assume "i \<in> fst ` set (rf_busy f)"
      then obtain r where r: "(i, r) \<in> set (rf_busy f)" by force
      obtain effs ctl wk' s' where p: "pass i [] (Request r) wk (pl_shared (rf_pool f)) = (effs, ctl, wk', s')"
        by (metis prod_cases4)
      from finish [where pass = pass and cap = cap and f = f, OF r i wk p assms(5) [OF i p]] show False using assms(1) serve by blast
    qed
    have q: "rf_queue f = []"
      using receive [where pass = pass and cap = cap and f = f, OF i wk free] assms(1) serve by (cases "rf_queue f") blast+
    obtain effs ctl wk' s' where p: "pass i [] Channel_Closed wk (pl_shared (rf_pool f)) = (effs, ctl, wk', s')"
      by (metis prod_cases4)
    from quit [where pass = pass and cap = cap and f = f, OF i wk free assms(3) q p] show False
      using pass_leaves [OF p] assms(1) by blast
  qed
  have "rf_busy f = []"
    using assms(4) none unfolding busy_inv_def by (metis image_is_empty ex_in_conv set_empty)
  moreover have "\<forall>ph\<in>set (pl_phases (rf_pool f)). has_exited ph"
    using assms(2) none unfolding settled_def is_serving_iff by (metis in_set_conv_nth)
  ultimately show ?thesis by blast
qed

lemma teardown_run:
  assumes "(teardown_step pass cap ^^ k) f f'" and "settled (rf_pool f)"
    and "flow_reachable pass start cfg cap (flow_start n cm w) f"
  shows "k + left_to_do f' \<le> left_to_do f \<and> settled (rf_pool f') \<and> rf_senders f' = rf_senders f \<and>
    flow_reachable pass start cfg cap (flow_start n cm w) f'"
  using assms
proof (induction k arbitrary: f)
  case (Suc k)
  obtain g where g: "teardown_step pass cap f g" "(teardown_step pass cap ^^ k) g f'"
    using Suc.prems(1) by (metis relpowp_Suc_D2)
  note s = teardown_settled [OF g(1) Suc.prems(2)]
  from Suc.IH [OF g(2)] s flow_more [OF Suc.prems(3) teardown_flow [OF g(1)]] teardown_decreases [OF g(1)]
  show ?case by auto
qed simp

end

lemma iteration_leaves:
  "worker_iteration env config wid ns Channel_Closed wk s = (effs, ctl, wk', s') \<Longrightarrow> ctl = Exit"
  by (auto simp: worker_iteration_def Let_def split: prod.splits)

interpretation leaving: leaving_workers "server_pass env config n" "server_start env config n" "make_worker_config config n"
  for env config n
  by (rule leaving_workers.intro [OF server_request_workers], unfold_locales) (simp add: server_pass_def iteration_leaves)

section \<open>Properties\<close>

text \<open>
  C14: a dropped pool comes to an end. Once start-up is over and the last sender is gone, every run of the workers ends after
  at most as many steps as the pending requests have left plus one per worker; when nothing can move, no request is being computed, every
  worker has left its loop, the live counter that the shutdown waits for is zero, and the loaded counter
  is the number of workers that left on a fatal error.
\<close>

theorem teardown_completes:
  assumes "server_flow_reachable env config n cm w f" and "\<not> rf_senders f" and "settled (rf_pool f)" and "n < 2 ^ 63"
    and "\<And>i ns r wk s effs ctl wk' s'. i < n \<Longrightarrow>
      server_pass env config n i ns (Request r) wk s = (effs, ctl, wk', s') \<Longrightarrow> ctl \<noteq> Abort"
  shows "\<forall>k f'. (teardown_step (server_pass env config n) (queue_capacity n) ^^ k) f f' \<longrightarrow>
    k \<le> remaining f + n \<and>
    ((\<nexists>f''. teardown_step (server_pass env config n) (queue_capacity n) f' f'') \<longrightarrow>
       rf_busy f' = [] \<and> (\<forall>ph\<in>set (pl_phases (rf_pool f')). has_exited ph) \<and> sh_live (pl_shared (rf_pool f')) = 0 \<and>
       unat (sh_loaded (pl_shared (rf_pool f'))) = tally exited_fatally (pl_phases (rf_pool f')))"
proof (intro allI impI)
  fix k f'
  assume run: "(teardown_step (server_pass env config n) (queue_capacity n) ^^ k) f f'"
  note run' = leaving.teardown_run [OF run assms(3) assms(1) [unfolded server_flow_reachable_def]]
  then have r': "server_flow_reachable env config n cm w f'" by (simp add: server_flow_reachable_def)
  have len: "length (pl_phases (rf_pool f)) = n" "length (pl_phases (rf_pool f')) = n"
    using server_flow_inv(4) [OF assms(1)] server_flow_inv(4) [OF r'] by simp_all
  have "left_to_do f \<le> remaining f + n" using tally_le [of is_serving "pl_phases (rf_pool f)"] len by (simp add: left_to_do_def)
  then have bound: "k \<le> remaining f + n" using run' by simp
  have "pl_pending (rf_pool f') = 0" using run' by (simp add: settled_def)
  note counters = reachable_counters [OF flow.flow_reachable_pool [OF r' [unfolded server_flow_reachable_def]] assms(4) this]
  have "rf_busy f' = [] \<and> (\<forall>ph\<in>set (pl_phases (rf_pool f')). has_exited ph) \<and> sh_live (pl_shared (rf_pool f')) = 0 \<and>
      unat (sh_loaded (pl_shared (rf_pool f'))) = tally exited_fatally (pl_phases (rf_pool f'))"
    if "\<nexists>f''. teardown_step (server_pass env config n) (queue_capacity n) f' f''"
  proof -
    have ex: "rf_busy f' = []" "\<forall>ph\<in>set (pl_phases (rf_pool f')). has_exited ph"
      using leaving.stuck_exited [OF that _ _ server_flow_inv(2) [OF r']] run' assms(2,5) len(2) by blast+
    have "\<not> holds_models ph" if "has_exited ph" for ph using that by (cases ph) auto
    then have "tally has_exited (pl_phases (rf_pool f')) = n" "tally holds_models (pl_phases (rf_pool f')) = 0"
      using len(2) ex(2) by (auto simp: tally_def filter_empty_conv)
    then show ?thesis using ex counters by (simp add: unat_eq_0)
  qed
  with bound show "k \<le> remaining f + n \<and> ((\<nexists>f''. teardown_step (server_pass env config n) (queue_capacity n) f' f'') \<longrightarrow>
       rf_busy f' = [] \<and> (\<forall>ph\<in>set (pl_phases (rf_pool f')). has_exited ph) \<and> sh_live (pl_shared (rf_pool f')) = 0 \<and>
       unat (sh_loaded (pl_shared (rf_pool f'))) = tally exited_fatally (pl_phases (rf_pool f')))" by blast
qed

text \<open>A pool whose only worker holds the first call when the last sender goes.\<close>

theorem teardown_completes_witness:
  "\<exists>f. server_flow_reachable (\<lambda>i. stubborn_env) stubborn_config 1 (conservative 0) () f \<and> rf_busy f = [(0, dense_call 0)] \<and>
     (\<forall>k f'. (teardown_step (server_pass (\<lambda>i. stubborn_env) stubborn_config 1) (queue_capacity 1) ^^ k) f f' \<longrightarrow> k \<le> 2 \<and>
       ((\<nexists>f''. teardown_step (server_pass (\<lambda>i. stubborn_env) stubborn_config 1) (queue_capacity 1) f' f'') \<longrightarrow>
          sh_live (pl_shared (rf_pool f')) = 0))"
proof -
  let ?f = "first_received (conservative 0) ()\<lparr>rf_senders := False\<rparr>"
  have "server_flow_reachable (\<lambda>i. stubborn_env) stubborn_config 1 (conservative 0) () (first_received (conservative 0) ())"
    by (rule flow_one_received [OF stubborn_start])
  then have r: "server_flow_reachable (\<lambda>i. stubborn_env) stubborn_config 1 (conservative 0) () ?f"
    by (rule server_flow_more) (rule flow_step.drop_senders, simp add: flow_start_def)
  have "ctl \<noteq> Abort" if "i < 1" "server_pass (\<lambda>i. stubborn_env) stubborn_config 1 i ns (Request rq) wk s = (effs, ctl, wk', s')"
    for i ns rq wk s effs ctl wk' s'
    using stubborn_stays [of ns rq wk s] that by auto
  moreover have "settled (rf_pool ?f)" by (simp add: settled_def pool_start_def)
  ultimately have all: "\<forall>k f'. (teardown_step (server_pass (\<lambda>i. stubborn_env) stubborn_config 1) (queue_capacity 1) ^^ k) ?f f' \<longrightarrow>
      k \<le> remaining ?f + 1 \<and> ((\<nexists>f''. teardown_step (server_pass (\<lambda>i. stubborn_env) stubborn_config 1) (queue_capacity 1) f' f'') \<longrightarrow>
       rf_busy f' = [] \<and> (\<forall>ph\<in>set (pl_phases (rf_pool f')). has_exited ph) \<and> sh_live (pl_shared (rf_pool f')) = 0 \<and>
       unat (sh_loaded (pl_shared (rf_pool f'))) = tally exited_fatally (pl_phases (rf_pool f')))"
    by (intro teardown_completes [OF r]) simp_all
  have "remaining ?f + 1 = 2" and busy: "rf_busy ?f = [(0, dense_call 0)]" by (simp_all add: remaining_def flow_start_def)
  with all r show ?thesis by (intro exI [of _ ?f]) metis
qed

end
