(* ===== verification/Healthy_Pool.thy ===== *)
theory Healthy_Pool
  imports Request_Flow
begin

text \<open>
  A pool whose workers are healthy: the tokenizer, the session and the projection of each worker keep the contract of the
  exported model. The whole way of a request through \<open>src/embedder/pool.rs\<close>, \<open>worker/run.rs\<close>, \<open>worker/dispatch.rs\<close>,
  \<open>worker/guard.rs\<close> and the three pipelines is put together here: no request makes such a worker panic or leave its
  loop, and every request in front of it is answered.
\<close>

section \<open>The contract\<close>

text \<open>The workers of one pool share the model: tokenizer, session and projection keep one contract.\<close>

definition same_model ::
  "'w worker_env \<Rightarrow> model_variant \<Rightarrow> (string list \<Rightarrow> encoding list) \<Rightarrow> (int list \<Rightarrow> int list \<Rightarrow> fl list) \<Rightarrow>
   (int list \<Rightarrow> int list \<Rightarrow> fl list list) \<Rightarrow> projection \<Rightarrow> bool" where
  "same_model env v E g h pj \<longleftrightarrow>
     (\<forall>texts. tokenizes (en_tokenizer env) texts (E texts)) \<and>
     session_contract (en_session env) v g h (length (pj_weight pj)) \<and> en_projection env = pj"

lemma not_admitted_refused:
  assumes "tokenizes tok texts encs" and "\<not> admitted guard cm encs"
  shows "\<exists>r. embed_route extract row init sess tok tm texts cm guard = Inl (Err (Rejection r))"
proof -
  obtain r where "guard_chunks guard (bin_pack (seq_lens_of encs) cm) (seq_lens_of encs) = Inl r"
    using assms(2) by (cases "guard_chunks guard (bin_pack (seq_lens_of encs) cm) (seq_lens_of encs)") (auto simp: admitted_def)
  then show ?thesis using route_refused assms(1) by (metis tokenizes_def)
qed

lemma refused_bind:
  assumes "tokenizes tok texts encs" and "\<not> admitted guard cm encs"
  shows "\<exists>r. rbind (embed_route extract row init sess tok tm texts cm guard) k = Inl (Err (Rejection r))"
proof -
  obtain r where "embed_route extract row init sess tok tm texts cm guard = Inl (Err (Rejection r))"
    by (rule exE [OF not_admitted_refused [OF assms]])
  then show ?thesis by simp
qed

text \<open>
  The answer of a healthy worker: a result, the refusal of a shape that is not warmed, or the failure to load the
  models again.
\<close>

fun healthy_result :: "(any_error, 'a) result \<Rightarrow> bool" where
  "healthy_result (Inr _) = True"
| "healthy_result (Inl e) \<longleftrightarrow> is_trt_shape_rejected e \<or> (\<exists>m. e = Msg (''Model reload failed: '' @ m))"

fun healthy_answer :: "embed_request \<Rightarrow> reply \<Rightarrow> bool" where
  "healthy_answer (Dense_Req _ _) (Dense_Reply r) = healthy_result r"
| "healthy_answer (Sparse_Req _ _) (Sparse_Reply r) = healthy_result r"
| "healthy_answer (Both_Req _ _) (Both_Reply r) = healthy_result r"
| "healthy_answer (Probe_Req _ _) (Probe_Reply r) = healthy_result r"
| "healthy_answer (AdaptiveWarmup_Req _ _ _) (Warmup_Ack _) = True"
| "healthy_answer _ _ = False"

section \<open>A healthy worker stays in its loop\<close>

definition sound_pipeline :: "(cost_model \<Rightarrow> (failure, 'r) result) \<Rightarrow> bool" where
  "sound_pipeline f \<longleftrightarrow> (\<forall>cm. (\<exists>v. f cm = Inr v) \<or> (\<exists>r. f cm = Inl (Err (Rejection r))))"

lemma sound_routes:
  assumes "same_model env v E g h pj"
  shows "sound_pipeline (\<lambda>cm. embed_dense (en_session env) (en_tokenizer env) tm texts cm v guard)"
    and "sound_pipeline (\<lambda>cm. embed_sparse pj (en_session env) (en_tokenizer env) tm texts cm v guard)"
    and "sound_pipeline (\<lambda>cm. embed_both pj (en_session env) (en_tokenizer env) tm texts cm v guard)"
proof -
  have tok: "tokenizes (en_tokenizer env) texts (E texts)" and ses: "session_contract (en_session env) v g h (length (pj_weight pj))"
    using assms by (simp_all add: same_model_def)
  note refused = not_admitted_refused [OF tok]
  note complete = dense_complete [OF tok ses] sparse_complete [OF tok ses]
  show "sound_pipeline (\<lambda>cm. embed_dense (en_session env) (en_tokenizer env) tm texts cm v guard)"
    unfolding sound_pipeline_def
  proof
    fix cm
    show "(\<exists>u. embed_dense (en_session env) (en_tokenizer env) tm texts cm v guard = Inr u) \<or>
        (\<exists>r. embed_dense (en_session env) (en_tokenizer env) tm texts cm v guard = Inl (Err (Rejection r)))"
    proof (cases "admitted guard cm (E texts)")
      case False
      then show ?thesis using refused unfolding embed_dense_def by metis
    qed (use complete(1) [of guard cm tm] in blast)
  qed
  show "sound_pipeline (\<lambda>cm. embed_sparse pj (en_session env) (en_tokenizer env) tm texts cm v guard)"
    unfolding sound_pipeline_def
  proof
    fix cm
    show "(\<exists>u. embed_sparse pj (en_session env) (en_tokenizer env) tm texts cm v guard = Inr u) \<or>
        (\<exists>r. embed_sparse pj (en_session env) (en_tokenizer env) tm texts cm v guard = Inl (Err (Rejection r)))"
    proof (cases "admitted guard cm (E texts)")
      case False
      then show ?thesis unfolding embed_sparse_def by (intro disjI2 refused_bind [OF tok])
    qed (use complete(2) [of guard cm tm] in blast)
  qed
  show "sound_pipeline (\<lambda>cm. embed_both pj (en_session env) (en_tokenizer env) tm texts cm v guard)"
    unfolding sound_pipeline_def
  proof
    fix cm
    show "(\<exists>u. embed_both pj (en_session env) (en_tokenizer env) tm texts cm v guard = Inr u) \<or>
        (\<exists>r. embed_both pj (en_session env) (en_tokenizer env) tm texts cm v guard = Inl (Err (Rejection r)))"
    proof (cases "admitted guard cm (E texts)")
      case False
      then show ?thesis unfolding embed_both_def by (intro disjI2 refused_bind [OF tok])
    next
      case True
      obtain ds st where d: "embed_dense (en_session env) (en_tokenizer env) tm texts cm v guard = Inr (ds, st)"
        using complete(1) [OF True] by blast
      obtain ss st' where s: "embed_sparse pj (en_session env) (en_tokenizer env) tm texts cm v guard = Inr (ss, st')"
        using complete(2) [OF True] by blast
      have "st' = st" using dense_sparse_same_stats [OF d s] by simp
      then show ?thesis using d s embed_both_iff_pair by blast
    qed
  qed
qed

lemma dispatch_embed_healthy:
  assumes "sound_pipeline f" and "what \<in> set route_contexts"
  shows "\<exists>d. dispatch_embed config failures mk what f texts tx warmed s = Some d \<and> (dp_skip d \<or> dp_outcome d \<noteq> TrtFatal) \<and>
    (\<forall>j rep. Reply j rep \<in> set (dp_effects d) \<longrightarrow> (\<exists>res. rep = mk res \<and> healthy_result res))"
proof (cases "tx_closed tx")
  case True
  then show ?thesis by (simp add: dispatch_embed_def)
next
  case open_tx: False
  consider v where "f (sh_cost_model s) = Inr v" | r where "f (sh_cost_model s) = Inl (Err (Rejection r))"
    using assms(1) unfolding sound_pipeline_def by metis
  then show ?thesis
  proof cases
    case 1
    obtain outcome effs warmed' where fin: "finalize_embed_route config failures (length texts) (Inr v) warmed = (outcome, effs, warmed')"
      by (cases "finalize_embed_route config failures (length texts) (Inr v) warmed")
    have "outcome = Outcome_Ok" using finalize_outcome [OF fin] by (simp add: classify_inference_outcome_def)
    then show ?thesis
      using 1 open_tx fin finalize_no_reply_mem [OF fin] by (auto simp: dispatch_embed_def embed_with_trt_retry_def)
  next
    case 2
    have "is_trt_shape_rejected (Context what (Rejection r))" by simp
    then show ?thesis
      using dispatch_embed_rejected [of s f r what tx config failures mk texts warmed] 2 assms(2) open_tx by auto
  qed
qed

lemma probe_batch_healthy:
  assumes "same_model env v E g h pj"
  shows "\<exists>p. run_probe_batch env texts = Inr p"
proof -
  have tok: "en_tokenizer env texts = Inr (E texts)" "length (E texts) = length texts" "list_all wf_encoding (E texts)"
    and ses: "session_contract (en_session env) v g h (length (pj_weight pj))"
    using assms by (simp_all add: same_model_def tokenizes_def)
  let ?lens = "map (\<lambda>e. length (enc_ids e)) (E texts)"
  define pad where "pad = max (case list_max ?lens of None \<Rightarrow> 1 | Some m \<Rightarrow> m) (Suc 0)"
  have "\<forall>i\<in>set [0..<length texts]. i < length (E texts) \<and> wf_encoding (E texts ! i) \<and> length (enc_ids (E texts ! i)) \<le> pad"
  proof
    fix i assume "i \<in> set [0..<length texts]"
    then have i: "i < length (E texts)" using tok(2) by simp
    then have "list_max ?lens = Some (Max (set ?lens))" by (intro list_max_eq_Max) auto
    moreover have "length (enc_ids (E texts ! i)) \<le> Max (set ?lens)" using i by (intro Max_ge) auto
    ultimately have "length (enc_ids (E texts ! i)) \<le> pad" by (simp only: pad_def option.case max.coboundedI1)
    then show "i < length (E texts) \<and> wf_encoding (E texts ! i) \<and> length (enc_ids (E texts ! i)) \<le> pad"
      using i tok(3) by (simp add: list_all_length)
  qed
  from build_chunk_arrays_ok [OF this] obtain ids am where a: "build_chunk_arrays (E texts) [0..<length texts] pad = Inr (ids, am)"
      "wf_array ids" "wf_array am" "arr_rows am = arr_rows ids" "arr_cols am = arr_cols ids"
    by force
  obtain outs where "en_session env ids am = Inr outs" using session_contractD [OF ses a(2-5)] by blast
  then show ?thesis
    using tok(1) a(1) by (simp add: run_probe_batch_def tokenize_no_pad_def probe_run_dense_def Let_def flip: pad_def)
qed

lemma dispatch_healthy:
  assumes m: "same_model env (wc_model_variant config) E g h pj"
  shows "\<exists>d. dispatch_request env config wid guard failures warmed r s = Some d \<and> (dp_skip d \<or> dp_outcome d \<noteq> TrtFatal) \<and>
    (\<forall>j rep. Reply j rep \<in> set (dp_effects d) \<longrightarrow> healthy_answer r rep)"
proof (cases r)
  case (Probe_Req texts tx)
  then show ?thesis using probe_batch_healthy [OF m, of texts] by auto
next
  case (AdaptiveWarmup_Req batch seq tx)
  then show ?thesis by (cases "prewarm_one env (batch, seq) s") (auto simp: Let_def)
next
  case (Dense_Req texts tx)
  then show ?thesis
    using dispatch_embed_healthy [OF sound_routes(1) [OF m, of "en_timing env" texts guard] route_contexts(1),
        of config failures Dense_Reply texts tx warmed s]
    by fastforce
next
  case (Sparse_Req texts tx)
  have "en_projection env = pj" using m by (simp add: same_model_def)
  then show ?thesis
    using Sparse_Req dispatch_embed_healthy [OF sound_routes(2) [OF m, of "en_timing env" texts guard] route_contexts(2),
        of config failures Sparse_Reply texts tx warmed s]
    by fastforce
next
  case (Both_Req texts tx)
  have "en_projection env = pj" using m by (simp add: same_model_def)
  then show ?thesis
    using Both_Req dispatch_embed_healthy [OF sound_routes(3) [OF m, of "en_timing env" texts guard] route_contexts(3),
        of config failures Both_Reply texts tx warmed s]
    by fastforce
qed

lemma load_error_healthy: "Reply j rep = reply_request_load_error r (Msg (''Model reload failed: '' @ e)) \<Longrightarrow> healthy_answer r rep"
  by (cases r) auto

lemma iteration_healthy:
  assumes m: "same_model env (wc_model_variant config) E g h pj"
  shows "\<exists>effs wk' s'. worker_iteration env config wid ns (Request r) wk s = (effs, Continue, wk', s') \<and>
    (\<forall>j rep. Reply j rep \<in> set effs \<longrightarrow> healthy_answer r rep)"
proof -
  have serve: "\<exists>effs wk' s'. serve_loaded env config wid r wk s = (effs, Continue, wk', s') \<and>
      (\<forall>j rep. Reply j rep \<in> set effs \<longrightarrow> healthy_answer r rep)" for wk s
  proof -
    obtain d where "dispatch_request env config wid (build_shape_guard config (sh_ceiling s)) (wk_failures wk) (wk_warmed_local wk) r s = Some d"
        "dp_skip d \<or> dp_outcome d \<noteq> TrtFatal" "\<forall>j rep. Reply j rep \<in> set (dp_effects d) \<longrightarrow> healthy_answer r rep"
      using dispatch_healthy [OF m] by blast
    then show ?thesis by (auto simp: serve_loaded_def Let_def)
  qed
  obtain wk1 s1 where d: "drain_peers env config ns wk s = (wk1, s1)" by (cases "drain_peers env config ns wk s")
  show ?thesis
  proof (cases "wk_models wk1")
    case True
    then show ?thesis using serve d by (simp add: worker_iteration_def)
  next
    case False
    then show ?thesis
      using serve d load_error_healthy by (cases "en_load env") (auto simp: worker_iteration_def)
  qed
qed

lemma variant_of_worker: "wc_model_variant (make_worker_config config n i) = wc_model_variant config"
  by (simp add: make_worker_config_def Let_def)

section \<open>Properties\<close>

text \<open>
  C13: a healthy pool answers every request. If the models of the workers keep their contract, no request makes a worker
  panic or leave its loop. From any reachable state, every run of the work of one serving worker (calls entering the
  channel, receiving, answering) ends after at most as many steps as the requests have left; and when that worker can do
  no more, every request that was on its way into the channel, in it, or with the worker has been answered,
  unless its client has gone: with a result of its own kind, a shape refusal or a failed reload, and nothing else.
\<close>

theorem healthy_worker_answers:
  assumes "server_flow_reachable env config n cm w f" and "i < n" and "pl_phases (rf_pool f) ! i = Serving wk"
    and "\<And>j. same_model (env j) (wc_model_variant config) E g h pj"
  shows "\<forall>k f'. (work_step (server_pass env config n) (queue_capacity n) i ^^ k) f f' \<longrightarrow> k \<le> remaining f \<and>
    ((\<nexists>f''. work_step (server_pass env config n) (queue_capacity n) i f' f'') \<longrightarrow>
       (\<forall>r\<in>set (rf_submitted f'). req_id r \<in> owed i f \<and> req_id r \<notin> rf_left f' \<longrightarrow>
          (\<exists>rep. call_result f' (req_id r) = Some (Inr rep) \<and> healthy_answer r rep)))"
proof (intro allI impI conjI ballI)
  let ?pass = "server_pass env config n" and ?cap = "queue_capacity n"
  fix k f'
  assume run: "(work_step ?pass ?cap i ^^ k) f f'"
  note inv = server_flow_inv [OF assms(1)]
  have stays: "\<exists>effs wk' s'. ?pass i ns (Request r) wk s = (effs, Continue, wk', s')" for ns r wk s
    using iteration_healthy [where config = "make_worker_config config n i", unfolded variant_of_worker, OF assms(4)]
    unfolding server_pass_def by blast
  have "\<not> receivers_gone (rf_pool f)" using gone_phase(1) [of "rf_pool f" i] assms(2,3) inv(4) by blast
  then have recv: "rf_receiver f" using inv(1) by (auto simp: places_inv_def)
  have cap: "0 < ?cap" using assms(2) by (simp add: queue_capacity_def)
  have len: "i < length (pl_phases (rf_pool f))" using inv(4) assms(2) by simp
  show "k \<le> remaining f" using flow.work_runs_end [OF run inv(2) recv cap stays len assms(3)] by simp
  fix r
  assume stuck: "\<nexists>f''. work_step ?pass ?cap i f' f''" and r: "r \<in> set (rf_submitted f')"
    and owed: "req_id r \<in> owed i f \<and> req_id r \<notin> rf_left f'"
  have fin: "req_id r \<in> set (rf_finished f')"
    using flow.work_settles [OF run stuck inv(2) recv cap stays len assms(3)] owed by blast
  have reach: "flow_reachable ?pass (server_start env config n) (make_worker_config config n) ?cap (flow_start n cm w) f'"
    using flow.work_run_reachable [OF run assms(1) [unfolded server_flow_reachable_def]] .
  note inv' = server_flow_inv [OF reach [folded server_flow_reachable_def]]
  obtain rep where rep: "reply_for (req_id r) (rf_effects f') = Some rep"
    using inv'(3) fin owed reply_for_None_iff [of "req_id r" "rf_effects f'"] by (auto simp: replies_inv_def)
  have healthy: "checked_workers ?pass (server_start env config n) (make_worker_config config n) healthy_answer"
  proof (rule checked_workers.intro [OF server_request_workers], unfold_locales)
    show "healthy_answer (close_tx r) = healthy_answer r" for r by (cases r) (auto simp: fun_eq_iff elim!: healthy_answer.elims)
    fix j ns r wk s effs ctl wk' s' m rep
    assume "?pass j ns (Request r) wk s = (effs, ctl, wk', s')" "Reply m rep \<in> set effs"
    then show "healthy_answer r rep"
      using iteration_healthy [where config = "make_worker_config config n j", unfolded variant_of_worker, OF assms(4), of j j ns r wk s]
      unfolding server_pass_def by auto
  qed
  obtain r' where r': "r' \<in> set (rf_submitted f')" "req_id r' = req_id r" "healthy_answer r' rep"
    using checked_workers.reachable_kept [OF healthy reach] reply_for_mem [OF rep]
    by (auto simp: checked_workers.kept_def [OF healthy])
  have "distinct (map req_id (rf_submitted f'))" using inv'(1) by (simp add: places_inv_def)
  then have "r' = r" using r'(1,2) r by (auto simp: distinct_map inj_on_def)
  then show "\<exists>rep. call_result f' (req_id r) = Some (Inr rep) \<and> healthy_answer r rep"
    using rep r'(3) by (auto simp: call_result_def)
qed

text \<open>A pool of one worker with the sample model, and its first call.\<close>

definition model_env :: "unit worker_env" where
  "model_env = sample_env\<lparr>en_load := Inr ()\<rparr>"

lemma model_env_same: "same_model model_env (wc_model_variant fatal_config) sample_encs sample_g sample_h sample_pj"
  using sample_contract sample_tokenizes
  by (simp add: same_model_def model_env_def sample_env_def fatal_config_def sample_config_def sample_pj_def)

lemma model_start:
  "server_start (\<lambda>i. model_env) fatal_config 1 0 s = (Startup_Ready 20, s)"
  by (simp add: server_start_def startup_worker_def prewarm_shard_def model_env_def fatal_config_def sample_env_def sample_config_def
      make_worker_config_def run_cache_gc_def Let_def)

theorem healthy_worker_answers_witness:
  "\<exists>f f' k rep. server_flow_reachable (\<lambda>i. model_env) fatal_config 1 (conservative 0) () f \<and> rf_sending f = [dense_call 0] \<and>
     (work_step (server_pass (\<lambda>i. model_env) fatal_config 1) (queue_capacity 1) 0 ^^ k) f f' \<and> k \<le> 3 \<and>
     call_result f' 0 = Some (Inr rep) \<and> healthy_answer (dense_call 0) rep"
proof -
  let ?f = "(flow_start 1 (conservative 0) ())\<lparr>rf_pool := started_pool (conservative 0) (), rf_submitted := [dense_call 0], rf_sending := [dense_call 0]\<rparr>"
  let ?step = "work_step (server_pass (\<lambda>i. model_env) fatal_config 1) (queue_capacity 1) 0"
  have r: "server_flow_reachable (\<lambda>i. model_env) fatal_config 1 (conservative 0) () ?f"
    using flow_one_call(1) [OF flow_one_worker [OF model_start], where k = 0] by (simp add: flow_start_def)
  obtain k f' where run: "(?step ^^ k) ?f f'" "\<nexists>f''. ?step f' f''" using work_run_maximal by blast
  have f': "rf_submitted f' = [dense_call 0]" "rf_left f' = {}"
    using work_run_clients [OF run(1)] by (simp_all add: flow_start_def)
  have serving: "pl_phases (rf_pool ?f) ! 0 = Serving fresh_worker" by simp
  have owed: "req_id (dense_call 0) \<in> owed 0 ?f" "req_id (dense_call 0) = 0" "remaining ?f = 3"
    by (simp_all add: owed_def req_id_def remaining_def flow_start_def)
  from healthy_worker_answers [OF r zero_less_one serving model_env_same, rule_format, OF run(1)] run(2) f' owed
  have "k \<le> 3" "\<exists>rep. call_result f' 0 = Some (Inr rep) \<and> healthy_answer (dense_call 0) rep" by auto
  moreover have "rf_sending ?f = [dense_call 0]" by simp
  ultimately show ?thesis using r run(1) by blast
qed

end
