(* ===== verification/Wire.thy ===== *)
theory Wire
  imports Handlers
begin

text \<open>
  The JSON side of \<open>src/models.rs\<close> and \<open>src/error.rs\<close>: what the derived \<open>Deserialize\<close> instances of the request types
  accept, what the derived \<open>Serialize\<close> instances of the response types write, and the body of an error. The
  text of a JSON value belongs to \<open>serde_json\<close>; here a body is the value it denotes, an object the list of its
  entries in the order of the text, repeated keys included. The text of a number, both ways, is \<open>serde_json\<close>'s too: a finite
  number is written as the value it has (the sign of a zero is not kept), any other as null. A client's reader of the responses is
  given beside the serialisers, to state what a response shows: the locale \<open>wire_codec\<close> holds the law between the two,
  interpreted for every response type and used for the routes in the root theory.
\<close>

section \<open>Reading requests\<close>

text \<open>
  This is the behaviour of \<open>serde\<close>'s derived visitor on the structs of \<open>models.rs\<close>. It collects the entries by name: a name it does not know is skipped, a repeated one is an
  error, a missing one is an error unless the field is an \<open>Option\<close>. The struct is also accepted as an array of
  its fields in order, all of them present.
\<close>

definition entries :: "string \<Rightarrow> (string \<times> json) list \<Rightarrow> json list" where
  "entries k fs = map snd (filter (\<lambda>f. fst f = k) fs)"

fun option_deserialize :: "(json \<Rightarrow> 'a option) \<Rightarrow> json \<Rightarrow> 'a option option" where
  "option_deserialize de JNull = Some None"
| "option_deserialize de j = map_option Some (de j)"

definition required_field :: "(json \<Rightarrow> 'a option) \<Rightarrow> string \<Rightarrow> (string \<times> json) list \<Rightarrow> 'a option" where
  "required_field de k fs = (case entries k fs of [v] \<Rightarrow> de v | _ \<Rightarrow> None)"

definition optional_field :: "(json \<Rightarrow> 'a option) \<Rightarrow> string \<Rightarrow> (string \<times> json) list \<Rightarrow> 'a option option" where
  "optional_field de k fs = (case entries k fs of [] \<Rightarrow> Some None | [v] \<Rightarrow> option_deserialize de v | _ \<Rightarrow> None)"

definition build2 :: "('a \<Rightarrow> 'b \<Rightarrow> 'c) \<Rightarrow> 'a option \<Rightarrow> 'b option \<Rightarrow> 'c option" where
  "build2 f x y = (case (x, y) of (Some a, Some b) \<Rightarrow> Some (f a b) | _ \<Rightarrow> None)"

definition dense_request_deserialize :: "json \<Rightarrow> dense_request option" where
  "dense_request_deserialize j =
     (case j of
        JObj fs \<Rightarrow> build2 (\<lambda>input model. \<lparr>dr_input = input, dr_model = model\<rparr>)
          (required_field text_input_deserialize ''input'' fs) (optional_field json_string ''model'' fs)
      | JArr [i, m] \<Rightarrow> build2 (\<lambda>input model. \<lparr>dr_input = input, dr_model = model\<rparr>)
          (text_input_deserialize i) (option_deserialize json_string m)
      | _ \<Rightarrow> None)"

definition sparse_request_deserialize :: "json \<Rightarrow> sparse_request option" where
  "sparse_request_deserialize j =
     (case j of
        JObj fs \<Rightarrow> map_option (\<lambda>input. \<lparr>sr_input = input\<rparr>) (required_field text_input_deserialize ''input'' fs)
      | JArr [i] \<Rightarrow> map_option (\<lambda>input. \<lparr>sr_input = input\<rparr>) (text_input_deserialize i)
      | _ \<Rightarrow> None)"

definition dual_request_deserialize :: "json \<Rightarrow> dual_request option" where
  "dual_request_deserialize j =
     (case j of
        JObj fs \<Rightarrow> build2 (\<lambda>input model. \<lparr>ur_input = input, ur_model = model\<rparr>)
          (required_field text_input_deserialize ''input'' fs) (optional_field json_string ''model'' fs)
      | JArr [i, m] \<Rightarrow> build2 (\<lambda>input model. \<lparr>ur_input = input, ur_model = model\<rparr>)
          (text_input_deserialize i) (option_deserialize json_string m)
      | _ \<Rightarrow> None)"

section \<open>Writing responses\<close>

text \<open>
  A derived struct serialiser writes the fields in the order of the declaration. A number is written as the
  shortest text that reads back as the same \<open>f32\<close>, hence as the value itself; one that is not finite is written as null.
\<close>

definition usage_serialize :: "usage \<Rightarrow> json" where
  "usage_serialize u = JObj [(''prompt_tokens'', JNum (us_prompt_tokens u)), (''total_tokens'', JNum (us_total_tokens u))]"

definition dense_embedding_data_serialize :: "dense_embedding_data \<Rightarrow> json" where
  "dense_embedding_data_serialize d =
     JObj [(''object'', JStr (dd_object d)), (''index'', JNum (dd_index d)),
           (''embedding'', JArr (map json_f64 (dd_embedding d)))]"

definition dense_response_serialize :: "dense_response \<Rightarrow> json" where
  "dense_response_serialize r =
     JObj [(''object'', JStr (ds_object r)), (''model'', JStr (ds_model r)),
           (''data'', JArr (map dense_embedding_data_serialize (ds_data r))), (''usage'', usage_serialize (ds_usage r))]"

definition sparse_values_serialize :: "sparse_values \<Rightarrow> json" where
  "sparse_values_serialize v =
     JObj [(''indices'', JArr (map (\<lambda>i. JNum (unat i)) (sv_indices v))), (''values'', JArr (map json_f64 (sv_values v)))]"

definition sparse_embedding_data_serialize :: "sparse_embedding_data \<Rightarrow> json" where
  "sparse_embedding_data_serialize d =
     JObj [(''index'', JNum (sd_index d)), (''sparse_values'', sparse_values_serialize (sd_sparse_values d))]"

definition sparse_response_serialize :: "sparse_response \<Rightarrow> json" where
  "sparse_response_serialize r = JObj [(''data'', JArr (map sparse_embedding_data_serialize (ss_data r)))]"

definition dual_embedding_data_serialize :: "dual_embedding_data \<Rightarrow> json" where
  "dual_embedding_data_serialize d =
     JObj [(''index'', JNum (ud_index d)), (''embedding'', JArr (map json_f64 (ud_embedding d))),
           (''sparse_values'', sparse_values_serialize (ud_sparse_values d))]"

definition dual_response_serialize :: "dual_response \<Rightarrow> json" where
  "dual_response_serialize r =
     JObj [(''object'', JStr (uo_object r)), (''model'', JStr (uo_model r)),
           (''data'', JArr (map dual_embedding_data_serialize (uo_data r))), (''usage'', usage_serialize (uo_usage r))]"

definition model_entry_serialize :: "model_entry \<Rightarrow> json" where
  "model_entry_serialize m = JObj [(''id'', JStr (me_id m)), (''object'', JStr (me_object m))]"

definition models_response_serialize :: "models_response \<Rightarrow> json" where
  "models_response_serialize r =
     JObj [(''object'', JStr (mr_object r)), (''data'', JArr (map model_entry_serialize (mr_data r)))]"

definition error_body :: "app_error \<Rightarrow> json" where
  "error_body err =
     (let e = into_response err in
      JObj [(''error'', JObj [(''message'', JStr (error_message e)), (''type'', JStr (error_type e)),
                              (''code'', JNum (error_code e))])])"

section \<open>A client's reader\<close>

text \<open>The shape a client relies on: the named fields with the right types. It is the specification of the serialisers.\<close>

fun read_f32 :: "json \<Rightarrow> fl option" where
  "read_f32 (JFloat x) = Some (Fin x)"
| "read_f32 _ = None"

fun read_nat :: "json \<Rightarrow> nat option" where
  "read_nat (JNum n) = Some n"
| "read_nat _ = None"

fun read_u32 :: "json \<Rightarrow> 32 word option" where
  "read_u32 (JNum n) = (if n < 2 ^ 32 then Some (word_of_nat n) else None)"
| "read_u32 _ = None"

fun read_list :: "(json \<Rightarrow> 'a option) \<Rightarrow> json \<Rightarrow> 'a list option" where
  "read_list de (JArr vs) = those (map de vs)"
| "read_list de _ = None"

definition read_usage :: "json \<Rightarrow> usage option" where
  "read_usage j = build2 (\<lambda>p t. \<lparr>us_prompt_tokens = p, us_total_tokens = t\<rparr>)
     (read_nat (json_index j ''prompt_tokens'')) (read_nat (json_index j ''total_tokens''))"

definition read_dense_data :: "json \<Rightarrow> dense_embedding_data option" where
  "read_dense_data j = build2 (\<lambda>f e. f e)
     (build2 (\<lambda>ob ix e. \<lparr>dd_object = ob, dd_index = ix, dd_embedding = e\<rparr>)
        (json_string (json_index j ''object'')) (read_nat (json_index j ''index'')))
     (read_list read_f32 (json_index j ''embedding''))"

definition read_dense_response :: "json \<Rightarrow> dense_response option" where
  "read_dense_response j = build2 (\<lambda>f g. f (fst g) (snd g))
     (build2 (\<lambda>ob md d u. \<lparr>ds_object = ob, ds_model = md, ds_data = d, ds_usage = u\<rparr>)
        (json_string (json_index j ''object'')) (json_string (json_index j ''model'')))
     (build2 Pair (read_list read_dense_data (json_index j ''data'')) (read_usage (json_index j ''usage'')))"

definition read_sparse_values :: "json \<Rightarrow> sparse_values option" where
  "read_sparse_values j = build2 (\<lambda>ix vs. \<lparr>sv_indices = ix, sv_values = vs\<rparr>)
     (read_list read_u32 (json_index j ''indices'')) (read_list read_f32 (json_index j ''values''))"

definition read_sparse_data :: "json \<Rightarrow> sparse_embedding_data option" where
  "read_sparse_data j = build2 (\<lambda>ix sv. \<lparr>sd_index = ix, sd_sparse_values = sv\<rparr>)
     (read_nat (json_index j ''index'')) (read_sparse_values (json_index j ''sparse_values''))"

definition read_sparse_response :: "json \<Rightarrow> sparse_response option" where
  "read_sparse_response j = map_option (\<lambda>d. \<lparr>ss_data = d\<rparr>) (read_list read_sparse_data (json_index j ''data''))"

definition read_dual_data :: "json \<Rightarrow> dual_embedding_data option" where
  "read_dual_data j = build2 (\<lambda>f sv. f sv)
     (build2 (\<lambda>ix e sv. \<lparr>ud_index = ix, ud_embedding = e, ud_sparse_values = sv\<rparr>)
        (read_nat (json_index j ''index'')) (read_list read_f32 (json_index j ''embedding'')))
     (read_sparse_values (json_index j ''sparse_values''))"

definition read_dual_response :: "json \<Rightarrow> dual_response option" where
  "read_dual_response j = build2 (\<lambda>f g. f (fst g) (snd g))
     (build2 (\<lambda>ob md d u. \<lparr>uo_object = ob, uo_model = md, uo_data = d, uo_usage = u\<rparr>)
        (json_string (json_index j ''object'')) (json_string (json_index j ''model'')))
     (build2 Pair (read_list read_dual_data (json_index j ''data'')) (read_usage (json_index j ''usage'')))"

text \<open>The values that survive the trip: every number finite.\<close>

abbreviation all_finite :: "fl list \<Rightarrow> bool" where
  "all_finite \<equiv> list_all fl_is_finite"

definition sparse_finite :: "sparse_values \<Rightarrow> bool" where
  "sparse_finite v \<longleftrightarrow> all_finite (sv_values v)"

definition dense_finite :: "dense_embedding_data \<Rightarrow> bool" where
  "dense_finite d \<longleftrightarrow> all_finite (dd_embedding d)"

definition dual_finite :: "dual_embedding_data \<Rightarrow> bool" where
  "dual_finite d \<longleftrightarrow> all_finite (ud_embedding d) \<and> sparse_finite (ud_sparse_values d)"

section \<open>The law between writer and reader\<close>

locale wire_codec =
  fixes exact :: "'a \<Rightarrow> bool" and put :: "'a \<Rightarrow> json" and get :: "json \<Rightarrow> 'a option"
  assumes get_put: "get (put x) = (if exact x then Some x else None)"
begin

lemma get_list_put: "read_list get (JArr (map put xs)) = (if list_all exact xs then Some xs else None)"
  by (induction xs) (auto simp: get_put)

lemma put_inj: "exact x \<Longrightarrow> exact y \<Longrightarrow> put x = put y \<Longrightarrow> x = y"
  by (metis get_put option.inject)

end

lemma build2_simps [simp]:
  "build2 f (Some a) (Some b) = Some (f a b)" "build2 f None y = None" "build2 f x None = None"
  by (simp_all add: build2_def split: option.split)

interpretation number: wire_codec fl_is_finite json_f64 read_f32
  by unfold_locales (case_tac x; simp)

interpretation token: wire_codec "\<lambda>_. True" "\<lambda>i. JNum (unat i)" read_u32
proof unfold_locales
  fix x :: "32 word"
  show "read_u32 (JNum (unat x)) = (if True then Some x else None)" using unsigned_less [of x, where ?'a = nat] by simp
qed

interpretation sparse_vec: wire_codec sparse_finite sparse_values_serialize read_sparse_values
  by unfold_locales
    (simp add: sparse_values_serialize_def read_sparse_values_def number.get_list_put token.get_list_put
      sparse_finite_def list_all_iff del: read_list.simps)

interpretation dense_entry: wire_codec dense_finite dense_embedding_data_serialize read_dense_data
  by unfold_locales
    (simp add: dense_embedding_data_serialize_def read_dense_data_def number.get_list_put dense_finite_def
      del: read_list.simps)

interpretation sparse_entry: wire_codec "\<lambda>d. sparse_finite (sd_sparse_values d)" sparse_embedding_data_serialize read_sparse_data
  by unfold_locales (simp add: sparse_embedding_data_serialize_def read_sparse_data_def sparse_vec.get_put)

interpretation dual_entry: wire_codec dual_finite dual_embedding_data_serialize read_dual_data
  by unfold_locales
    (simp add: dual_embedding_data_serialize_def read_dual_data_def number.get_list_put sparse_vec.get_put
      dual_finite_def del: read_list.simps)

lemma usage_read [simp]: "read_usage (usage_serialize u) = Some u"
  by (simp add: usage_serialize_def read_usage_def)

interpretation dense_wire: wire_codec "\<lambda>r. list_all dense_finite (ds_data r)" dense_response_serialize read_dense_response
  by unfold_locales
    (simp add: dense_response_serialize_def read_dense_response_def dense_entry.get_list_put del: read_list.simps)

interpretation sparse_wire: wire_codec "\<lambda>r. list_all (\<lambda>d. sparse_finite (sd_sparse_values d)) (ss_data r)"
    sparse_response_serialize read_sparse_response
  by unfold_locales
    (simp add: sparse_response_serialize_def read_sparse_response_def sparse_entry.get_list_put del: read_list.simps)

interpretation dual_wire: wire_codec "\<lambda>r. list_all dual_finite (uo_data r)" dual_response_serialize read_dual_response
  by unfold_locales
    (simp add: dual_response_serialize_def read_dual_response_def dual_entry.get_list_put del: read_list.simps)

end
