(* ===== verification/Http_Service.thy ===== *)
theory Http_Service
  imports Wire Bootstrap
begin

text \<open>
  The HTTP service of \<open>src/bootstrap/router.rs\<close>: the routes, the JSON extractor in front of the handlers, and the four
  layers around them in the order of the source. The layers of \<open>tower-http\<close>, the extractor and the rejections of
  \<open>axum\<close> are the parameter \<open>web\<close>; what the source relies on of them is \<open>layers_documented\<close> and \<open>rejections_documented\<close>.
\<close>

section \<open>Requests and replies\<close>

text \<open>
  Header names are in lower case, as the HTTP library keeps them. The body limit travels with the request (an
  extension), because the extractor enforces it.
\<close>

record http_request =
  rq_method :: string
  rq_uri :: string
  rq_path :: string
  rq_version :: string
  rq_headers :: "(string \<times> string) list"
  rq_body :: string
  rq_body_limit :: "nat option"

datatype reply_content = Json_Content json | Other_Content string

record wire_reply =
  wr_status :: nat
  wr_headers :: "(string \<times> string) list"
  wr_content :: reply_content

type_synonym service = "http_request \<Rightarrow> wire_reply"

abbreviation header_get :: "string \<Rightarrow> (string \<times> string) list \<Rightarrow> string option" where
  "header_get name headers \<equiv> map_of headers name"

definition header_insert :: "string \<Rightarrow> string \<Rightarrow> (string \<times> string) list \<Rightarrow> (string \<times> string) list" where
  "header_insert name value headers = filter (\<lambda>h. fst h \<noteq> name) headers @ [(name, value)]"

abbreviation X_REQUEST_ID :: string where
  "X_REQUEST_ID \<equiv> ''x-request-id''"

datatype span_level = Debug_Span | Info_Span

record span =
  sn_level :: span_level
  sn_method :: string
  sn_uri :: string
  sn_version :: string

text \<open>
  The libraries: the extractor up to the JSON value, the reply to a value of the wrong shape, to an unknown path, to a
  method without a handler, the reply to \<open>HEAD\<close> from the one to \<open>GET\<close>, \<open>HeaderValue::from_str\<close>, and the layers.
\<close>

record web =
  wb_json :: "http_request \<Rightarrow> (wire_reply, json) result"
  wb_data_error :: "json \<Rightarrow> wire_reply"
  wb_no_route :: wire_reply
  wb_no_method :: wire_reply
  wb_head :: "wire_reply \<Rightarrow> wire_reply"
  wb_header_value :: "string \<Rightarrow> string option"
  wb_set_request_id :: "(http_request \<Rightarrow> string option) \<Rightarrow> service \<Rightarrow> service"
  wb_trace :: "(http_request \<Rightarrow> span) \<Rightarrow> service \<Rightarrow> service"
  wb_propagate_request_id :: "service \<Rightarrow> service"
  wb_body_limit :: "nat \<Rightarrow> service \<Rightarrow> service"

section \<open>The service\<close>

definition make_request_id :: "web \<Rightarrow> string \<Rightarrow> http_request \<Rightarrow> string option" where
  "make_request_id w uuid request = (let id = uuid in wb_header_value w id)"

definition make_span :: "http_request \<Rightarrow> span" where
  "make_span request =
     (let path = rq_path request; method = rq_method request
      in if is_noisy path
         then \<lparr>sn_level = Debug_Span, sn_method = method, sn_uri = rq_uri request, sn_version = rq_version request\<rparr>
         else \<lparr>sn_level = Info_Span, sn_method = method, sn_uri = rq_uri request, sn_version = rq_version request\<rparr>)"

definition json_reply :: "nat \<Rightarrow> json \<Rightarrow> wire_reply" where
  "json_reply code j =
     \<lparr>wr_status = code, wr_headers = [(''content-type'', ''application/json'')], wr_content = Json_Content j\<rparr>"

definition error_reply :: "app_error \<Rightarrow> wire_reply" where
  "error_reply err = json_reply (http_status (into_response err)) (error_body err)"

definition health_reply :: "http_response \<Rightarrow> wire_reply" where
  "health_reply r = json_reply (hr_status r) (hr_body r)"

text \<open>A handler that takes \<open>Json<T>\<close> and returns \<open>Result<Json<R>, AppError>\<close>: the extractor runs before the handler does.\<close>

definition json_handler ::
  "web \<Rightarrow> (json \<Rightarrow> 'q option) \<Rightarrow> ('q \<Rightarrow> (app_error, 'r) result) \<Rightarrow> ('r \<Rightarrow> json) \<Rightarrow> service" where
  "json_handler w deserialize h serialize req =
     (case wb_json w req of
        Inl rejection \<Rightarrow> rejection
      | Inr j \<Rightarrow> (case deserialize j of
            None \<Rightarrow> wb_data_error w j
          | Some q \<Rightarrow> (case h q of Inl e \<Rightarrow> error_reply e | Inr r \<Rightarrow> json_reply 200 (serialize r))))"

fun call_endpoint :: "web \<Rightarrow> app_state \<Rightarrow> bool \<Rightarrow> endpoint \<Rightarrow> service" where
  "call_endpoint w st elapsed Dense_Endpoint req =
     json_handler w dense_request_deserialize (dense_embeddings st) dense_response_serialize req"
| "call_endpoint w st elapsed Sparse_Endpoint req =
     json_handler w sparse_request_deserialize (sparse_embeddings st) sparse_response_serialize req"
| "call_endpoint w st elapsed Both_Endpoint req =
     json_handler w dual_request_deserialize (both_embeddings st) dual_response_serialize req"
| "call_endpoint w st elapsed Models_Endpoint req = json_reply 200 (models_response_serialize models)"
| "call_endpoint w st elapsed Health_Endpoint req = health_reply (health st)"
| "call_endpoint w st elapsed Deep_Endpoint req = health_reply (health_deep elapsed st)"

text \<open>A path matches byte for byte; \<open>get\<close> also answers \<open>HEAD\<close>, without the body.\<close>

definition route_request :: "web \<Rightarrow> app_state \<Rightarrow> bool \<Rightarrow> service" where
  "route_request w st elapsed req =
     (case map_of build_router (rq_path req) of
        None \<Rightarrow> wb_no_route w
      | Some (POST, e) \<Rightarrow>
          (if rq_method req = ''POST'' then call_endpoint w st elapsed e req else wb_no_method w)
      | Some (GET, e) \<Rightarrow>
          (if rq_method req = ''GET'' then call_endpoint w st elapsed e req
           else if rq_method req = ''HEAD'' then wb_head w (call_endpoint w st elapsed e req)
           else wb_no_method w))"

text \<open>\<open>layer\<close> wraps what was built before it, so the last one of the source is the outermost.\<close>

definition router_service :: "web \<Rightarrow> app_state \<Rightarrow> bool \<Rightarrow> nat \<Rightarrow> string \<Rightarrow> service" where
  "router_service w st elapsed max_body_bytes uuid =
     (let routes = route_request w st elapsed;
          limited = wb_body_limit w max_body_bytes routes;
          propagated = wb_propagate_request_id w limited;
          traced = wb_trace w make_span propagated
      in wb_set_request_id w (make_request_id w uuid) traced)"

section \<open>What the libraries document\<close>

definition set_id_on :: "(http_request \<Rightarrow> string option) \<Rightarrow> http_request \<Rightarrow> http_request" where
  "set_id_on f req =
     (case (header_get X_REQUEST_ID (rq_headers req), f req) of
        (None, Some rid) \<Rightarrow> req\<lparr>rq_headers := header_insert X_REQUEST_ID rid (rq_headers req)\<rparr>
      | _ \<Rightarrow> req)"

definition copy_id_to :: "http_request \<Rightarrow> wire_reply \<Rightarrow> wire_reply" where
  "copy_id_to req r =
     (case (header_get X_REQUEST_ID (rq_headers req), header_get X_REQUEST_ID (wr_headers r)) of
        (Some rid, None) \<Rightarrow> r\<lparr>wr_headers := header_insert X_REQUEST_ID rid (wr_headers r)\<rparr>
      | _ \<Rightarrow> r)"

text \<open>
  \<open>SetRequestIdLayer\<close> adds an id to a request that has none, \<open>PropagateRequestIdLayer\<close> copies the id of the request it sees
  to the reply, tracing changes neither, \<open>DefaultBodyLimit\<close> hands its limit to the extractors.
\<close>

definition layers_documented :: "web \<Rightarrow> bool" where
  "layers_documented w \<longleftrightarrow>
     (\<forall>f svc req. wb_set_request_id w f svc req = svc (set_id_on f req)) \<and>
     (\<forall>svc req. wb_propagate_request_id w svc req = copy_id_to req (svc req)) \<and>
     (\<forall>f svc req. wb_trace w f svc req = svc req) \<and>
     (\<forall>n svc req. wb_body_limit w n svc req = svc (req\<lparr>rq_body_limit := Some n\<rparr>))"

text \<open>
  The extractor refuses with 400 (syntax), 413 (length), 415 (content type) or 422 (shape), and always refuses a body above the
  limit; unknown paths are 404, missing methods 405. The replies the library makes carry no request id of their own.
\<close>

definition rejections_documented :: "web \<Rightarrow> bool" where
  "rejections_documented w \<longleftrightarrow>
     (\<forall>req rej. wb_json w req = Inl rej \<longrightarrow>
        wr_status rej \<in> {400, 413, 415, 422} \<and> header_get X_REQUEST_ID (wr_headers rej) = None) \<and>
     (\<forall>req n. rq_body_limit req = Some n \<and> n < length (rq_body req) \<longrightarrow>
        (\<exists>rej. wb_json w req = Inl rej \<and> wr_status rej \<in> {413, 415})) \<and>
     (\<forall>j. wr_status (wb_data_error w j) = 422 \<and> header_get X_REQUEST_ID (wr_headers (wb_data_error w j)) = None) \<and>
     wr_status (wb_no_route w) = 404 \<and> header_get X_REQUEST_ID (wr_headers (wb_no_route w)) = None \<and>
     wr_status (wb_no_method w) = 405 \<and> header_get X_REQUEST_ID (wr_headers (wb_no_method w)) = None \<and>
     (\<forall>r. wr_status (wb_head w r) = wr_status r \<and>
        header_get X_REQUEST_ID (wr_headers (wb_head w r)) = header_get X_REQUEST_ID (wr_headers r))"

section \<open>Facts\<close>

text \<open>The request the routes see.\<close>

definition seen_request :: "web \<Rightarrow> nat \<Rightarrow> string \<Rightarrow> http_request \<Rightarrow> http_request" where
  "seen_request w max_body_bytes uuid req =
     (set_id_on (make_request_id w uuid) req)\<lparr>rq_body_limit := Some max_body_bytes\<rparr>"

lemma header_get_insert [simp]: "header_get name (header_insert name v hs) = Some v"
  by (induction hs) (auto simp: header_insert_def)

lemma header_get_insert_other: "name \<noteq> name' \<Longrightarrow> header_get name (header_insert name' v hs) = header_get name hs"
  by (induction hs) (auto simp: header_insert_def)

lemma set_id_on_simps [simp]:
  "rq_path (set_id_on f req) = rq_path req" "rq_method (set_id_on f req) = rq_method req"
  "rq_body (set_id_on f req) = rq_body req"
  by (simp_all add: set_id_on_def split: option.split)

lemma copy_id_to_simps [simp]: "wr_status (copy_id_to req r) = wr_status r" "wr_content (copy_id_to req r) = wr_content r"
  by (simp_all add: copy_id_to_def split: option.split)

lemma router_service_layers:
  assumes "layers_documented w"
  shows "router_service w st elapsed n uuid req =
    copy_id_to (set_id_on (make_request_id w uuid) req) (route_request w st elapsed (seen_request w n uuid req))"
  using assms by (simp add: router_service_def layers_documented_def seen_request_def Let_def)

lemma json_reply_simps [simp]:
  "wr_status (json_reply code j) = code" "wr_content (json_reply code j) = Json_Content j"
  "header_get X_REQUEST_ID (wr_headers (json_reply code j)) = None"
  by (simp_all add: json_reply_def)

lemma error_reply_simps [simp]:
  "wr_status (error_reply e) = http_status (into_response e)" "header_get X_REQUEST_ID (wr_headers (error_reply e)) = None"
  by (simp_all add: error_reply_def)

lemma health_reply_simps [simp]:
  "wr_status (health_reply r) = hr_status r" "header_get X_REQUEST_ID (wr_headers (health_reply r)) = None"
  by (simp_all add: health_reply_def)

lemma rejection_code:
  assumes "rejections_documented w" and "wb_json w req = Inl rej"
  shows "wr_status rej \<in> {400, 413, 415, 422}"
  using assms unfolding rejections_documented_def by metis

lemma over_limit_rejected:
  assumes "rejections_documented w" and "rq_body_limit req = Some n" and "n < length (rq_body req)"
  shows "\<exists>rej. wb_json w req = Inl rej \<and> wr_status rej \<in> {413, 415}"
  using assms unfolding rejections_documented_def by metis

lemma json_handler_no_id:
  assumes "rejections_documented w"
  shows "header_get X_REQUEST_ID (wr_headers (json_handler w de h ser req)) = None"
  using assms by (auto simp: json_handler_def rejections_documented_def split: sum.split option.split)

lemma json_handler_status:
  assumes "rejections_documented w" and "wb_json w req = Inr j"
  shows "wr_status (json_handler w de h ser req) = (case de j of None \<Rightarrow> 422 | Some q \<Rightarrow> status_of (h q))"
  using assms by (auto simp: json_handler_def rejections_documented_def status_of_def split: sum.split option.split)

lemma route_no_id:
  assumes "rejections_documented w"
  shows "header_get X_REQUEST_ID (wr_headers (route_request w st elapsed req)) = None"
proof -
  have "header_get X_REQUEST_ID (wr_headers (call_endpoint w st elapsed e req)) = None" for e
    by (cases e) (simp_all add: json_handler_no_id [OF assms])
  then show ?thesis using assms
    by (auto simp: route_request_def rejections_documented_def split: option.split http_method.split)
qed

text \<open>The texts an embedding route takes from a body, and what it does with them.\<close>

fun request_texts :: "endpoint \<Rightarrow> json \<Rightarrow> string list option" where
  "request_texts Dense_Endpoint j = map_option dr_input (dense_request_deserialize j)"
| "request_texts Sparse_Endpoint j = map_option sr_input (sparse_request_deserialize j)"
| "request_texts Both_Endpoint j = map_option ur_input (dual_request_deserialize j)"
| "request_texts _ j = None"

fun pool_answers :: "app_state \<Rightarrow> endpoint \<Rightarrow> string list \<Rightarrow> (any_error, unit) result" where
  "pool_answers st Dense_Endpoint texts =
     map_sum id (\<lambda>_. ()) (pool_dense (ep_closed (as_pool st)) (ep_dense (as_pool st)) texts)"
| "pool_answers st Sparse_Endpoint texts =
     map_sum id (\<lambda>_. ()) (pool_sparse (ep_closed (as_pool st)) (ep_sparse (as_pool st)) texts)"
| "pool_answers st Both_Endpoint texts =
     map_sum id (\<lambda>_. ()) (pool_both (ep_closed (as_pool st)) (ep_both (as_pool st)) texts)"
| "pool_answers st _ texts = Inr ()"

lemma answer_status_map_sum: "answer_status st texts (map_sum id f r) = answer_status st texts r"
  by (cases r) (simp_all add: answer_status_def)

lemma handler_statuses:
  "status_of (dense_embeddings st dreq) = answer_status st (dr_input dreq) (pool_answers st Dense_Endpoint (dr_input dreq))"
  "status_of (sparse_embeddings st sreq) = answer_status st (sr_input sreq) (pool_answers st Sparse_Endpoint (sr_input sreq))"
  "status_of (both_embeddings st ureq) = answer_status st (ur_input ureq) (pool_answers st Both_Endpoint (ur_input ureq))"
  using endpoint_status [of st dreq sreq ureq] by (simp_all add: answer_status_map_sum)

definition is_embedding_route :: "endpoint \<Rightarrow> bool" where
  "is_embedding_route e \<longleftrightarrow> e \<in> {Dense_Endpoint, Sparse_Endpoint, Both_Endpoint}"

lemma embedding_status:
  assumes "rejections_documented w" and "wb_json w req = Inr j" and "is_embedding_route e"
  shows "wr_status (call_endpoint w st elapsed e req) =
    (case request_texts e j of None \<Rightarrow> 422 | Some texts \<Rightarrow> answer_status st texts (pool_answers st e texts))"
  using assms(3) unfolding is_embedding_route_def
  by (auto simp: json_handler_status [OF assms(1,2)] handler_statuses split: option.split simp del: pool_answers.simps)

lemma embedding_rejected:
  assumes "wb_json w req = Inl rej" and "is_embedding_route e"
  shows "call_endpoint w st elapsed e req = rej"
  using assms by (auto simp: is_embedding_route_def json_handler_def)

lemma post_routes: "map_of build_router path = Some (POST, e) \<Longrightarrow> is_embedding_route e"
  by (auto simp: build_router_def is_embedding_route_def split: if_splits)

text \<open>Behind the layers stands the endpoint of the route.\<close>

lemma embedding_reply:
  assumes "layers_documented w" and "map_of build_router (rq_path req) = Some (POST, e)" and "rq_method req = ''POST''"
  shows "wr_status (router_service w st elapsed n uuid req) = wr_status (call_endpoint w st elapsed e (seen_request w n uuid req))"
    "wr_content (router_service w st elapsed n uuid req) = wr_content (call_endpoint w st elapsed e (seen_request w n uuid req))"
proof -
  let ?s = "seen_request w n uuid req"
  have "rq_path ?s = rq_path req" "rq_method ?s = ''POST''" using assms(3) by (simp_all add: seen_request_def)
  then have "route_request w st elapsed ?s = call_endpoint w st elapsed e ?s" using assms(2) by (simp add: route_request_def)
  then show "wr_status (router_service w st elapsed n uuid req) = wr_status (call_endpoint w st elapsed e ?s)"
      "wr_content (router_service w st elapsed n uuid req) = wr_content (call_endpoint w st elapsed e ?s)"
    by (simp_all add: router_service_layers [OF assms(1)])
qed

text \<open>A request that decodes and is served is answered with the serialised response.\<close>

definition answered_with :: "wire_reply \<Rightarrow> json \<Rightarrow> bool" where
  "answered_with r out \<longleftrightarrow> wr_status r = 200 \<and> wr_content r = Json_Content out"

lemma json_handler_answer:
  assumes "wb_json w req = Inr j" and "de j = Some q" and "h q = Inr r"
  shows "answered_with (json_handler w de h ser req) (ser r)"
  using assms by (simp add: json_handler_def answered_with_def)

lemma wire_answer:
  assumes "layers_documented w" and "map_of build_router (rq_path req) = Some (POST, e)" and "rq_method req = ''POST''"
    and "answered_with (call_endpoint w st elapsed e (seen_request w n uuid req)) out"
  shows "answered_with (router_service w st elapsed n uuid req) out"
  using assms(4) embedding_reply [OF assms(1-3)] by (simp add: answered_with_def)

lemmas dense_answer = wire_answer [where e = Dense_Endpoint, unfolded call_endpoint.simps, OF _ _ _ json_handler_answer]
lemmas sparse_answer = wire_answer [where e = Sparse_Endpoint, unfolded call_endpoint.simps, OF _ _ _ json_handler_answer]
lemmas both_answer = wire_answer [where e = Both_Endpoint, unfolded call_endpoint.simps, OF _ _ _ json_handler_answer]

lemma answer_status_200: "answer_status st texts r = 200 \<longleftrightarrow>
    as_ready st \<and> live_worker_count (as_pool st) \<noteq> 0 \<and> valid_batch (as_max_batch st) texts \<and> (\<exists>v. r = Inr v)"
  by (auto simp: answer_status_def split: sum.split)

section \<open>Properties\<close>

text \<open>
  C9: every reply carries a request id, whatever the path, the method, the body and the state of the server: the client's
  own when it sent one, else the generated one; and the handlers, which log it, see the same id.
\<close>

theorem request_id_on_every_reply:
  assumes "layers_documented w" and "rejections_documented w" and "wb_header_value w uuid = Some uuid"
  shows "header_get X_REQUEST_ID (wr_headers (router_service w st elapsed n uuid req)) =
      Some (case header_get X_REQUEST_ID (rq_headers req) of Some own \<Rightarrow> own | None \<Rightarrow> uuid) \<and>
    header_get X_REQUEST_ID (rq_headers (seen_request w n uuid req)) =
      header_get X_REQUEST_ID (wr_headers (router_service w st elapsed n uuid req))"
  unfolding router_service_layers [OF assms(1)]
  using route_no_id [OF assms(2), of st elapsed "seen_request w n uuid req"]
  by (simp add: copy_id_to_def set_id_on_def seen_request_def make_request_id_def assms(3) split: option.split)

text \<open>
  C8: the code of every reply on an embedding path. Another method than \<open>POST\<close> gives 405; a body above the limit is refused with 413 (415 when
  its content type is wrong as well) and no handler sees it; what the extractor refuses is answered with its own code, and JSON of the wrong
  shape with 422, even while the server is still loading; only then the readiness, the batch and the pool decide. The reply is 200 exactly when the body
  decodes to a valid batch, the server is open with a live worker and the pool embeds that batch.
\<close>

theorem embedding_path_status:
  fixes w :: web and st :: app_state and elapsed :: bool and n :: nat and uuid :: string and req :: http_request
  assumes "layers_documented w" and "rejections_documented w" and "map_of build_router (rq_path req) = Some (POST, e)"
  defines "code \<equiv> wr_status (router_service w st elapsed n uuid req)" and "seen \<equiv> wb_json w (seen_request w n uuid req)"
  shows "(rq_method req \<noteq> ''POST'' \<longrightarrow> code = 405) \<and>
    (rq_method req = ''POST'' \<longrightarrow>
      (n < length (rq_body req) \<longrightarrow> code \<in> {413, 415}) \<and>
      (\<forall>rej. seen = Inl rej \<longrightarrow> code = wr_status rej) \<and>
      (\<forall>j. seen = Inr j \<longrightarrow> code =
         (case request_texts e j of None \<Rightarrow> 422 | Some texts \<Rightarrow> answer_status st texts (pool_answers st e texts)))) \<and>
    (code = 200 \<longleftrightarrow> rq_method req = ''POST'' \<and>
      (\<exists>j texts. seen = Inr j \<and> request_texts e j = Some texts \<and> as_ready st \<and> live_worker_count (as_pool st) \<noteq> 0 \<and>
         valid_batch (as_max_batch st) texts \<and> pool_answers st e texts = Inr ()))"
proof -
  let ?s = "seen_request w n uuid req"
  have code: "code = wr_status (route_request w st elapsed ?s)"
    by (simp add: code_def router_service_layers [OF assms(1)])
  have s: "rq_path ?s = rq_path req" "rq_method ?s = rq_method req" "rq_body ?s = rq_body req" "rq_body_limit ?s = Some n"
    by (simp_all add: seen_request_def)
  have other: "rq_method req \<noteq> ''POST'' \<Longrightarrow> code = 405"
    using assms(2,3) by (simp add: code route_request_def s rejections_documented_def)
  have post: "rq_method req = ''POST'' \<Longrightarrow> code = wr_status (call_endpoint w st elapsed e ?s)"
    using assms(3) by (simp add: code route_request_def s)
  note e = post_routes [OF assms(3)]
  have big: "n < length (rq_body req) \<Longrightarrow> \<exists>rej. seen = Inl rej \<and> wr_status rej \<in> {413, 415}"
    using over_limit_rejected [OF assms(2) s(4)] s(3) by (simp add: seen_def)
  have rej: "rq_method req = ''POST'' \<Longrightarrow> seen = Inl r \<Longrightarrow> code = wr_status r" for r
    using post embedding_rejected [OF _ e] by (simp add: seen_def)
  have acc: "rq_method req = ''POST'' \<Longrightarrow> seen = Inr j \<Longrightarrow> code =
      (case request_texts e j of None \<Rightarrow> 422 | Some texts \<Rightarrow> answer_status st texts (pool_answers st e texts))" for j
    using post embedding_status [OF assms(2) _ e] by (simp add: seen_def)
  have refused: "seen = Inl r \<Longrightarrow> wr_status r \<noteq> 200" for r
    by (auto simp: seen_def dest!: rejection_code [OF assms(2)])
  have ok: "code = 200 \<longleftrightarrow> rq_method req = ''POST'' \<and>
      (\<exists>j texts. seen = Inr j \<and> request_texts e j = Some texts \<and> answer_status st texts (pool_answers st e texts) = 200)"
  proof (cases seen)
    case (Inl r)
    then have "code \<noteq> 200" using other rej refused by (cases "rq_method req = ''POST''") auto
    then show ?thesis using Inl by simp
  next
    case (Inr j)
    show ?thesis
    proof (cases "rq_method req = ''POST''")
      case True
      then show ?thesis using Inr acc [OF True Inr] by (cases "request_texts e j") auto
    qed (use other in simp)
  qed
  have limit: "rq_method req = ''POST'' \<Longrightarrow> n < length (rq_body req) \<Longrightarrow> code \<in> {413, 415}"
    using big rej by metis
  have "code = 200 \<longleftrightarrow> rq_method req = ''POST'' \<and>
      (\<exists>j texts. seen = Inr j \<and> request_texts e j = Some texts \<and> as_ready st \<and> live_worker_count (as_pool st) \<noteq> 0 \<and>
         valid_batch (as_max_batch st) texts \<and> pool_answers st e texts = Inr ())"
    unfolding ok answer_status_200 by simp
  then show ?thesis using other rej acc limit by blast
qed

text \<open>A library that behaves as documented, and a request without an id.\<close>

definition sample_body :: json where
  "sample_body = JObj [(''input'', JArr [JStr ''ab'', JStr ''c''])]"

definition sample_json :: "http_request \<Rightarrow> (wire_reply, json) result" where
  "sample_json req =
     (if (case rq_body_limit req of Some n \<Rightarrow> n < length (rq_body req) | None \<Rightarrow> False)
      then Inl \<lparr>wr_status = 413, wr_headers = [], wr_content = Other_Content ''length limit exceeded''\<rparr>
      else if rq_body req = ''{\"input\":[\"ab\",\"c\"]}'' then Inr sample_body
      else Inl \<lparr>wr_status = 400, wr_headers = [], wr_content = Other_Content ''syntax error''\<rparr>)"

definition sample_web :: web where
  "sample_web =
     \<lparr>wb_json = sample_json,
      wb_data_error = (\<lambda>j. \<lparr>wr_status = 422, wr_headers = [], wr_content = Other_Content ''data error''\<rparr>),
      wb_no_route = \<lparr>wr_status = 404, wr_headers = [], wr_content = Other_Content []\<rparr>,
      wb_no_method = \<lparr>wr_status = 405, wr_headers = [(''allow'', ''POST'')], wr_content = Other_Content []\<rparr>,
      wb_head = (\<lambda>r. r\<lparr>wr_content := Other_Content []\<rparr>),
      wb_header_value = (\<lambda>s. if list_all is_visible_ascii s then Some s else None),
      wb_set_request_id = (\<lambda>f svc req. svc (set_id_on f req)),
      wb_trace = (\<lambda>f svc req. svc req),
      wb_propagate_request_id = (\<lambda>svc req. copy_id_to req (svc req)),
      wb_body_limit = (\<lambda>n svc req. svc (req\<lparr>rq_body_limit := Some n\<rparr>))\<rparr>"

definition sample_post :: "string \<Rightarrow> http_request" where
  "sample_post path =
     \<lparr>rq_method = ''POST'', rq_uri = path, rq_path = path, rq_version = ''HTTP/1.1'',
      rq_headers = [(''content-type'', ''application/json'')], rq_body = ''{\"input\":[\"ab\",\"c\"]}'', rq_body_limit = None\<rparr>"

lemma sample_web_documented: "layers_documented sample_web" "rejections_documented sample_web"
  by (auto simp: layers_documented_def rejections_documented_def sample_web_def sample_json_def split: option.split)

lemma sample_header_value: "wb_header_value sample_web ''7f3a'' = Some ''7f3a''"
  by (simp add: sample_web_def is_visible_ascii_def)

theorem request_id_on_every_reply_witness:
  "header_get X_REQUEST_ID (wr_headers (router_service sample_web sample_state False 1000 ''7f3a'' (sample_post ''/nowhere''))) =
     Some ''7f3a''"
  using request_id_on_every_reply [OF sample_web_documented sample_header_value, of sample_state False 1000 "sample_post ''/nowhere''"]
  by (simp add: sample_post_def)

lemma sample_seen: "20 \<le> n \<Longrightarrow> wb_json sample_web (seen_request sample_web n uuid (sample_post path)) = Inr sample_body"
  by (simp add: sample_web_def sample_json_def seen_request_def sample_post_def set_id_on_def split: option.split)

lemma sample_decoded:
  "dense_request_deserialize sample_body = Some \<lparr>dr_input = [''ab'', ''c''], dr_model = None\<rparr>"
  "sparse_request_deserialize sample_body = Some \<lparr>sr_input = [''ab'', ''c'']\<rparr>"
  "dual_request_deserialize sample_body = Some \<lparr>ur_input = [''ab'', ''c''], ur_model = None\<rparr>"
  by (simp_all add: sample_body_def dense_request_deserialize_def sparse_request_deserialize_def dual_request_deserialize_def
      required_field_def optional_field_def entries_def)

lemma sample_state_parts:
  "as_pool sample_state = sample_pool" "as_max_batch sample_state = 256" "\<not> as_ready sample_state"
  by (simp_all add: sample_state_def)

theorem embedding_path_status_witness:
  "wr_status (router_service sample_web (sample_state\<lparr>as_ready := True\<rparr>) False 1000 ''7f3a'' (sample_post ''/v1/embeddings'')) = 200 \<and>
   wr_status (router_service sample_web sample_state False 1000 ''7f3a'' (sample_post ''/v1/embeddings'')) = 503 \<and>
   wr_status (router_service sample_web sample_state False 10 ''7f3a'' (sample_post ''/v1/embeddings'')) \<in> {413, 415}"
proof -
  let ?req = "sample_post ''/v1/embeddings''"
  have r: "map_of build_router (rq_path ?req) = Some (POST, Dense_Endpoint)" "rq_method ?req = ''POST''" "length (rq_body ?req) = 20"
    by (simp_all add: sample_post_def build_router_def)
  note st = embedding_path_status [OF sample_web_documented r(1), where elapsed = False and uuid = "''7f3a''"]
  note seen = sample_seen [of 1000 "''7f3a''" "''/v1/embeddings''"]
  have v: "valid_batch 256 [''ab'', ''c'']"
    by (simp add: valid_batch_def char_count_def MAX_STRING_CHARS_def is_continuation_byte_def)
  have p: "live_worker_count sample_pool = 2" "pool_answers sample_state Dense_Endpoint texts = Inr ()"
      "pool_answers (sample_state\<lparr>as_ready := True\<rparr>) Dense_Endpoint texts = Inr ()" for texts
    by (simp_all add: live_worker_count_def sample_pool_def sample_state_def pool_dense_def pool_call_def)
  show ?thesis
    using st [where st = "sample_state\<lparr>as_ready := True\<rparr>" and n = 1000] st [where st = sample_state and n = 1000]
      st [where st = sample_state and n = 10] r(2,3) seen sample_decoded(1) p v
    by (simp add: answer_status_def sample_state_parts del: pool_answers.simps)
qed

end
