(* ===== verification/Norm_Bounds.thy ===== *)
theory Norm_Bounds
  imports Embed_Math
begin

text \<open>
  The arithmetic of the L2 normalisation (\<open>src/embedder/math.rs\<close>) in \<open>f32\<close>, rounding, underflow and overflow
  included: a finite vector stays finite, and a vector of moderate components comes out with length 1 up
  to the rounding errors of its sum of squares, of the root and of the divisions.
\<close>

section \<open>Bounds on the rounded root and on rounded values\<close>

lemma rat_sqrt_round_ge:
  assumes "pow2 (2 * j) \<le> x" and "emin \<le> j" and "0 < p"
  shows "pow2 j \<le> rat_sqrt_round p emin x"
proof -
  define q where "q = max (ilog2 x div 2 - int p + 1) emin"
  define m where "m = int (isqrt (nat \<lfloor>x / (pow2 q * pow2 q)\<rfloor>))"
  have x: "0 < x" using assms(1) pow2_pos order_less_le_trans by blast
  have root: "of_int k \<le> (of_int m :: rat)" if "0 \<le> k" "of_int (k * k) \<le> x / (pow2 q * pow2 q)" for k
  proof (rule ccontr)
    assume "\<not> of_int k \<le> (of_int m :: rat)"
    then have "m + 1 \<le> k" by simp
    have "k * k \<le> \<lfloor>x / (pow2 q * pow2 q)\<rfloor>" using that(2) by (simp only: le_floor_iff)
    then have "nat (k * k) \<le> nat \<lfloor>x / (pow2 q * pow2 q)\<rfloor>" by (rule nat_mono)
    then have "nat (k * k) < (isqrt (nat \<lfloor>x / (pow2 q * pow2 q)\<rfloor>) + 1) ^ 2"
      using isqrt_bounds [of "nat \<lfloor>x / (pow2 q * pow2 q)\<rfloor>"] by linarith
    then have "int (nat (k * k)) < int ((isqrt (nat \<lfloor>x / (pow2 q * pow2 q)\<rfloor>) + 1) ^ 2)" by (simp only: of_nat_less_iff)
    then have "k * k < (m + 1) * (m + 1)" by (simp add: m_def power2_eq_square algebra_simps)
    moreover have "(m + 1) * (m + 1) \<le> k * k" using \<open>m + 1 \<le> k\<close> by (intro mult_mono) (auto simp: m_def)
    ultimately show False by simp
  qed
  have pick: "of_int m * pow2 q \<le> rat_sqrt_round p emin x"
  proof -
    have "\<not> x \<le> 0" using x by simp
    then have "\<exists>k\<ge>m. rat_sqrt_round p emin x = of_int k * pow2 q"
      unfolding rat_sqrt_round_def Let_def q_def [symmetric] m_def [symmetric] by auto
    then show ?thesis by (auto intro!: mult_right_mono)
  qed
  have sq: "pow2 (2 * i) = pow2 i * pow2 i" for i by (simp add: pow2_add [symmetric])
  show ?thesis
  proof (cases "q \<le> j")
    case True
    have g: "pow2 j = of_int (2 ^ nat (j - q)) * pow2 q" using pow2_diff_int [OF True] by (simp add: field_simps)
    have "of_int (2 ^ nat (j - q) * 2 ^ nat (j - q)) * (pow2 q * pow2 q) \<le> x"
      using assms(1) by (simp add: sq g mult.assoc mult.left_commute)
    then have "of_int (2 ^ nat (j - q) * 2 ^ nat (j - q)) \<le> x / (pow2 q * pow2 q)" by (simp add: pos_le_divide_eq)
    then have "of_int (2 ^ nat (j - q)) \<le> (of_int m :: rat)" by (intro root) auto
    then have "pow2 j \<le> of_int m * pow2 q" unfolding g by (intro mult_right_mono) auto
    then show ?thesis using pick by simp
  next
    case False
    then have "q = ilog2 x div 2 - int p + 1" using assms(2) by (auto simp: q_def)
    then have "2 * q \<le> ilog2 x" using assms(3) by linarith
    then have "pow2 q * pow2 q \<le> x" using pow2_mono [of "2 * q" "ilog2 x"] ilog2_bounds(1) [OF x] by (simp add: sq)
    then have "of_int (1 * 1) \<le> x / (pow2 q * pow2 q)" by simp
    then have "of_int 1 \<le> (of_int m :: rat)" by (intro root) auto
    then have "pow2 q \<le> of_int m * pow2 q" by simp
    moreover have "pow2 j \<le> pow2 q" using False by (intro pow2_mono) simp
    ultimately show ?thesis using pick by (metis order_trans)
  qed
qed

lemma rat_round_pos_ge:
  assumes "0 < rat_round p emin x"
  shows "pow2 emin \<le> rat_round p emin x"
proof -
  define e where "e = ulp_exp p emin x"
  have r: "rat_round p emin x = of_int (rne (x / pow2 e)) * pow2 e" using assms by (auto simp: rat_round_def Let_def e_def split: if_splits)
  then have "0 < rne (x / pow2 e)" using assms by (simp add: zero_less_mult_iff not_less [THEN iffD2, OF less_imp_le [OF pow2_pos]])
  then have "1 * pow2 e \<le> of_int (rne (x / pow2 e)) * pow2 e" by (intro mult_right_mono) auto
  moreover have "pow2 emin \<le> pow2 e" by (intro pow2_mono) (simp add: e_def ulp_exp_def)
  ultimately show ?thesis using r by (metis mult_1 order_trans)
qed

lemma fl_between_finite: "fl_le (Fin a) v \<Longrightarrow> fl_le v (Fin b) \<Longrightarrow> fl_is_finite v"
  by (cases v) auto

text \<open>A finite \<open>f32\<close>: its own rounding.\<close>

fun is_f32 :: "fl \<Rightarrow> bool" where
  "is_f32 (Fin x) = (r32 x = Fin x)"
| "is_f32 _ = False"

lemma is_f32_finite: "is_f32 x \<Longrightarrow> fl_is_finite x"
  by (cases x) auto

lemma r32_minus: "r32 x = Fin y \<Longrightarrow> r32 (- x) = Fin (- y)"
  by (auto simp: r32_def fl_round_def Let_def rat_round_minus split: if_splits)

lemma r32_pow2: "- 149 \<le> k \<Longrightarrow> k < 128 \<Longrightarrow> r32 (pow2 k) = Fin (pow2 k)"
  using rat_round_exact [of 1 24 "- 149" k] by (simp add: r32_def fl_round_def Let_def not_le pow2_less_iff)

lemma r32_bounded_finite:
  assumes "is_f32 (Fin b)" and "\<bar>x\<bar> \<le> b"
  shows "fl_is_finite (r32 x)"
proof (rule fl_between_finite)
  show "fl_le (r32 x) (Fin b)" using f32.rnd_mono [of x b] assms by simp
  show "fl_le (Fin (- b)) (r32 x)" using f32.rnd_mono [of "- b" x] r32_minus [of b b] assms by auto
qed

lemma fl_add_lower:
  assumes "fl_le (Fin a) x" and "fl_le (Fin b) y" and "0 \<le> a" and "0 \<le> b"
  shows "fl_le (r32 (a + b)) (fl_add r32 x y)"
proof -
  have inf: "fl_le (r32 (a + b)) (Inf False)" using f32.rnd_nonneg [of "a + b"] assms by (cases "r32 (a + b)") auto
  show ?thesis using assms inf f32.rnd_mono by (cases x; cases y) auto
qed

text \<open>The running sum of squares: at least 1 once a component of that size was added, else zero or a value of the format.\<close>

abbreviation add_square :: "fl \<Rightarrow> fl \<Rightarrow> fl" where
  "add_square acc x \<equiv> fl_add r32 acc (fl_mul r32 x x)"

lemma r32_small: "r32 0 = Fin 0" "r32 1 = Fin 1"
  using f32.rnd_zero f32.rnd_int_exact [of 1] by simp_all

lemma square_nonneg: "fl_is_finite x \<Longrightarrow> fl_le (Fin 0) (fl_mul r32 x x)"
  by (cases x) (auto intro: f32.rnd_nonneg)

lemma add_square_nonneg: "fl_le (Fin 0) acc \<Longrightarrow> fl_is_finite x \<Longrightarrow> fl_le (Fin 0) (add_square acc x)"
  using fl_add_lower [of 0 acc 0 "fl_mul r32 x x"] square_nonneg by (simp add: r32_small)

lemma add_square_one: "fl_le (Fin 1) acc \<Longrightarrow> fl_is_finite x \<Longrightarrow> fl_le (Fin 1) (add_square acc x)"
  using fl_add_lower [of 1 acc 0 "fl_mul r32 x x"] square_nonneg by (simp add: r32_small)

lemma add_square_large: "fl_le (Fin 0) acc \<Longrightarrow> 1 \<le> \<bar>y\<bar> \<Longrightarrow> fl_le (Fin 1) (add_square acc (Fin y))"
  using fl_add_lower [of 0 acc 1 "r32 (y * y)"] f32.rnd_mono [of 1 "y * y"] abs_le_square_iff [of 1 y]
  by (simp add: r32_small power2_eq_square)

lemma sum_one: "list_all fl_is_finite vec \<Longrightarrow> fl_le (Fin 1) acc \<Longrightarrow> fl_le (Fin 1) (foldl add_square acc vec)"
  by (induction vec arbitrary: acc) (auto simp: add_square_one)

lemma sum_large:
  "list_all fl_is_finite vec \<Longrightarrow> fl_le (Fin 0) acc \<Longrightarrow> Fin y \<in> set vec \<Longrightarrow> 1 \<le> \<bar>y\<bar> \<Longrightarrow> fl_le (Fin 1) (foldl add_square acc vec)"
proof (induction vec arbitrary: acc)
  case (Cons x vec)
  then show ?case
  proof (cases "x = Fin y")
    case True
    then show ?thesis using Cons.prems sum_one [OF _ add_square_large] by simp
  qed (auto simp: add_square_nonneg)
qed simp

lemma sum_nonneg_fl: "list_all fl_is_finite vec \<Longrightarrow> fl_le (Fin 0) acc \<Longrightarrow> fl_le (Fin 0) (foldl add_square acc vec)"
  by (induction vec arbitrary: acc) (auto simp: add_square_nonneg)

lemma r32_pos_ge: "r32 x = Fin s \<Longrightarrow> 0 < s \<Longrightarrow> pow2 (- 149) \<le> s"
  using rat_round_pos_ge [of 24 "- 149" x] by (auto simp: r32_def fl_round_def Let_def split: if_splits)

lemma add_square_fin: "add_square acc x = Fin s \<Longrightarrow> 0 < s \<Longrightarrow> pow2 (- 149) \<le> s"
  by (cases acc; cases "fl_mul r32 x x") (auto simp: r32_pos_ge split: if_splits)

lemma sum_fin: "sum_squares vec = Fin s \<Longrightarrow> 0 < s \<Longrightarrow> pow2 (- 149) \<le> s"
  by (cases vec rule: rev_cases) (auto simp: sum_squares_def add_square_fin)

lemma normalized_finite:
  assumes "list_all is_f32 vec"
  shows "list_all fl_is_finite (normalize_l2 vec)"
proof (cases "fl_less (Fin 0) (f32_sqrt (sum_squares vec))")
  case False
  have "list_all fl_is_finite vec" using assms by (simp add: list_all_iff is_f32_finite)
  then show ?thesis using False by (simp add: normalize_l2_def)
next
  case True
  have fin: "list_all fl_is_finite vec" using assms by (simp add: list_all_iff is_f32_finite)
  have "fl_is_finite (fl_div r32 x (f32_sqrt (sum_squares vec)))" if x: "x \<in> set vec" for x
  proof -
    obtain y where y: "x = Fin y" "is_f32 (Fin y)" using assms x by (cases x) (auto simp: list_all_iff)
    consider "sum_squares vec = Inf False" | s where "sum_squares vec = Fin s" "0 \<le> s"
      using sum_nonneg_fl [OF fin, of "Fin 0"] by (cases "sum_squares vec") (auto simp: sum_squares_def)
    then show ?thesis
    proof cases
      case 1
      then show ?thesis by (simp add: y)
    next
      case (2 s)
      define r where "r = rat_sqrt_round 24 (- 149) s"
      have r: "f32_sqrt (sum_squares vec) = Fin r" "0 < r" using 2 True by (auto simp: r_def)
      then have s: "0 < s" by (auto simp: r_def rat_sqrt_round_def not_le [symmetric])
      have "fl_is_finite (r32 (y / r))"
      proof (cases "1 \<le> \<bar>y\<bar>")
        case True
        then have "1 \<le> s" using sum_large [OF fin, of "Fin 0" y] x y 2 by (simp add: sum_squares_def)
        then have "1 \<le> r" using rat_sqrt_round_ge [of 0 s "- 149" 24] by (simp add: r_def pow2_def)
        then have "\<bar>y / r\<bar> \<le> \<bar>y\<bar>" by (simp add: divide_le_eq mult_le_cancel_left1)
        moreover have "is_f32 (Fin \<bar>y\<bar>)" using y(2) r32_minus [of y y] by (cases "0 \<le> y") simp_all
        ultimately show ?thesis by (intro r32_bounded_finite)
      next
        case False
        have "pow2 (2 * (- 75)) \<le> s"
          using sum_fin [OF 2(1) s] pow2_mono [of "- 150" "- 149"] by simp
        then have "pow2 (- 75) \<le> r" unfolding r_def by (rule rat_sqrt_round_ge) auto
        then have "pow2 (- 75) * pow2 75 \<le> r * pow2 75" by (intro mult_right_mono) auto
        then have "1 \<le> r * pow2 75" by (simp flip: pow2_add add: pow2_def)
        then have "\<bar>y\<bar> \<le> pow2 75 * r" using False by (simp add: mult.commute)
        then have "\<bar>y / r\<bar> \<le> pow2 75" using r(2) by (simp add: divide_le_eq)
        moreover have "is_f32 (Fin (pow2 75))" by (simp add: r32_pow2)
        ultimately show ?thesis by (intro r32_bounded_finite)
      qed
      then show ?thesis using r y(1) by simp
    qed
  qed
  then show ?thesis using True by (simp add: normalize_l2_def list_all_iff)
qed

section \<open>Relative errors\<close>

text \<open>Half a unit in the last place of an \<open>f32\<close>, relatively.\<close>

definition u32 :: rat where
  "u32 = 1 / 2 ^ 24"

lemma u32_bounds [simp]: "0 < u32" "0 \<le> u32" "u32 < 1" "u32 \<le> 1"
  by (simp_all add: u32_def)

definition near :: "nat \<Rightarrow> rat \<Rightarrow> rat \<Rightarrow> bool" where
  "near k x y \<longleftrightarrow> (1 - u32) ^ k * x \<le> y \<and> y \<le> (1 + u32) ^ k * x"

lemma near_refl: "near 0 x x"
  by (simp add: near_def)

lemma near_trans:
  assumes "near j x y" and "near k y z"
  shows "near (j + k) x z"
proof -
  have "(1 - u32) ^ k * ((1 - u32) ^ j * x) \<le> (1 - u32) ^ k * y" "(1 + u32) ^ k * y \<le> (1 + u32) ^ k * ((1 + u32) ^ j * x)"
    using assms(1) by (auto simp: near_def intro!: mult_left_mono)
  then have "(1 - u32) ^ k * ((1 - u32) ^ j * x) \<le> z" "z \<le> (1 + u32) ^ k * ((1 + u32) ^ j * x)"
    using assms(2) unfolding near_def by (metis order_trans)+
  then show ?thesis by (simp add: near_def power_add ac_simps)
qed

lemma near_weaken:
  assumes "near j x y" and "0 \<le> x" and "j \<le> k"
  shows "near k x y"
proof -
  have "(1 - u32) ^ k \<le> (1 - u32) ^ j" "(1 + u32) ^ j \<le> (1 + u32) ^ k"
    using assms(3) by (auto intro!: power_decreasing power_increasing)
  then have "(1 - u32) ^ k * x \<le> (1 - u32) ^ j * x" "(1 + u32) ^ j * x \<le> (1 + u32) ^ k * x"
    using assms(2) by (auto intro!: mult_right_mono)
  then show ?thesis using assms(1) by (auto simp: near_def)
qed

lemma near_add: "near k x y \<Longrightarrow> near k x' y' \<Longrightarrow> near k (x + x') (y + y')"
  by (auto simp: near_def distrib_left intro: add_mono)

text \<open>Zero, or in the range where an \<open>f32\<close> has its full precision.\<close>

definition normal :: "rat \<Rightarrow> bool" where
  "normal x \<longleftrightarrow> x = 0 \<or> pow2 (- 126) \<le> x"

lemma normal_nonneg: "normal x \<Longrightarrow> 0 \<le> x"
  unfolding normal_def by (metis order.refl order_trans pow2_nonneg)

lemma r32_near:
  assumes "normal x" and "x \<le> pow2 126"
  shows "\<exists>y. r32 x = Fin y \<and> near 1 x y \<and> normal y"
proof (cases "x = 0")
  case True
  then show ?thesis by (simp add: near_def r32_small normal_def)
next
  case False
  then have x: "pow2 (- 126) \<le> x" using assms(1) by (simp add: normal_def)
  then have pos: "0 < x" using pow2_pos order_less_le_trans by blast
  define y where "y = rat_round 24 (- 149) x"
  have err: "\<bar>y - x\<bar> \<le> x / 2 ^ 24" using rat_round_rel_error [of "- 149" 24 x] x pos by (simp add: y_def)
  then have "\<bar>y - x\<bar> \<le> u32 * x" by (simp add: u32_def)
  then have "y - x \<le> u32 * x" "x - y \<le> u32 * x" by (simp_all add: abs_le_iff)
  then have near: "near 1 x y" by (simp add: near_def left_diff_distrib distrib_right)
  have "u32 * x \<le> 1 * x" using pos by (intro mult_right_mono) auto
  then have "y \<le> 2 * pow2 126" using near assms(2) by (simp add: near_def distrib_right)
  moreover have "0 \<le> y" using pos by (simp add: y_def rat_round_sign)
  moreover have "pow2 127 = 2 * pow2 126" using pow2_add [of 1 126] by simp
  moreover have "pow2 127 < pow2 128" by (simp add: pow2_less_iff)
  ultimately have "\<not> pow2 128 \<le> \<bar>y\<bar>" by simp
  then have ry: "r32 x = Fin y" by (simp add: r32_def fl_round_def Let_def y_def [symmetric])
  moreover have "normal y" using f32.rnd_mono [OF x] ry by (simp add: r32_pow2 normal_def)
  ultimately show ?thesis using near by blast
qed

lemma r32_near_signed:
  assumes "normal \<bar>x\<bar>" and "\<bar>x\<bar> \<le> pow2 126"
  shows "\<exists>y. r32 x = Fin y \<and> near 1 \<bar>x\<bar> \<bar>y\<bar>"
proof (cases "0 \<le> x")
  case True
  then obtain y where y: "r32 x = Fin y" "near 1 x y" using r32_near [of x] assms by auto
  moreover have "0 \<le> y" using f32.rnd_nonneg [OF True] y(1) by simp
  ultimately show ?thesis using True by auto
next
  case False
  then obtain y where y: "r32 (- x) = Fin y" "near 1 (- x) y" using r32_near [of "- x"] assms by auto
  moreover have "0 \<le> y" using f32.rnd_nonneg [of "- x"] False y(1) by simp
  ultimately show ?thesis using False r32_minus [of "- x" y] by auto
qed

lemma near_square: "near j x y \<Longrightarrow> 0 \<le> x \<Longrightarrow> 0 \<le> y \<Longrightarrow> near (j + j) (x * x) (y * y)"
proof -
  assume a: "near j x y" "0 \<le> x" "0 \<le> y"
  have "0 \<le> (1 - u32) ^ j * x" using a(2) by simp
  then have "((1 - u32) ^ j * x) * ((1 - u32) ^ j * x) \<le> y * y" "y * y \<le> ((1 + u32) ^ j * x) * ((1 + u32) ^ j * x)"
    using a by (auto simp: near_def intro!: mult_mono)
  then show "near (j + j) (x * x) (y * y)" by (simp add: near_def power_add mult.commute mult.left_commute)
qed

text \<open>The square of a rounded root.\<close>

lemma sqrt_near:
  assumes "pow2 (- 126) \<le> x"
  defines "r \<equiv> rat_sqrt_round 24 (- 149) x"
  shows "0 < r" and "near 2 (r * r) x"
proof -
  define j where "j = ilog2 x div 2"
  define q where "q = max (ilog2 x div 2 - int 24 + 1) (- 149)"
  define y where "y = x / (pow2 q * pow2 q)"
  define m where "m = int (isqrt (nat \<lfloor>y\<rfloor>))"
  have x: "0 < x" using assms(1) pow2_pos order_less_le_trans by blast
  have "pow2 (- 126) < pow2 (ilog2 x + 1)" using assms(1) ilog2_bounds(2) [OF x] by simp
  then have l: "- 126 \<le> ilog2 x" by (simp add: pow2_less_iff)
  then have q: "q = j - 23" by (simp add: q_def j_def)
  have "pow2 (2 * j) \<le> pow2 (ilog2 x)" unfolding j_def by (intro pow2_mono) simp
  then have rj: "pow2 j \<le> r" unfolding r_def using ilog2_bounds(1) [OF x] l by (intro rat_sqrt_round_ge) (auto simp: j_def)
  then show rpos: "0 < r" using pow2_pos order_less_le_trans by blast
  have y: "0 < y" using x by (simp add: y_def)
  have "int (isqrt (nat \<lfloor>y\<rfloor>) ^ 2) \<le> int (nat \<lfloor>y\<rfloor>)" "int (nat \<lfloor>y\<rfloor>) < int ((isqrt (nat \<lfloor>y\<rfloor>) + 1) ^ 2)"
    using isqrt_bounds [of "nat \<lfloor>y\<rfloor>"] by (simp_all only: of_nat_le_iff of_nat_less_iff)
  then have "m * m \<le> \<lfloor>y\<rfloor>" "\<lfloor>y\<rfloor> < (m + 1) * (m + 1)" using y by (simp_all add: m_def power2_eq_square algebra_simps)
  then have ym: "of_int (m * m) \<le> y" "y < of_int ((m + 1) * (m + 1))" by (simp_all only: le_floor_iff floor_less_iff)
  have m0: "0 \<le> m" by (simp add: m_def)
  have mid: "(of_int m + 1 / 2) * (of_int m + 1 / 2) = (of_int (m * m) + of_int m + 1 / 4 :: rat)" by (simp add: algebra_simps)
  obtain k where k: "r = of_int k * pow2 q"
      "k = m \<and> y \<le> (of_int m + 1 / 2) * (of_int m + 1 / 2) \<or> k = m + 1 \<and> (of_int m + 1 / 2) * (of_int m + 1 / 2) \<le> y"
  proof
    let ?mid = "(of_int m + 1 / 2) * (of_int m + 1 / 2) :: rat"
    let ?k = "if y < ?mid then m else if ?mid < y then m + 1 else if even m then m else m + 1"
    have "\<not> x \<le> 0" using x by simp
    then show "r = of_int ?k * pow2 q"
      unfolding r_def rat_sqrt_round_def Let_def q_def [symmetric] y_def [symmetric] m_def [symmetric] by (simp only: if_False)
    show "?k = m \<and> y \<le> ?mid \<or> ?k = m + 1 \<and> ?mid \<le> y" by auto
  qed
  have "pow2 q \<le> pow2 j" unfolding q by (intro pow2_mono) simp
  then have "1 * pow2 q \<le> of_int k * pow2 q" using rj unfolding k(1) mult_1 by (rule order_trans)
  then have "1 \<le> (of_int k :: rat)" by (simp only: mult_le_cancel_right pow2_pos)
  then have k1: "1 \<le> k" by simp
  have ky: "(of_int k - 1 / 2) * (of_int k - 1 / 2) \<le> y \<and> y \<le> (of_int k + 1 / 2) * (of_int k + 1 / 2)"
    using k(2)
  proof
    assume km: "k = m \<and> y \<le> (of_int m + 1 / 2) * (of_int m + 1 / 2)"
    have "(of_int m - 1 / 2) * (of_int m - 1 / 2) \<le> (of_int (m * m) :: rat)" using km k1 by (simp add: algebra_simps)
    then show ?thesis using km ym(1) by (metis order_trans)
  next
    assume km: "k = m + 1 \<and> (of_int m + 1 / 2) * (of_int m + 1 / 2) \<le> y"
    then have e: "(of_int k :: rat) = of_int m + 1" by simp
    have "y \<le> (of_int m + 1) * (of_int m + 1)" using ym(2) by simp
    also have "\<dots> \<le> (of_int m + 1 + 1 / 2) * (of_int m + 1 + 1 / 2)" using m0 by (intro mult_mono) auto
    finally show ?thesis using km unfolding e by (simp add: add.commute)
  qed
  define h where "h = pow2 q / 2"
  have xr: "x = y * (pow2 q * pow2 q)" by (simp add: y_def)
  have "(r - h) * (r - h) = (of_int k - 1 / 2) * (of_int k - 1 / 2) * (pow2 q * pow2 q)"
      "(r + h) * (r + h) = (of_int k + 1 / 2) * (of_int k + 1 / 2) * (pow2 q * pow2 q)"
    by (simp_all add: k(1) h_def algebra_simps)
  then have rx: "(r - h) * (r - h) \<le> x" "x \<le> (r + h) * (r + h)"
    unfolding xr using ky by (simp_all only: mult_right_mono pow2_nonneg zero_le_mult_iff simp_thms)
  have "pow2 j = 2 ^ 23 * pow2 q" using pow2_add [of 23 q] by (simp add: q pow2_def)
  then have "h = pow2 j * u32" by (simp add: h_def u32_def)
  then have hr: "h \<le> r * u32" using rj by (simp add: mult_right_mono)
  have "0 \<le> r * (1 - u32)" using rpos by simp
  moreover have "r * (1 - u32) \<le> r - h" "r + h \<le> r * (1 + u32)" using hr by (simp_all add: algebra_simps)
  moreover have "0 \<le> r + h" using rpos by (simp add: h_def)
  ultimately have "r * (1 - u32) * (r * (1 - u32)) \<le> (r - h) * (r - h)" "(r + h) * (r + h) \<le> r * (1 + u32) * (r * (1 + u32))"
    by (auto intro!: mult_mono)
  then have "r * (1 - u32) * (r * (1 - u32)) \<le> x" "x \<le> r * (1 + u32) * (r * (1 + u32))" using rx by (metis order_trans)+
  then show "near 2 (r * r) x" by (simp add: near_def power2_eq_square ac_simps)
qed

lemma power_bounds:
  assumes "k \<le> 2 ^ 23"
  shows "1 / 2 \<le> (1 - u32) ^ k" and "(1 + u32) ^ k \<le> 2"
proof -
  have "(of_nat k :: rat) \<le> of_nat (2 ^ 23)" using assms by (simp only: of_nat_le_iff)
  then have "1 / 2 \<le> 1 + of_nat k * (- u32)" by (simp add: u32_def)
  also have "\<dots> \<le> (1 + (- u32)) ^ k" by (rule Bernoulli_inequality) simp
  finally show l: "1 / 2 \<le> (1 - u32) ^ k" by simp
  have "(1 + u32) ^ k * (1 - u32) ^ k = (1 - u32 * u32) ^ k" by (simp add: algebra_simps flip: power_mult_distrib)
  also have "\<dots> \<le> 1" by (intro power_le_one) (simp_all add: mult_le_one)
  finally have "(1 + u32) ^ k * (1 - u32) ^ k \<le> 1" .
  moreover have "(1 + u32) ^ k * (1 / 2) \<le> (1 + u32) ^ k * (1 - u32) ^ k" using l by (intro mult_left_mono) auto
  ultimately show "(1 + u32) ^ k \<le> 2" by simp
qed

lemma near_le_double: "near k x y \<Longrightarrow> 0 \<le> x \<Longrightarrow> k \<le> 2 ^ 23 \<Longrightarrow> y \<le> 2 * x"
  using mult_right_mono [OF power_bounds(2) [of k], of x] by (auto simp: near_def)

text \<open>The components the analysis covers: zero, or neither so small nor so large that a square leaves the normal range.\<close>

definition moderate :: "rat \<Rightarrow> bool" where
  "moderate x \<longleftrightarrow> x = 0 \<or> pow2 (- 63) \<le> \<bar>x\<bar> \<and> \<bar>x\<bar> \<le> pow2 50"

lemma moderate_square:
  assumes "moderate x"
  shows "normal (x * x)" and "x * x \<le> pow2 100" and "0 \<le> x * x"
proof -
  have sq: "\<bar>x\<bar> * \<bar>x\<bar> = x * x" by (simp add: abs_mult_self_eq)
  have "pow2 (- 63) * pow2 (- 63) \<le> x * x" if "pow2 (- 63) \<le> \<bar>x\<bar>" using mult_mono [OF that that] by (simp add: sq)
  then show "normal (x * x)" using assms by (auto simp: normal_def moderate_def simp flip: pow2_add)
  have "x * x \<le> pow2 50 * pow2 50" if "\<bar>x\<bar> \<le> pow2 50" using mult_mono [OF that that] by (simp add: sq)
  then show "x * x \<le> pow2 100" using assms by (auto simp: moderate_def simp flip: pow2_add)
qed simp

lemma scaled_le:
  assumes "S \<le> of_nat k * pow2 j" and "k \<le> n"
  shows "S \<le> of_nat n * pow2 j"
proof -
  have "of_nat k * pow2 j \<le> of_nat n * pow2 j" using assms(2) by (intro mult_right_mono) simp_all
  with assms(1) show ?thesis by (rule order_trans)
qed

lemma sum_near:
  assumes "\<forall>x\<in>set xs. moderate x" and "near k S a" and "normal a" and "0 \<le> S" and "S \<le> of_nat k * pow2 100" and "1 \<le> k"
    and "k + length xs \<le> 2 ^ 20"
  shows "\<exists>b. foldl add_square (Fin a) (map Fin xs) = Fin b \<and> near (k + length xs) (S + sum_list (map (\<lambda>x. x * x) xs)) b \<and> normal b"
  using assms
proof (induction xs arbitrary: k S a)
  case (Cons x xs)
  note x = moderate_square [of x]
  have "x * x \<le> pow2 126" using x(2) Cons.prems(1) pow2_mono [of 100 126] by fastforce
  then obtain b where b: "r32 (x * x) = Fin b" "near 1 (x * x) b" "normal b" using r32_near x(1) Cons.prems(1) by auto
  have "a \<le> 2 * S" using Cons.prems near_le_double [of k S a] by simp
  also have "\<dots> \<le> 2 * (of_nat (2 ^ 20) * pow2 100)" using scaled_le [OF Cons.prems(5), of "2 ^ 20"] Cons.prems(7) by simp
  finally have "a + b \<le> pow2 126" using near_le_double [OF b(2) x(3)] x(2) Cons.prems(1) by (simp add: pow2_def)
  moreover have nab: "normal (a + b)"
    using Cons.prems(3) b(3) normal_nonneg [OF Cons.prems(3)] normal_nonneg [OF b(3)] by (auto simp: normal_def)
  ultimately obtain c where c: "r32 (a + b) = Fin c" "near 1 (a + b) c" "normal c" using r32_near by blast
  have "near k (x * x) b" using near_weaken [OF b(2)] x(3) Cons.prems(1,6) by simp
  then have "near (k + 1) (S + x * x) c" using near_trans [OF near_add [OF Cons.prems(2)] c(2)] by simp
  moreover have "S + x * x \<le> of_nat (k + 1) * pow2 100" using Cons.prems(1,5) x(2) by (simp add: distrib_right)
  ultimately show ?case
    using Cons.IH [of "k + 1" "S + x * x" c] Cons.prems c x(3) b(1) by (simp add: add.assoc)
qed auto

lemma sum_squares_near:
  assumes "\<forall>x\<in>set xs. moderate x" and "length xs < 2 ^ 20"
  shows "\<exists>s. sum_squares (map Fin xs) = Fin s \<and> near (1 + length xs) (sum_list (map (\<lambda>x. x * x) xs)) s \<and> normal s"
  using sum_near [OF assms(1), of 1 0 0] assms(2) by (simp add: sum_squares_def near_def normal_def)

lemma sum_squares_moderate:
  assumes "\<forall>x\<in>set xs. moderate x"
  shows "sum_list (map (\<lambda>x. x * x) xs) \<le> of_nat (length xs) * pow2 100"
  using assms moderate_square(2) by (induction xs) (fastforce simp: distrib_right)+

text \<open>Dividing by the rounded norm.\<close>

lemma divided_near:
  assumes "moderate x" and "pow2 (- 63) \<le> r" and "r \<le> pow2 62"
  shows "\<exists>c. r32 (x / r) = Fin c \<and> near 2 (x * x / (r * r)) (c * c)"
proof -
  have r: "0 < r" using assms(2) pow2_pos order_less_le_trans by blast
  have n: "normal \<bar>x / r\<bar>"
  proof (cases "x = 0")
    case False
    then have "pow2 (- 126) * pow2 62 \<le> \<bar>x\<bar>"
      using assms(1) pow2_mono [of "- 64" "- 63"] by (simp add: moderate_def flip: pow2_add)
    moreover have "pow2 (- 126) * r \<le> pow2 (- 126) * pow2 62" using assms(3) by (intro mult_left_mono) auto
    ultimately have "pow2 (- 126) * r \<le> \<bar>x\<bar>" by (metis order_trans)
    then have "pow2 (- 126) \<le> \<bar>x\<bar> / r" using r by (simp add: pos_le_divide_eq)
    then show ?thesis using r by (simp add: normal_def)
  qed (simp add: normal_def)
  have "\<bar>x\<bar> \<le> pow2 126 * pow2 (- 63)" using assms(1) pow2_mono [of 50 63] by (auto simp: moderate_def simp flip: pow2_add)
  moreover have "pow2 126 * pow2 (- 63) \<le> pow2 126 * r" using assms(2) by (intro mult_left_mono) auto
  ultimately have "\<bar>x\<bar> \<le> pow2 126 * r" by (metis order_trans)
  then have "\<bar>x\<bar> / r \<le> pow2 126" using r by (simp add: pos_divide_le_eq)
  then obtain c where c: "r32 (x / r) = Fin c" "near 1 \<bar>x / r\<bar> \<bar>c\<bar>" using r32_near_signed [OF n] r by auto
  have "near (1 + 1) (\<bar>x / r\<bar> * \<bar>x / r\<bar>) (\<bar>c\<bar> * \<bar>c\<bar>)" using c(2) by (intro near_square) auto
  then show ?thesis using c(1) by (simp add: abs_mult_self_eq numeral_2_eq_2)
qed

lemma near_sum_list:
  assumes "\<forall>x\<in>set xs. near k (f x) (g x)"
  shows "near k (sum_list (map f xs)) (sum_list (map g xs))"
proof (use assms in \<open>induction xs\<close>)
  case Nil
  show ?case by (simp add: near_def)
qed (simp add: near_add)

lemma ratio_bounds:
  assumes "near (1 + n) T s" and "near 2 R s" and "near 2 (T / R) C" and "0 < T" and "0 < R" and "n \<le> 1024"
  shows "\<bar>C - 1\<bar> \<le> 1 / 2 ^ 13"
proof -
  define A where "A = (1 - u32) ^ (1 + n)"
  define B where "B = (1 + u32) ^ (1 + n)"
  have "(of_nat n :: rat) \<le> of_nat 1024" using assms(6) by (simp only: of_nat_le_iff)
  then have "1 - 1025 * u32 \<le> 1 + of_nat (1 + n) * (- u32)" by (simp add: u32_def)
  also have "\<dots> \<le> (1 + (- u32)) ^ (1 + n)" by (rule Bernoulli_inequality) simp
  finally have A: "1 - 1025 * u32 \<le> A" by (simp add: A_def)
  have B0: "0 \<le> B" by (simp add: B_def)
  have "B * A = (1 - u32 * u32) ^ (1 + n)" unfolding A_def B_def power_mult_distrib [symmetric] by (simp add: algebra_simps)
  also have "\<dots> \<le> 1" by (intro power_le_one) (simp_all add: mult_le_one)
  finally have BA: "B * (1 - 1025 * u32) \<le> 1" using mult_left_mono [OF A B0] by simp
  have C_nonneg: "0 \<le> C"
  proof -
    have "0 \<le> (1 - u32) ^ 2 * (T / R)" using assms(4,5) by simp
    then show ?thesis using assms(3) unfolding near_def by linarith
  qed
  have "A * T \<le> (1 + u32) ^ 2 * R" "(1 - u32) ^ 2 * R \<le> B * T"
    using assms(1,2) unfolding near_def A_def B_def by linarith+
  then have q: "A * (T / R) \<le> (1 + u32) ^ 2" "(1 - u32) ^ 2 \<le> B * (T / R)"
    using assms(5) by (simp_all add: pos_divide_le_eq pos_le_divide_eq)
  have A0: "0 \<le> A" by (simp add: A_def)
  have "(1 - 1025 * u32) * C \<le> A * C" using A C_nonneg by (rule mult_right_mono)
  also have "\<dots> \<le> A * ((1 + u32) ^ 2 * (T / R))" using assms(3) A0 by (simp only: near_def mult_left_mono)
  also have "\<dots> = (1 + u32) ^ 2 * (A * (T / R))" by (simp only: ac_simps)
  also have "\<dots> \<le> (1 + u32) ^ 2 * (1 + u32) ^ 2" using q(1) by (intro mult_left_mono) auto
  finally have up: "(1 - 1025 * u32) * C \<le> (1 + u32) ^ 2 * (1 + u32) ^ 2" .
  have "(1 - u32) ^ 2 * (1 - u32) ^ 2 \<le> (1 - u32) ^ 2 * (B * (T / R))" using q(2) by (intro mult_left_mono) auto
  also have "\<dots> = B * ((1 - u32) ^ 2 * (T / R))" by (simp only: ac_simps)
  also have "\<dots> \<le> B * C" using assms(3) B0 by (simp only: near_def mult_left_mono)
  finally have "(1 - u32) ^ 2 * (1 - u32) ^ 2 * (1 - 1025 * u32) \<le> B * C * (1 - 1025 * u32)"
    by (intro mult_right_mono) (simp_all add: u32_def)
  also have "\<dots> = B * (1 - 1025 * u32) * C" by (simp only: ac_simps)
  also have "\<dots> \<le> 1 * C" using BA C_nonneg by (rule mult_right_mono)
  finally have lo: "(1 - u32) ^ 2 * (1 - u32) ^ 2 * (1 - 1025 * u32) \<le> C" by simp
  have "C - 1 \<le> 1 / 2 ^ 13" "1 - C \<le> 1 / 2 ^ 13" using up lo unfolding u32_def by (simp_all add: power2_eq_square)
  then show ?thesis unfolding abs_le_iff minus_diff_eq by blast
qed

section \<open>Properties\<close>

text \<open>
  C31: the normalisation never produces a NaN or an infinity. Whatever finite \<open>f32\<close> vector the model returns, every
  component of the result is finite: when the squares underflow the vector is kept, when their sum overflows the
  division gives zeros, and in between no quotient overflows.
\<close>

theorem normalize_l2_finite:
  assumes "list_all is_f32 vec"
  shows "list_all fl_is_finite (normalize_l2 vec)"
  using assms by (rule normalized_finite)

theorem normalize_l2_finite_witness:
  "list_all fl_is_finite (normalize_l2 [Fin 3, Fin 4])"
  using normalize_l2_finite [of "[Fin 3, Fin 4]"] f32.rnd_int_exact [of 3] f32.rnd_int_exact [of 4] by simp

text \<open>
  C6: the dense vectors are unit vectors. For up to 1024 components, not all zero, each zero or of a size between
  \<open>2 ^ -63\<close> and \<open>2 ^ 50\<close>, the squares of the components the \<open>f32\<close> code returns sum to 1 within \<open>2 ^ -13\<close>, the rounding of
  every multiplication, addition, root and division counted.
\<close>

theorem normalize_l2_unit:
  assumes "\<forall>x\<in>set xs. moderate x" and "\<exists>x\<in>set xs. x \<noteq> 0" and "length xs \<le> 1024"
  shows "\<exists>cs. normalize_l2 (map Fin xs) = map Fin cs \<and> \<bar>sum_list (map (\<lambda>c. c * c) cs) - 1\<bar> \<le> 1 / 2 ^ 13"
proof -
  define T where "T = sum_list (map (\<lambda>x. x * x) xs)"
  obtain s where s: "sum_squares (map Fin xs) = Fin s" "near (1 + length xs) T s" "normal s"
    using sum_squares_near [OF assms(1)] assms(3) unfolding T_def by auto
  have T0: "0 \<le> x * x" for x :: rat by simp
  obtain x where x: "x \<in> set xs" "x \<noteq> 0" using assms(2) by blast
  have "x * x \<le> T" unfolding T_def using x(1) by (intro member_le_sum_list) auto
  then have Tpos: "0 < T" using x(2) by (metis T0 less_le_trans mult_eq_0_iff order_le_imp_less_or_eq)
  have "1 + length xs \<le> 2 ^ 23" using assms(3) by simp
  note pw = power_bounds [OF this]
  have "0 < (1 - u32) ^ (1 + length xs) * T" using Tpos by (intro mult_pos_pos zero_less_power) auto
  then have spos: "pow2 (- 126) \<le> s" using s(2,3) by (auto simp: near_def normal_def)
  define r where "r = rat_sqrt_round 24 (- 149) s"
  note rs = sqrt_near [OF spos, folded r_def]
  have r63: "pow2 (- 63) \<le> r" unfolding r_def using spos by (intro rat_sqrt_round_ge) auto
  have "s \<le> 2 * T" using s(2) Tpos assms(3) by (intro near_le_double) auto
  also have "\<dots> \<le> 2 * (of_nat 1024 * pow2 100)"
    using scaled_le [OF sum_squares_moderate [OF assms(1)] assms(3)] by (simp add: T_def)
  finally have s2: "s \<le> pow2 111" by (simp add: pow2_def)
  have r62: "r \<le> pow2 62"
  proof (rule ccontr)
    assume "\<not> r \<le> pow2 62"
    then have "pow2 62 * pow2 62 \<le> r * r" using rs(1) by (intro mult_mono) auto
    moreover have "1 / 2 * (r * r) \<le> (1 - u32) ^ 2 * (r * r)" using power_bounds(1) [of 2] by (intro mult_right_mono) auto
    moreover have "(1 - u32) ^ 2 * (r * r) \<le> s" using rs(2) by (simp add: near_def)
    ultimately have "1 / 2 * (pow2 62 * pow2 62) \<le> pow2 111" using s2 by linarith
    then show False by (simp add: pow2_def)
  qed
  have "\<forall>x\<in>set xs. \<exists>c. r32 (x / r) = Fin c \<and> near 2 (x * x / (r * r)) (c * c)"
    using divided_near [OF _ r63 r62] assms(1) by blast
  then obtain g where g: "\<And>x. x \<in> set xs \<Longrightarrow> r32 (x / r) = Fin (g x) \<and> near 2 (x * x / (r * r)) (g x * g x)" by metis
  define C where "C = sum_list (map (\<lambda>x. g x * g x) xs)"
  have "normalize_l2 (map Fin xs) = map Fin (map g xs)"
    using rs(1) normal_nonneg [OF s(3)] g by (simp add: normalize_l2_def s(1) r_def [symmetric])
  moreover have "\<bar>C - 1\<bar> \<le> 1 / 2 ^ 13"
  proof -
    have "near 2 (sum_list (map (\<lambda>x. x * x / (r * r)) xs)) C" unfolding C_def using g by (intro near_sum_list) blast
    moreover have "sum_list (map (\<lambda>x. x * x / (r * r)) xs) = T / (r * r)"
      unfolding T_def by (induction xs) (auto simp: add_divide_distrib)
    ultimately have "near 2 (T / (r * r)) C" by simp
    from ratio_bounds [OF s(2) rs(2) this Tpos _ assms(3)] show ?thesis using rs(1) by simp
  qed
  ultimately show ?thesis by (intro exI [of _ "map g xs"]) (simp add: C_def comp_def)
qed

theorem normalize_l2_unit_witness:
  "\<exists>cs. normalize_l2 [Fin 3, Fin 4] = map Fin cs \<and> \<bar>sum_list (map (\<lambda>c. c * c) cs) - 1\<bar> \<le> 1 / 2 ^ 13"
  using normalize_l2_unit [of "[3, 4]"] by (simp add: moderate_def pow2_def)

end
