(* ===== verification/Health_Machine.thy ===== *)
theory Health_Machine
  imports Server
begin

text \<open>
  The states \<open>/health\<close> goes through (\<open>docs/health-state-machine.md\<close>, \<open>src/handler/health.rs\<close>) while the pool of an open server
  runs. The report is computed from the counters at every request; that it only ever degrades is a property of the steps of
  the pool.
\<close>

section \<open>The workers that are gone\<close>

text \<open>A worker that has exited stays so.\<close>

lemma tally_step:
  assumes "i < length xs" and "\<not> P (xs ! i)"
  shows "tally P xs \<le> tally P (xs[i := x])"
  using tally_update [OF assms(1), of P x] assms(2) by simp

lemma exited_step:
  assumes "pool_step pass start cfg p p'"
  shows "tally has_exited (pl_phases p) \<le> tally has_exited (pl_phases p')"
  using assms by (induction rule: pool_step.induct) (simp_all add: tally_step)

lemma exited_mono:
  assumes "pool_reachable pass start cfg p p'"
  shows "tally has_exited (pl_phases p) \<le> tally has_exited (pl_phases p')"
  using assms
proof induction
  case (reach_step p' p'')
  then show ?case using exited_step [OF reach_step(2)] by simp
qed simp

lemma reachable_trans:
  assumes "pool_reachable pass start cfg p p'" and "pool_reachable pass start cfg p0 p"
  shows "pool_reachable pass start cfg p0 p'"
  using assms by (induction) (auto intro: reach_step)

section \<open>The report\<close>

abbreviation health_word :: "app_state \<Rightarrow> json" where
  "health_word st \<equiv> json_index (hr_body (health st)) ''status''"

text \<open>An open server in front of a pool whose start-up increments have arrived.\<close>

definition fronts :: "config \<Rightarrow> 'w pool \<Rightarrow> app_state \<Rightarrow> bool" where
  "fronts cfg p st \<longleftrightarrow> observes (as_pool st) p \<and> pl_pending p = 0 \<and> as_ready st \<and> as_total_workers st = cf_workers cfg"

text \<open>Any number of steps of the pool later.\<close>

definition pool_later :: "(nat \<Rightarrow> 'w worker_env) \<Rightarrow> config \<Rightarrow> 'w pool \<Rightarrow> 'w pool \<Rightarrow> bool" where
  "pool_later env cfg p p' \<longleftrightarrow>
     pool_reachable (server_pass env (worker_config_of cfg) (spawned_workers cfg))
       (server_start env (worker_config_of cfg) (spawned_workers cfg))
       (make_worker_config (worker_config_of cfg) (spawned_workers cfg)) p p'"

lemma later_reachable: "server_pool_reachable env cfg w p \<Longrightarrow> pool_later env cfg p p' \<Longrightarrow> server_pool_reachable env cfg w p'"
  unfolding server_pool_reachable_def pool_later_def by (rule reachable_trans)

lemma fronts_word:
  assumes "server_pool_reachable env cfg w p" and "fronts cfg p st" and "cf_workers cfg < 2 ^ 63"
  shows "health_word st = JStr (
    if tally has_exited (pl_phases p) = spawned_workers cfg then ''fail''
    else if tally holds_models (pl_phases p) + tally exited_fatally (pl_phases p) = 0 then ''idle''
    else if spawned_workers cfg - tally has_exited (pl_phases p) < cf_workers cfg then ''warn'' else ''ok'')"
  using assms by (intro health_status_word) (auto simp: fronts_def)

lemma exited_le:
  assumes "server_pool_reachable env cfg w p"
  shows "tally has_exited (pl_phases p) \<le> spawned_workers cfg"
  using server.reachable_inv [OF assms [unfolded server_pool_reachable_def]] tally_le by metis

section \<open>Properties\<close>

text \<open>
  C26: the health of a running server only degrades. Whatever the pool does between two requests to \<open>/health\<close>, \<open>fail\<close> stays \<open>fail\<close>, and a
  server that was \<open>warn\<close>, or once had a worker exit, is never \<open>ok\<close> again.
\<close>

theorem health_only_degrades:
  assumes "server_pool_reachable env cfg w p" and "pool_later env cfg p p'" and "cf_workers cfg < 2 ^ 63"
    and "fronts cfg p st" and "fronts cfg p' st'"
  shows "(health_word st = JStr ''fail'' \<longrightarrow> health_word st' = JStr ''fail'') \<and>
    (health_word st = JStr ''warn'' \<longrightarrow> health_word st' \<noteq> JStr ''ok'') \<and>
    (0 < tally has_exited (pl_phases p) \<longrightarrow> health_word st' \<noteq> JStr ''ok'')"
proof -
  note later = later_reachable [OF assms(1,2)]
  note words = fronts_word [OF assms(1,4,3)] fronts_word [OF later assms(5,3)]
  have "tally has_exited (pl_phases p) \<le> tally has_exited (pl_phases p')"
    using exited_mono [OF assms(2) [unfolded pool_later_def]] by simp
  then show ?thesis
    unfolding words using exited_le [OF later] spawned_workers_le [of cfg] by auto
qed

text \<open>
  The default server on two CPU workers: both serve, the first leaves, the second leaves, and a new cost
  model is installed.
\<close>

definition cpu_pair :: config where "cpu_pair = from_lookup None Map.empty"

lemma cpu_pair_config: "cf_ep cpu_pair = Cpu" "cf_workers cpu_pair = 2" "spawned_workers cpu_pair = 2"
  by (simp_all add: cpu_pair_def from_lookup_def Let_def resolve_ep_def setting_def spawned_workers_def clamp_workers_def
      worker_config_of_def)

definition pair_pool :: "phase list \<Rightarrow> nat \<Rightarrow> 64 word \<Rightarrow> 64 word \<Rightarrow> unit pool" where
  "pair_pool phases pending live loaded =
     (let p = pool_start 2 (initial_cost_model cpu_pair) ()
      in p\<lparr>pl_phases := phases, pl_pending := pending, pl_shared := (pl_shared p)\<lparr>sh_live := live, sh_loaded := loaded\<rparr>\<rparr>)"

abbreviation pair_pass :: "nat \<Rightarrow> notice list \<Rightarrow> message \<Rightarrow> worker \<Rightarrow> unit shared \<Rightarrow> effect list \<times> control \<times> worker \<times> unit shared" where
  "pair_pass \<equiv> server_pass (\<lambda>i. single_gpu_env) (worker_config_of cpu_pair) 2"

abbreviation pair_start :: "nat \<Rightarrow> unit shared \<Rightarrow> startup_outcome \<times> unit shared" where
  "pair_start \<equiv> server_start (\<lambda>i. single_gpu_env) (worker_config_of cpu_pair) 2"

abbreviation pair_step :: "unit pool \<Rightarrow> unit pool \<Rightarrow> bool" where
  "pair_step \<equiv> pool_step pair_pass pair_start (make_worker_config (worker_config_of cpu_pair) 2)"

lemma pair_starts: "pair_start i s = (Startup_Ready 20, s)"
  by (simp add: server_start_def startup_worker_def prewarm_shard_def single_gpu_env_def sample_env_def worker_config_of_def
      cpu_pair_config make_worker_config_def run_cache_gc_def Let_def)

lemma pair_closes:
  "pair_pass i [] Channel_Closed fresh_worker s =
     ([], Exit, fresh_worker\<lparr>wk_models := False\<rparr>, guard_drop (s\<lparr>sh_loaded := sh_loaded s - 1\<rparr>))"
  by (simp add: server_pass_def worker_iteration_def drain_peers_def worker_config_of_def cpu_pair_config
      make_worker_config_def fresh_worker_def Let_def)

lemma pair_step_spawn:
  "i < length phs \<Longrightarrow> phs ! i = Unspawned \<Longrightarrow> \<forall>j<i. phs ! j \<noteq> Unspawned \<and> phs ! j \<noteq> Starting \<Longrightarrow>
   pair_step (pair_pool phs 0 live loaded) (pair_pool (phs[i := Starting]) 0 live loaded)"
  using pool_step.spawn [of i "pair_pool phs 0 live loaded" pair_pass pair_start]
  by (simp add: pair_pool_def pool_start_def Let_def)

lemma pair_step_ready:
  "i < length phs \<Longrightarrow> phs ! i = Starting \<Longrightarrow>
   pair_step (pair_pool phs k live loaded) (pair_pool (phs[i := Serving fresh_worker]) (k + 1) live loaded)"
  using pool_step.ready [of i "pair_pool phs k live loaded" pair_start 20 "pl_shared (pair_pool phs k live loaded)" pair_pass]
  by (simp add: pair_starts) (simp add: pair_pool_def pool_start_def Let_def)

lemma pair_step_counted: "pair_step (pair_pool phs 1 live loaded) (pair_pool phs 0 live (loaded + 1))"
  using pool_step.counted [of "pair_pool phs 1 live loaded" 0 pair_pass pair_start]
  by (simp add: pair_pool_def pool_start_def Let_def)

lemma pair_step_closed:
  "i < length phs \<Longrightarrow> phs ! i = Serving fresh_worker \<Longrightarrow>
   pair_step (pair_pool phs k live loaded) (pair_pool (phs[i := Exited False]) k (live - 1) (loaded - 1))"
  using pool_step.iterate [of i "pair_pool phs k live loaded" fresh_worker Channel_Closed _ pair_pass "[]" "[]" Exit _ _ pair_start,
      OF _ _ _ pair_closes]
  by (simp add: pair_pool_def pool_start_def Let_def guard_drop_def)

lemma pair_serves:
  "server_pool_reachable (\<lambda>i. single_gpu_env) cpu_pair () (pair_pool [Serving fresh_worker, Serving fresh_worker] 0 2 2)"
proof -
  let ?r = "pool_reachable pair_pass pair_start (make_worker_config (worker_config_of cpu_pair) 2) (pair_pool [Unspawned, Unspawned] 0 2 0)"
  have "?r (pair_pool [Unspawned, Unspawned] 0 2 0)" by (rule reach_init)
  from reach_step [OF this pair_step_spawn [of 0]] have "?r (pair_pool [Starting, Unspawned] 0 2 0)" by simp
  from reach_step [OF this pair_step_ready [of 0]] have "?r (pair_pool [Serving fresh_worker, Unspawned] 1 2 0)" by simp
  from reach_step [OF this pair_step_counted] have "?r (pair_pool [Serving fresh_worker, Unspawned] 0 2 1)" by simp
  from reach_step [OF this pair_step_spawn [of 1]] have "?r (pair_pool [Serving fresh_worker, Starting] 0 2 1)" by simp
  from reach_step [OF this pair_step_ready [of 1]]
  have "?r (pair_pool [Serving fresh_worker, Serving fresh_worker] 1 2 1)" by simp
  from reach_step [OF this pair_step_counted]
  have "?r (pair_pool [Serving fresh_worker, Serving fresh_worker] 0 2 2)" by simp
  then show ?thesis
    by (simp add: server_pool_reachable_def cpu_pair_config pair_pool_def pool_start_def Let_def numeral_2_eq_2)
qed

lemma pair_fronts:
  "fronts cpu_pair (pair_pool phs 0 live loaded)
     ((initial_state cpu_pair (sample_pool\<lparr>ep_live := live, ep_loaded := loaded\<rparr>))\<lparr>as_ready := True\<rparr>)"
  by (simp add: fronts_def observes_def initial_state_def pair_pool_def Let_def)

theorem health_only_degrades_witness:
  "\<exists>p p' p'' st st' st''. server_pool_reachable (\<lambda>i. single_gpu_env) cpu_pair () p \<and>
     pool_later (\<lambda>i. single_gpu_env) cpu_pair p p' \<and> pool_later (\<lambda>i. single_gpu_env) cpu_pair p' p'' \<and>
     fronts cpu_pair p st \<and> fronts cpu_pair p' st' \<and> fronts cpu_pair p'' st'' \<and> p' \<noteq> p \<and> p'' \<noteq> p' \<and>
     health_word st = JStr ''warn'' \<and> health_word st' = JStr ''fail'' \<and> health_word st'' = JStr ''fail''"
proof -
  let ?env = "\<lambda>i. single_gpu_env"
  let ?st = "\<lambda>live loaded. (initial_state cpu_pair (sample_pool\<lparr>ep_live := live, ep_loaded := loaded\<rparr>))\<lparr>as_ready := True\<rparr>"
  let ?p = "pair_pool [Exited False, Serving fresh_worker] 0 1 1" and ?p' = "pair_pool [Exited False, Exited False] 0 0 0"
  let ?cm = "sh_cost_model (pl_shared ?p')"
  let ?p'' = "?p'\<lparr>pl_shared := (pl_shared ?p')\<lparr>sh_cost_model := ?cm\<lparr>max_workspace_bytes := max_workspace_bytes ?cm + 1\<rparr>\<rparr>\<rparr>"
  have later: "pool_later ?env cpu_pair q q'" if "pair_step q q'" for q q'
    using reach_step [OF reach_init that] by (simp add: pool_later_def cpu_pair_config)
  have p: "server_pool_reachable ?env cpu_pair () ?p"
    using later_reachable [OF pair_serves later [OF pair_step_closed [of 0 "[Serving fresh_worker, Serving fresh_worker]" 0 2 2]]] by simp
  have p': "pool_later ?env cpu_pair ?p ?p'" using later [OF pair_step_closed [of 1 "[Exited False, Serving fresh_worker]" 0 1 1]] by simp
  have p'': "pool_later ?env cpu_pair ?p' ?p''" by (rule later) (rule pool_step.retune)
  have f: "fronts cpu_pair ?p (?st 1 1)" "fronts cpu_pair ?p' (?st 0 0)" "fronts cpu_pair ?p'' (?st 0 0)"
    using pair_fronts pair_fronts [of "[Exited False, Exited False]" 0 0] by (simp_all add: fronts_def observes_def)
  have w: "health_word (?st 1 1) = JStr ''warn''" "health_word (?st 0 0) = JStr ''fail''"
    by (simp_all add: health_def Let_def initial_state_def live_worker_count_def loaded_worker_count_def cpu_pair_config
        split: option.split)
  have small: "cf_workers cpu_pair < 2 ^ 63" by (simp add: cpu_pair_config)
  have "health_word (?st 0 0) \<noteq> JStr ''ok''"
    using health_only_degrades [OF p p' small f(1,2)] w(1) by simp
  moreover have "health_word (?st 0 0) = JStr ''fail''"
    using health_only_degrades [OF later_reachable [OF p p'] p'' small f(2,3)] w(2) by simp
  moreover have "?p' \<noteq> ?p" by (simp add: pair_pool_def pool_start_def Let_def)
  moreover have "?p'' \<noteq> ?p'"
  proof
    assume "?p'' = ?p'"
    then have "max_workspace_bytes (sh_cost_model (pl_shared ?p'')) = max_workspace_bytes ?cm" by simp
    then show False by simp
  qed
  ultimately show ?thesis using p p' p'' f w(1) by blast
qed

end
