(* ===== verification/Spec2Isabelle.thy ===== *)
theory Spec2Isabelle
  imports Fp16_Eval Telemetry Teardown Healthy_Pool Http_Service Norm_Bounds Health_Machine
begin

text \<open>
  A verification of the BGE-M3 embedding server, an HTTP service in Rust that turns texts into dense
  and sparse vectors with an ONNX model. Source paths are relative to \<open>src/src/\<close>, those of the
  tools to \<open>src/\<close>.

  \<^bold>\<open>The program.\<close> \<open>lib.rs\<close> reads the configuration (\<open>config.rs\<close>), spawns a pool of worker threads
  (\<open>embedder/pool.rs\<close>, \<open>embedder/worker/\<close>), and opens an HTTP router (\<open>bootstrap/router.rs\<close>, \<open>handler/\<close>) over a
  shared state (\<open>state.rs\<close>). Each worker owns a tokenizer and an ONNX session (\<open>embedder/session.rs\<close>,
  \<open>model_files.rs\<close>, \<open>weights.rs\<close>), takes requests from one channel, splits a batch into chunks by estimated
  memory (\<open>binpack.rs\<close>), pads and runs each chunk (\<open>embedder/tokenize.rs\<close>, \<open>dense.rs\<close>, \<open>sparse.rs\<close>,
  \<open>dual.rs\<close>, \<open>math.rs\<close>) and scatters the rows back. Start-up (\<open>bootstrap/\<close>) detects the memory (\<open>sysinfo.rs\<close>),
  derives a budget per worker, fits the cost model by a probe (\<open>probe/\<close>) or takes it from a
  cache, and only then opens the server. For TensorRT there is a pre-warm sweep (\<open>embedder/trt_warmup/\<close>), an
  engine cache with a collector (\<open>trt_cache/\<close>, \<open>trt_cache_gc.rs\<close>, \<open>sm_detect.rs\<close>), a guard against uncovered shapes
  (\<open>jit_guard.rs\<close>), and a background task that warms shapes seen in traffic (\<open>adaptive_warmup.rs\<close>). Beside the server stands the tool that
  decides whether the FP16 model may replace the FP32 one (\<open>examples/fp16_eval.rs\<close>).

  \<^bold>\<open>The theories\<close>, each importing those it calls:

  \<^item> \<open>Prelude\<close>: results, machine bounds, strings, decimal numbers, the collections of facts.
  \<^item> \<open>Rust_Float\<close>: \<open>f32\<close> and \<open>f64\<close> as rationals with NaN and infinities, every operation rounded to nearest even; the
    locale \<open>monotone_rounding\<close> holds what the other theories use of a format, interpreted for both. There is one zero.
  \<^item> \<open>Binpack\<close> (\<open>binpack.rs\<close>): cost formula, length sort with an arbitrary tie-break, greedy loop. Locales: \<open>chunking\<close> (what a
    client relies on of a packer), \<open>hereditary_budget\<close> and \<open>sound_cost_model\<close> (why greedy is optimal).
  \<^item> \<open>Embed_Math\<close> (\<open>embedder/math.rs\<close>), with the error analysis of its normalisation in \<open>Norm_Bounds\<close>; \<open>Jit_Guard\<close> (\<open>jit_guard.rs\<close>, \<open>worker/trt_retry.rs\<close>, \<open>error.rs\<close>),
    \<open>Embed_Pipeline\<close> (\<open>tokenize.rs\<close>, \<open>dense.rs\<close>, \<open>sparse.rs\<close>, \<open>dual.rs\<close>, \<open>types.rs\<close>).
  \<^item> \<open>Trt_Cache\<close> (\<open>trt_cache/\<close>, \<open>trt_cache_gc.rs\<close>, \<open>sm_detect.rs\<close>), \<open>Trt_Warmup\<close> (\<open>trt_warmup/\<close>).
  \<^item> \<open>Worker\<close> (\<open>worker/\<close>): one pass of the request loop as a function on the worker's and the shared state, replies
    and notifications as effects, counters as 64-bit words, and the loop over its passes; locale \<open>worker_loop\<close>, what a pass keeps.
  \<^item> \<open>Pool\<close> (\<open>pool.rs\<close>): the interleaving of all workers and the init task as a step relation; locale
    \<open>pool_workers\<close>, interpreted for the workers of the server.
  \<^item> \<open>Request_Flow\<close> (\<open>pool.rs\<close>, \<open>worker/run.rs\<close>): the channel between callers and workers, with requests in flight, clients that give up
    and the channel's end; locales \<open>request_workers\<close> and \<open>checked_workers\<close> extend \<open>pool_workers\<close> by what a pass owes its request.
  \<^item> \<open>Healthy_Pool\<close>: the workers of a pool whose models keep their contract (\<open>same_model\<close>), and what such a pool owes its callers.
  \<^item> \<open>Teardown\<close> (\<open>lib.rs\<close>, \<open>worker/run.rs\<close>): the steps of a pool whose handle is dropped; locale \<open>leaving_workers\<close>.
  \<^item> \<open>Adaptive_Warmup\<close> (\<open>adaptive_warmup.rs\<close>): the background task, round by round.
  \<^item> \<open>Sysinfo\<close> (\<open>sysinfo.rs\<close>), \<open>Json\<close>, \<open>App_State\<close> (\<open>state.rs\<close>), \<open>Handlers\<close> (\<open>models.rs\<close>, \<open>handler/\<close>, \<open>bootstrap/router.rs\<close>).
  \<^item> \<open>Wire\<close> (\<open>models.rs\<close>, \<open>error.rs\<close>): JSON bodies to requests and responses to JSON bodies; locale \<open>wire_codec\<close>, interpreted for
    numbers, token ids, entries and the three responses. \<open>Http_Service\<close> (\<open>bootstrap/router.rs\<close>): routes, extractor and layers around the handlers.
  \<^item> \<open>Probe_Fit\<close> and \<open>Probe\<close> (\<open>probe/\<close>): the least-squares fit in \<open>f64\<close>, the sweep, text synthesis, the coefficient cache.
  \<^item> \<open>Bootstrap\<close> (\<open>bootstrap/\<close>): budget, readiness, probe task; permits beside requests as a step relation.
  \<^item> \<open>Config\<close> (\<open>config.rs\<close>), \<open>Server\<close> (\<open>lib.rs\<close>), \<open>Health_Machine\<close> (the states of \<open>/health\<close> over the runs of the pool), \<open>Model_Load\<close> (\<open>model_files.rs\<close>, \<open>session.rs\<close>, \<open>weights.rs\<close>),
    \<open>Telemetry\<close> (\<open>logging.rs\<close>, \<open>gpu_stats.rs\<close>, \<open>trt_cache/inspect.rs\<close> and its neighbours, \<open>worker/logging.rs\<close>).
  \<^item> \<open>Fp16_Eval\<close> (\<open>examples/fp16_eval.rs\<close>): the release gate, with its own copies of the loading and embedding code.

  \<^bold>\<open>How code is modelled.\<close> A struct is a record, an enum a datatype, a fallible function a sum with the error on the
  left; a panic is an error value of its own. Integers are \<open>nat\<close> with the saturation, truncation or bound the code has
  written out, and words where a counter could wrap. A string is its list of UTF-8 bytes. Locks, atomics and channels appear as the
  shared records that steps read and write; one step is one pass of a loop, so interleavings are those of whole passes; between receiving a request and answering it any other step
  may happen, but the pass that answers is one step, and \<open>/health\<close> reads its counters from one state. The channels, the semaphore and the task
  spawning of \<open>tokio\<close> are rules of the step relations (bounded first in, first out, sends that fail without a receiver), the decoding of the derived
  \<open>serde\<close> instances is written out in \<open>Wire\<close>. The
  tokenizer, the ONNX session, the clock, the file system, \<open>nvidia-smi\<close>, the hub, NVML, the TLS library, the JSON text
  codec and the layers of \<open>tower-http\<close> and \<open>axum\<close> are parameters, and what a theorem needs of them is a named hypothesis (\<open>tokenizes\<close>, \<open>session_contract\<close>,
  \<open>padding_invariant\<close>, \<open>same_model\<close>, \<open>no_token_embeddings\<close>, \<open>no_last_hidden_state\<close>, \<open>pads_batches\<close>, \<open>sleeps_100ms\<close>, \<open>readings_sane\<close>: memory readings
  are 64-bit numbers, \<open>probe_sane\<close>: moreover the corpus is cut between code points, \<open>layers_documented\<close>, \<open>rejections_documented\<close>), shown satisfiable by the sample instances its witness runs on.

  \<^bold>\<open>What is shown.\<close>

  \<^item> \<^emph>\<open>The service.\<close> From the JSON body of a request to the JSON body of its reply, the three embedding routes of the whole server implement the
    abstract service that embeds each text alone, and so does every successful reply of a pool of any size in every interleaving (this theory); the routes fill every slot with the right row, the fused route is the pair of the two single ones, and
    batching does not change a vector (\<open>Embed_Pipeline\<close>); max-pooling is per token (\<open>Embed_Math\<close>); the dense vectors are finite and of length 1 up
    to rounding (\<open>Norm_Bounds\<close>); the status code of every reply and the request id on each of them (\<open>Http_Service\<close>).
  \<^item> \<^emph>\<open>Memory.\<close> The packing uses the fewest chunks that fit (\<open>Binpack\<close>); the budget keeps all workers within the memory
    (\<open>Bootstrap\<close>); the probe stays within its limits and returns usable coefficients, unless it cuts a text inside a code point, exactly when it
    panics (\<open>Probe\<close>); the cgroup walk finds the deepest limit (\<open>Sysinfo\<close>); the legacy token budget still counts tokens (\<open>Config\<close>).
  \<^item> \<^emph>\<open>Workers.\<close> One reply per request, the circuit breaker over every run of the loop, refusals that change nothing (\<open>Worker\<close>); the value of both counters in
    every reachable state, complete shards (\<open>Pool\<close>); no request answered twice, left unanswered or left waiting by a dead pool (\<open>Request_Flow\<close>); a worker
    with healthy models answers whatever is in front of it (\<open>Healthy_Pool\<close>); a dropped pool comes to its end with a live counter of zero (\<open>Teardown\<close>); \<open>/health\<close> tells what the pool is (\<open>Server\<close>) and only ever degrades (\<open>Health_Machine\<close>).
  \<^item> \<^emph>\<open>TensorRT.\<close> The coverage check, the sweep, the collector, refusals that keep their identity (\<open>Trt_Warmup\<close>, \<open>Trt_Cache\<close>,
    \<open>Jit_Guard\<close>); no shape warmed twice, the hourly budget and progress of the background task (\<open>Adaptive_Warmup\<close>).
  \<^item> \<^emph>\<open>Start and stop.\<close> When start-up panics, ends and opens; the probe is alone with the workers, a waiting request can be
    served (\<open>Bootstrap\<close>); which failures end the process (\<open>Server\<close>); what every environment gives, with the two settings that are not checked (\<open>Config\<close>); the shutdown wait ends, the warm-up-only exit
    code is right, TLS is never dropped (\<open>Server\<close>); the coefficient cache and the warm-up grid round-trip.
  \<^item> \<^emph>\<open>The release gate.\<close> Its verdict as a condition on the collected values, its sparse pipeline equal to the server's on the FP32 outputs and a panic on the FP16 ones, the Jaccard index 1
    exactly on equal token sets in spite of rounding (\<open>Fp16_Eval\<close>).
  \<^item> \<^emph>\<open>Where the code departs from its intent\<close>: a fatal exit stays counted as loaded and the loaded counter can wrap for a moment (\<open>Pool\<close>), a NaN
    safety factor and any pair of coefficients are accepted (\<open>Config\<close>), a probe text may be cut inside a character (\<open>Probe\<close>), requests are refused during the
    probe where the docs have them wait (\<open>Bootstrap\<close>), the permits differ from the workers
    on some paths (\<open>Bootstrap\<close>), a clamped GPU pool is reported as degraded for good (\<open>Server\<close>), the hourly window is not a rolling
    hour (\<open>Adaptive_Warmup\<close>), a GPU selection without the feature keeps the GPU budget (\<open>Model_Load\<close>), a failed check after
    the probe leaves the process up and closed (\<open>Server\<close>), the release gate does not see a NaN and panics on the documented FP32
    outputs, and its sparse comparison on the FP16 ones (\<open>Fp16_Eval\<close>).

  \<^bold>\<open>Loops and bounds.\<close> Every loop is a total function: structural over its list, or with a measure (the quiet window counts up
  to its length, whitespace splitting shortens its argument). The one loop only the clock bounds, the shutdown poll, is a partial
  function, and it is proved to return when each sleep advances the clock. No fuel is used. The background tasks that run for
  ever are modelled by their rounds, over any finite number of them.

  \<^bold>\<open>Not modelled.\<close> The text of log lines beyond the JSON rewriting; the text of a JSON value and the rejections of the extractor, which belong to
  \<open>serde_json\<close> and \<open>axum\<close>; scheduling inside one pass of a loop; the installation of the crypto provider; the measurement harnesses under \<open>benches/\<close>;
  what the tools print.
\<close>

section \<open>Requests through the whole server\<close>

abbreviation open_tx :: reply_tx where
  "open_tx \<equiv> \<lparr>tx_id = 0, tx_closed = False\<rparr>"

definition worker_reply ::
  "'w worker_env \<Rightarrow> worker_config \<Rightarrow> nat \<Rightarrow> worker \<Rightarrow> 'w shared \<Rightarrow> embed_request \<Rightarrow> reply option" where
  "worker_reply env config wid wk s req = reply_for 0 (fst (worker_message env config wid (Request req) wk s))"

text \<open>A pool whose requests are taken by one worker in a given state.\<close>

definition pool_of_worker ::
  "'w worker_env \<Rightarrow> worker_config \<Rightarrow> nat \<Rightarrow> worker \<Rightarrow> 'w shared \<Rightarrow> embed_pool \<Rightarrow> embed_pool" where
  "pool_of_worker env config wid wk s pool =
     pool\<lparr>ep_closed := False,
       ep_dense := (\<lambda>texts. case worker_reply env config wid wk s (Dense_Req texts open_tx) of
          Some (Dense_Reply r) \<Rightarrow> Some r | _ \<Rightarrow> None),
       ep_sparse := (\<lambda>texts. case worker_reply env config wid wk s (Sparse_Req texts open_tx) of
          Some (Sparse_Reply r) \<Rightarrow> Some r | _ \<Rightarrow> None),
       ep_both := (\<lambda>texts. case worker_reply env config wid wk s (Both_Req texts open_tx) of
          Some (Both_Reply r) \<Rightarrow> Some r | _ \<Rightarrow> None)\<rparr>"

lemma reply_for_none: "reply_ids effs = [] \<Longrightarrow> reply_for n (effs @ es) = reply_for n es"
  by (induction n effs rule: reply_for.induct) auto

text \<open>A worker that holds models, or can load them.\<close>

definition can_serve :: "'w worker_env \<Rightarrow> worker \<Rightarrow> bool" where
  "can_serve env wk \<longleftrightarrow> wk_models wk \<or> (\<exists>u. en_load env = Inr u)"

lemma dispatch_embed_reply:
  assumes "f (sh_cost_model s) = Inr v"
  shows "\<exists>d. dispatch_embed config failures mk what f texts open_tx warmed s = Some d \<and>
    reply_for 0 (dp_effects d) = Some (mk (Inr v))"
proof -
  obtain outcome effs warmed' where fin:
      "finalize_embed_route config failures (length texts) (Inr v) warmed = (outcome, effs, warmed')"
    by (cases "finalize_embed_route config failures (length texts) (Inr v) warmed")
  then show ?thesis
    using reply_for_none [OF finalize_no_reply [OF fin]] assms by (simp add: dispatch_embed_def embed_with_trt_retry_def)
qed

lemma worker_message_reply:
  assumes "can_serve env wk"
    and "\<And>s'. sh_cost_model s' = sh_cost_model s \<Longrightarrow> \<exists>d. dispatch_request env config wid
      (build_shape_guard config (sh_ceiling s)) (wk_failures wk) (wk_warmed_local wk) req s' = Some d \<and>
      reply_for 0 (dp_effects d) = Some r"
  shows "worker_reply env config wid wk s req = Some r"
proof -
  have serve: "reply_for 0 (fst (serve_loaded env config wid req wk' s')) = Some r"
    if "sh_cost_model s' = sh_cost_model s" "sh_ceiling s' = sh_ceiling s" "wk_failures wk' = wk_failures wk"
      "wk_warmed_local wk' = wk_warmed_local wk" for wk' s'
    using assms(2) [OF that(1)] that by (auto simp: serve_loaded_def Let_def)
  show ?thesis
  proof (cases "wk_models wk")
    case True
    then show ?thesis using serve [of s wk] by (simp add: worker_reply_def)
  next
    case False
    then obtain u where "en_load env = Inr u" using assms(1) by (auto simp: can_serve_def)
    then show ?thesis
      using False serve [of "s\<lparr>sh_loaded := sh_loaded s + 1\<rparr>" "wk\<lparr>wk_models := True\<rparr>"] by (simp add: worker_reply_def)
  qed
qed

lemma dense_served:
  assumes "can_serve env wk"
    and "embed_dense (en_session env) (en_tokenizer env) (en_timing env) texts (sh_cost_model s) (wc_model_variant config)
      (build_shape_guard config (sh_ceiling s)) = Inr v"
  shows "pool_dense False (ep_dense (pool_of_worker env config wid wk s pool)) texts = Inr v"
proof -
  have "worker_reply env config wid wk s (Dense_Req texts open_tx) = Some (Dense_Reply (Inr v))"
    by (rule worker_message_reply [OF assms(1)]) (use assms(2) in \<open>simp add: dispatch_embed_reply\<close>)
  then show ?thesis by (simp add: pool_dense_def pool_call_def pool_of_worker_def)
qed

lemma both_served:
  assumes "can_serve env wk"
    and "embed_both (en_projection env) (en_session env) (en_tokenizer env) (en_timing env) texts (sh_cost_model s)
      (wc_model_variant config) (build_shape_guard config (sh_ceiling s)) = Inr v"
  shows "pool_both False (ep_both (pool_of_worker env config wid wk s pool)) texts = Inr v"
proof -
  have "worker_reply env config wid wk s (Both_Req texts open_tx) = Some (Both_Reply (Inr v))"
    by (rule worker_message_reply [OF assms(1)]) (use assms(2) in \<open>simp add: dispatch_embed_reply\<close>)
  then show ?thesis by (simp add: pool_both_def pool_call_def pool_of_worker_def)
qed

lemma sparse_served:
  assumes "can_serve env wk"
    and "embed_sparse (en_projection env) (en_session env) (en_tokenizer env) (en_timing env) texts (sh_cost_model s)
      (wc_model_variant config) (build_shape_guard config (sh_ceiling s)) = Inr v"
  shows "pool_sparse False (ep_sparse (pool_of_worker env config wid wk s pool)) texts = Inr v"
proof -
  have "worker_reply env config wid wk s (Sparse_Req texts open_tx) = Some (Sparse_Reply (Inr v))"
    by (rule worker_message_reply [OF assms(1)]) (use assms(2) in \<open>simp add: dispatch_embed_reply\<close>)
  then show ?thesis by (simp add: pool_sparse_def pool_call_def pool_of_worker_def)
qed

text \<open>The abstract service: each text embedded on its own, without padding, batching or workers.\<close>

definition ideal_dense ::
  "model_variant \<Rightarrow> (int list \<Rightarrow> int list \<Rightarrow> fl list) \<Rightarrow> (int list \<Rightarrow> int list \<Rightarrow> fl list list) \<Rightarrow> encoding \<Rightarrow> fl list" where
  "ideal_dense v g h e = normalize_l2 (dense_of v g h (map int (enc_ids e)) (map int (enc_mask e)))"

definition ideal_sparse :: "projection \<Rightarrow> (int list \<Rightarrow> int list \<Rightarrow> fl list list) \<Rightarrow> encoding \<Rightarrow> sparse_embedding" where
  "ideal_sparse pj h e = sparse_of pj e (h (map int (enc_ids e)) (map int (enc_mask e)))"

text \<open>The model returned numbers: every component of its output for the text is a finite \<open>f32\<close>.\<close>

definition finite_output ::
  "model_variant \<Rightarrow> (int list \<Rightarrow> int list \<Rightarrow> fl list) \<Rightarrow> (int list \<Rightarrow> int list \<Rightarrow> fl list list) \<Rightarrow> encoding \<Rightarrow> bool" where
  "finite_output v g h e \<longleftrightarrow> list_all is_f32 (dense_of v g h (map int (enc_ids e)) (map int (enc_mask e)))"

lemma ideal_dense_finite: "finite_output v g h e \<Longrightarrow> all_finite (ideal_dense v g h e)"
  by (simp add: finite_output_def ideal_dense_def normalized_finite)

lemma ideal_batch_finite: "list_all (finite_output v g h) encs \<Longrightarrow> list_all all_finite (map (ideal_dense v g h) encs)"
  by (induction encs) (simp_all add: ideal_dense_finite)

lemma list_all_both: "list_all (\<lambda>x. P x \<and> Q x) xs \<longleftrightarrow> list_all P xs \<and> list_all Q xs"
  by (auto simp: list_all_iff)

lemma list_all_map_iff: "list_all P (map f xs) \<longleftrightarrow> list_all (\<lambda>x. P (f x)) xs"
  by (simp add: list_all_iff)

lemma ideal_sparse_indices:
  assumes "wf_encoding e" and "\<forall>i m. length (h i m) = length i" and "list_all (\<lambda>t. t < 2 ^ 32) (enc_ids e)"
  shows "list_all (\<lambda>t. t < 2 ^ 32) (sp_indices (ideal_sparse pj h e))"
proof -
  let ?s = "map (\<lambda>x. sparse_project (pj_dot pj) x (pj_weight pj) (pj_bias pj))
      (take (length (enc_ids e)) (h (map int (enc_ids e)) (map int (enc_mask e))))"
  have len: "length (enc_mask e) = length (enc_ids e)" "length ?s = length (enc_ids e)"
    using assms(1,2) by (simp_all add: wf_encoding_def)
  then obtain ix vs where mp: "sparse_maxpool (enc_ids e) (enc_mask e) ?s = Some (ix, vs)"
    by (metis sparse_maxpool_cases)
  then have "sp_indices (ideal_sparse pj h e) = ix" by (simp add: ideal_sparse_def sparse_of_def)
  then show ?thesis using sparse_maxpool_indices [OF len mp] assms(3) by (auto simp: list_all_iff)
qed

lemma sparse_values_kept: "sv_values (to_sparse_values e) = sp_values e"
  by (simp add: to_sparse_values_def)

lemma map_snd_indexed: "map (\<lambda>x. f (snd x)) (enumerate 0 xs) = map f xs"
  by (rule nth_equalityI) (simp_all add: nth_enumerate_eq)

section \<open>Properties of the whole server\<close>

text \<open>The endpoints behind the decoded request.\<close>

lemma dense_endpoint_refines:
  assumes "as_pool st = pool_of_worker env config wid wk s pool" and "can_serve env wk"
    and "as_ready st" and "live_worker_count (as_pool st) \<noteq> 0" and "valid_batch (as_max_batch st) (dr_input req)"
    and "tokenizes (en_tokenizer env) (dr_input req) encs"
    and "session_contract (en_session env) (wc_model_variant config) g h width"
    and "admitted (build_shape_guard config (sh_ceiling s)) (sh_cost_model s) encs"
    and "padding_invariant (dense_of (wc_model_variant config) g h) (\<lambda>e r. r) encs"
  shows "\<exists>resp. dense_embeddings st req = Inr resp \<and>
    map dd_index (ds_data resp) = [0..<length (dr_input req)] \<and>
    map dd_embedding (ds_data resp) = map (ideal_dense (wc_model_variant config) g h) encs"
proof -
  have len: "length encs = length (dr_input req)" using assms(6) by (simp add: tokenizes_def)
  obtain es where "embed_dense (en_session env) (en_tokenizer env) (en_timing env) (dr_input req) (sh_cost_model s)
      (wc_model_variant config) (build_shape_guard config (sh_ceiling s)) =
      Inr (map (ideal_dense (wc_model_variant config) g h) encs, es)"
    using dense_pointwise [OF assms(6-9), of "en_timing env"] unfolding ideal_dense_def by blast
  from dense_served [OF assms(2) this, of wid pool]
  have p: "pool_dense (ep_closed (as_pool st)) (ep_dense (as_pool st)) (dr_input req) =
      Inr (map (ideal_dense (wc_model_variant config) g h) encs, es)"
    by (simp add: assms(1) pool_of_worker_def)
  have "check_ready st = Inr ()" "validate_input (dr_input req) (as_max_batch st) = Inr ()"
    using assms(3-5) by (simp_all add: result_iff)
  then show ?thesis
    using p by (simp add: dense_embeddings_def Let_def case_prod_unfold comp_def len map_snd_indexed)
qed

text \<open>A worker without models that can load them, and an open server in front of it.\<close>

definition sample_server :: app_state where
  "sample_server = sample_state\<lparr>as_ready := True,
     as_pool := pool_of_worker (sample_env\<lparr>en_load := Inr ()\<rparr>) (sample_config\<lparr>wc_trt_inband_jit_guard_enabled := False\<rparr>) 0
       (sample_worker False) sample_shared sample_pool\<rparr>"

lemma sample_env_parts:
  "en_tokenizer sample_env = sample_tok" "en_session sample_env = sample_run" "en_projection sample_env = sample_pj"
  by (simp_all add: sample_env_def)

lemma sample_server_facts:
  "as_pool sample_server = pool_of_worker (sample_env\<lparr>en_load := Inr ()\<rparr>)
     (sample_config\<lparr>wc_trt_inband_jit_guard_enabled := False\<rparr>) 0 (sample_worker False) sample_shared sample_pool"
  "can_serve (sample_env\<lparr>en_load := Inr ()\<rparr>) (sample_worker False)" "as_ready sample_server"
  "live_worker_count (pool_of_worker env config wid wk s sample_pool) = 2" "valid_batch (as_max_batch sample_server) [''ab'', ''c'']"
  "admitted (build_shape_guard (sample_config\<lparr>wc_trt_inband_jit_guard_enabled := False\<rparr>) n) cm encs"
  "wc_model_variant (sample_config\<lparr>wc_trt_inband_jit_guard_enabled := False\<rparr>) = Fp32"
  by (simp_all add: can_serve_def sample_server_def live_worker_count_def pool_of_worker_def sample_pool_def sample_state_def
      valid_batch_def char_count_def MAX_STRING_CHARS_def build_shape_guard_def sample_config_def is_continuation_byte_def)

lemma both_endpoint_refines:
  assumes "as_pool st = pool_of_worker env config wid wk s pool" and "can_serve env wk"
    and "as_ready st" and "live_worker_count (as_pool st) \<noteq> 0" and "valid_batch (as_max_batch st) (ur_input req)"
    and "tokenizes (en_tokenizer env) (ur_input req) encs"
    and "session_contract (en_session env) (wc_model_variant config) g h (length (pj_weight (en_projection env)))"
    and "admitted (build_shape_guard config (sh_ceiling s)) (sh_cost_model s) encs"
    and "padding_invariant (dense_of (wc_model_variant config) g h) (\<lambda>e r. r) encs"
    and "padding_invariant h (\<lambda>e. take (length (enc_ids e))) encs"
    and "list_all (\<lambda>e. list_all (\<lambda>t. t < 2 ^ 32) (enc_ids e)) encs"
  shows "\<exists>resp. both_embeddings st req = Inr resp \<and>
    map ud_index (uo_data resp) = [0..<length (ur_input req)] \<and>
    map ud_embedding (uo_data resp) = map (ideal_dense (wc_model_variant config) g h) encs \<and>
    map (\<lambda>d. map unat (sv_indices (ud_sparse_values d))) (uo_data resp) =
      map (\<lambda>e. sp_indices (ideal_sparse (en_projection env) h e)) encs \<and>
    map (\<lambda>d. sv_values (ud_sparse_values d)) (uo_data resp) =
      map (\<lambda>e. sp_values (ideal_sparse (en_projection env) h e)) encs"
proof -
  let ?v = "wc_model_variant config" and ?pj = "en_projection env"
  let ?pair = "\<lambda>e. \<lparr>du_dense = ideal_dense ?v g h e, du_sparse = ideal_sparse ?pj h e\<rparr>"
  have len: "length encs = length (ur_input req)" using assms(6) by (simp add: tokenizes_def)
  obtain es es' where "embed_dense (en_session env) (en_tokenizer env) (en_timing env) (ur_input req) (sh_cost_model s)
      ?v (build_shape_guard config (sh_ceiling s)) = Inr (map (ideal_dense ?v g h) encs, es)"
    and "embed_sparse ?pj (en_session env) (en_tokenizer env) (en_timing env) (ur_input req) (sh_cost_model s)
      ?v (build_shape_guard config (sh_ceiling s)) = Inr (map (ideal_sparse ?pj h) encs, es')"
    using dense_pointwise [OF assms(6-9), of "en_timing env"]
      embed_sparse_batching_invariant [OF assms(6-8,10), of "en_timing env"] unfolding ideal_dense_def ideal_sparse_def by blast
  then have "embed_both ?pj (en_session env) (en_tokenizer env) (en_timing env) (ur_input req) (sh_cost_model s)
      ?v (build_shape_guard config (sh_ceiling s)) = Inr (map ?pair encs, es)"
    using dense_sparse_same_stats by (fastforce simp: embed_both_iff_pair map2_map_map)
  from both_served [OF assms(2) this, of wid pool]
  have p: "pool_both (ep_closed (as_pool st)) (ep_both (as_pool st)) (ur_input req) = Inr (map ?pair encs, es)"
    by (simp add: assms(1) pool_of_worker_def)
  have h: "\<forall>i m. length (h i m) = length i" using assms(7) by (simp add: session_contract_def)
  have ix: "map unat (sv_indices (to_sparse_values (ideal_sparse ?pj h e))) = sp_indices (ideal_sparse ?pj h e)"
    if "e \<in> set encs" for e
    using that assms(6,11) h
    by (intro to_sparse_values_lossless ideal_sparse_indices) (auto simp: tokenizes_def list_all_iff)
  have "check_ready st = Inr ()" "validate_input (ur_input req) (as_max_batch st) = Inr ()"
    using assms(3-5) by (simp_all add: result_iff)
  then show ?thesis
    using p ix map_snd_indexed [of "\<lambda>d. map unat (sv_indices (to_sparse_values (du_sparse d)))" "map ?pair encs"]
      map_snd_indexed [of "\<lambda>d. sv_values (to_sparse_values (du_sparse d))" "map ?pair encs"]
    by (simp add: both_embeddings_def Let_def case_prod_unfold comp_def len map_snd_indexed sparse_values_kept)
qed

lemma sparse_endpoint_refines:
  assumes "as_pool st = pool_of_worker env config wid wk s pool" and "can_serve env wk"
    and "as_ready st" and "live_worker_count (as_pool st) \<noteq> 0" and "valid_batch (as_max_batch st) (sr_input req)"
    and "tokenizes (en_tokenizer env) (sr_input req) encs"
    and "session_contract (en_session env) (wc_model_variant config) g h (length (pj_weight (en_projection env)))"
    and "admitted (build_shape_guard config (sh_ceiling s)) (sh_cost_model s) encs"
    and "padding_invariant h (\<lambda>e. take (length (enc_ids e))) encs"
    and "list_all (\<lambda>e. list_all (\<lambda>t. t < 2 ^ 32) (enc_ids e)) encs"
  shows "\<exists>resp. sparse_embeddings st req = Inr resp \<and>
    map sd_index (ss_data resp) = [0..<length (sr_input req)] \<and>
    map (\<lambda>d. map unat (sv_indices (sd_sparse_values d))) (ss_data resp) =
      map (\<lambda>e. sp_indices (ideal_sparse (en_projection env) h e)) encs \<and>
    map (\<lambda>d. sv_values (sd_sparse_values d)) (ss_data resp) =
      map (\<lambda>e. sp_values (ideal_sparse (en_projection env) h e)) encs"
proof -
  let ?v = "wc_model_variant config" and ?pj = "en_projection env"
  have len: "length encs = length (sr_input req)" using assms(6) by (simp add: tokenizes_def)
  obtain es where "embed_sparse ?pj (en_session env) (en_tokenizer env) (en_timing env) (sr_input req) (sh_cost_model s)
      ?v (build_shape_guard config (sh_ceiling s)) = Inr (map (ideal_sparse ?pj h) encs, es)"
    using embed_sparse_batching_invariant [OF assms(6-9), of "en_timing env"] unfolding ideal_sparse_def by blast
  from sparse_served [OF assms(2) this, of wid pool]
  have p: "pool_sparse (ep_closed (as_pool st)) (ep_sparse (as_pool st)) (sr_input req) = Inr (map (ideal_sparse ?pj h) encs, es)"
    by (simp add: assms(1) pool_of_worker_def)
  have h: "\<forall>i m. length (h i m) = length i" using assms(7) by (simp add: session_contract_def)
  have ix: "map unat (sv_indices (to_sparse_values (ideal_sparse ?pj h e))) = sp_indices (ideal_sparse ?pj h e)"
    if "e \<in> set encs" for e
    using that assms(6,10) h
    by (intro to_sparse_values_lossless ideal_sparse_indices) (auto simp: tokenizes_def list_all_iff)
  have "check_ready st = Inr ()" "validate_input (sr_input req) (as_max_batch st) = Inr ()"
    using assms(3-5) by (simp_all add: result_iff)
  then show ?thesis
    using p ix map_snd_indexed [of "\<lambda>d. map unat (sv_indices (to_sparse_values d))" "map (ideal_sparse ?pj h) encs"]
      map_snd_indexed [of "\<lambda>d. sv_values (to_sparse_values d)" "map (ideal_sparse ?pj h) encs"]
    by (simp add: sparse_embeddings_def Let_def case_prod_unfold comp_def len map_snd_indexed sparse_values_kept)
qed

lemma sample_ids: "list_all (\<lambda>e. list_all (\<lambda>t. t < 2 ^ 32) (enc_ids e)) (sample_encs texts)"
proof -
  have "of_char c < (2 ^ 32 :: nat)" for c :: char
    by (rule less_le_trans [OF nat_of_char_less_256]) simp
  then show ?thesis by (auto simp: sample_encs_def sample_tok_def list_all_iff)
qed


lemma sample_premises:
  defines "env \<equiv> sample_env\<lparr>en_load := Inr ()\<rparr>" and "config \<equiv> sample_config\<lparr>wc_trt_inband_jit_guard_enabled := False\<rparr>"
    and "encs \<equiv> sample_encs [''ab'', ''c'']"
  shows "live_worker_count (as_pool sample_server) \<noteq> 0" "valid_batch (as_max_batch sample_server) [''ab'', ''c'']"
    "tokenizes (en_tokenizer env) [''ab'', ''c''] encs"
    "session_contract (en_session env) (wc_model_variant config) sample_g sample_h (length (pj_weight (en_projection env)))"
    "admitted (build_shape_guard config (sh_ceiling sample_shared)) (sh_cost_model sample_shared) encs"
    "padding_invariant (dense_of (wc_model_variant config) sample_g sample_h) (\<lambda>e r. r) encs"
    "padding_invariant sample_h (\<lambda>e. take (length (enc_ids e))) encs"
    "list_all (\<lambda>e. list_all (\<lambda>t. t < 2 ^ 32) (enc_ids e)) encs"
  unfolding assms using sample_contract sample_ids [of "[''ab'', ''c'']"]
  by (simp_all add: sample_server_facts sample_tokenizes sample_invariant sample_env_parts sample_pj_def)

lemma sample_finite:
  defines "env \<equiv> sample_env\<lparr>en_load := Inr ()\<rparr>" and "config \<equiv> sample_config\<lparr>wc_trt_inband_jit_guard_enabled := False\<rparr>"
    and "encs \<equiv> sample_encs [''ab'', ''c'']"
  shows "list_all (finite_output (wc_model_variant config) sample_g sample_h) encs"
    "list_all (\<lambda>e. all_finite (sp_values (ideal_sparse (en_projection env) sample_h e))) encs"
    "list_all (\<lambda>e. finite_output (wc_model_variant config) sample_g sample_h e \<and>
       all_finite (sp_values (ideal_sparse (en_projection env) sample_h e))) encs"
proof -
  have d: "list_all (finite_output Fp32 sample_g sample_h) encs" unfolding encs_def by code_simp
  have s: "list_all (\<lambda>e. all_finite (sp_values (ideal_sparse sample_pj sample_h e))) encs" unfolding encs_def by code_simp
  show "list_all (finite_output (wc_model_variant config) sample_g sample_h) encs"
      "list_all (\<lambda>e. all_finite (sp_values (ideal_sparse (en_projection env) sample_h e))) encs"
      "list_all (\<lambda>e. finite_output (wc_model_variant config) sample_g sample_h e \<and>
         all_finite (sp_values (ideal_sparse (en_projection env) sample_h e))) encs"
    unfolding assms(1,2) using d s by (simp_all add: sample_server_facts sample_env_parts list_all_iff)
qed

section \<open>From the body of a request to the body of its reply\<close>

text \<open>
  C3: the dense route implements the abstract service on the wire. A \<open>POST\<close> whose JSON body decodes to a valid batch, sent to an open server where a worker
  that holds or can load its models takes it, is answered with 200 and a JSON body. A client that reads it finds one entry per text,
  numbered in order, and the vector of a text is the one the model gives for that text alone: the layers, the extractor,
  validation, the pool, the retry wrapper, the guard, the packing, padding, scattering and the serialiser leave no
  trace in it. A vector with a number that is not finite makes the body unreadable instead of wrong. The model is assumed to keep its output
  contract and to ignore padding.
\<close>

theorem dense_wire_refines:
  assumes "layers_documented w" and "map_of build_router (rq_path req) = Some (POST, Dense_Endpoint)" and "rq_method req = ''POST''"
    and "wb_json w (seen_request w n uuid req) = Inr j" and "dense_request_deserialize j = Some body"
    and "as_pool st = pool_of_worker env config wid wk s pool" and "can_serve env wk"
    and "as_ready st" and "live_worker_count (as_pool st) \<noteq> 0" and "valid_batch (as_max_batch st) (dr_input body)"
    and "tokenizes (en_tokenizer env) (dr_input body) encs"
    and "session_contract (en_session env) (wc_model_variant config) g h width"
    and "admitted (build_shape_guard config (sh_ceiling s)) (sh_cost_model s) encs"
    and "padding_invariant (dense_of (wc_model_variant config) g h) (\<lambda>e r. r) encs"
  shows "\<exists>out resp. answered_with (router_service w st elapsed n uuid req) out \<and>
    (list_all (finite_output (wc_model_variant config) g h) encs \<longrightarrow> read_dense_response out = Some resp) \<and>
    map dd_index (ds_data resp) = [0..<length (dr_input body)] \<and>
    map dd_embedding (ds_data resp) = map (ideal_dense (wc_model_variant config) g h) encs"
proof -
  obtain resp where resp: "dense_embeddings st body = Inr resp" "map dd_index (ds_data resp) = [0..<length (dr_input body)]"
      "map dd_embedding (ds_data resp) = map (ideal_dense (wc_model_variant config) g h) encs"
    using dense_endpoint_refines [OF assms(6-14)] by blast
  have "list_all dense_finite (ds_data resp) = list_all all_finite (map dd_embedding (ds_data resp))"
    by (simp add: list_all_iff dense_finite_def)
  then have "list_all (finite_output (wc_model_variant config) g h) encs \<Longrightarrow> list_all dense_finite (ds_data resp)"
    unfolding resp(3) by (simp only: ideal_batch_finite)
  then have "list_all (finite_output (wc_model_variant config) g h) encs \<longrightarrow>
      read_dense_response (dense_response_serialize resp) = Some resp"
    by (simp add: dense_wire.get_put)
  then show ?thesis using dense_answer [OF assms(1-5) resp(1)] resp(2,3) by blast
qed

theorem dense_wire_refines_witness:
  "\<exists>out resp. answered_with (router_service sample_web sample_server False 1000 ''7f3a'' (sample_post ''/v1/embeddings'')) out \<and>
     read_dense_response out = Some resp \<and> map dd_index (ds_data resp) = [0, 1]"
proof -
  let ?req = "sample_post ''/v1/embeddings''"
  have r: "map_of build_router (rq_path ?req) = Some (POST, Dense_Endpoint)" "rq_method ?req = ''POST''"
    by (simp_all add: sample_post_def build_router_def)
  have n: "20 \<le> (1000::nat)" by simp
  have two: "[0..<length [''ab'', ''c'']] = [0, 1]" by (simp add: upt_conv_Cons)
  show ?thesis
    using dense_wire_refines [OF sample_web_documented(1) r sample_seen [OF n, of "''7f3a''"] sample_decoded(1) sample_server_facts(1-3),
        unfolded dense_request.select_convs, OF sample_premises(1-6), of False] sample_finite
    unfolding two by (simp only: simp_thms) (elim exE conjE, intro exI conjI)
qed

text \<open>
  C4: the fused route implements the abstract service for both kinds of vectors on the wire. Under the same conditions, on each of the
  three spellings of its path, the entry of a text carries its dense vector and its sparse weights as the model gives them for that
  text alone, and the 32-bit indices a client reads are the token ids themselves, none truncated.
\<close>

theorem both_wire_refines:
  assumes "layers_documented w" and "rq_path req \<in> {''/v1/embeddings:both'', ''/v1/embeddings%3Aboth'', ''/v1/embeddings%3aboth''}"
    and "rq_method req = ''POST''"
    and "wb_json w (seen_request w n uuid req) = Inr j" and "dual_request_deserialize j = Some body"
    and "as_pool st = pool_of_worker env config wid wk s pool" and "can_serve env wk"
    and "as_ready st" and "live_worker_count (as_pool st) \<noteq> 0" and "valid_batch (as_max_batch st) (ur_input body)"
    and "tokenizes (en_tokenizer env) (ur_input body) encs"
    and "session_contract (en_session env) (wc_model_variant config) g h (length (pj_weight (en_projection env)))"
    and "admitted (build_shape_guard config (sh_ceiling s)) (sh_cost_model s) encs"
    and "padding_invariant (dense_of (wc_model_variant config) g h) (\<lambda>e r. r) encs"
    and "padding_invariant h (\<lambda>e. take (length (enc_ids e))) encs"
    and "list_all (\<lambda>e. list_all (\<lambda>t. t < 2 ^ 32) (enc_ids e)) encs"
  shows "\<exists>out resp. answered_with (router_service w st elapsed n uuid req) out \<and>
    (list_all (\<lambda>e. finite_output (wc_model_variant config) g h e \<and>
        all_finite (sp_values (ideal_sparse (en_projection env) h e))) encs \<longrightarrow> read_dual_response out = Some resp) \<and>
    map ud_index (uo_data resp) = [0..<length (ur_input body)] \<and>
    map ud_embedding (uo_data resp) = map (ideal_dense (wc_model_variant config) g h) encs \<and>
    map (\<lambda>d. map unat (sv_indices (ud_sparse_values d))) (uo_data resp) =
      map (\<lambda>e. sp_indices (ideal_sparse (en_projection env) h e)) encs \<and>
    map (\<lambda>d. sv_values (ud_sparse_values d)) (uo_data resp) =
      map (\<lambda>e. sp_values (ideal_sparse (en_projection env) h e)) encs"
proof -
  let ?v = "wc_model_variant config" and ?pj = "en_projection env"
  obtain resp where resp: "both_embeddings st body = Inr resp" "map ud_index (uo_data resp) = [0..<length (ur_input body)]"
      "map ud_embedding (uo_data resp) = map (ideal_dense ?v g h) encs"
      "map (\<lambda>d. map unat (sv_indices (ud_sparse_values d))) (uo_data resp) = map (\<lambda>e. sp_indices (ideal_sparse ?pj h e)) encs"
      "map (\<lambda>d. sv_values (ud_sparse_values d)) (uo_data resp) = map (\<lambda>e. sp_values (ideal_sparse ?pj h e)) encs"
    using both_endpoint_refines [OF assms(6-16)] by blast
  have route: "map_of build_router (rq_path req) = Some (POST, Both_Endpoint)"
    using assms(2) by (auto simp: build_router_def)
  have "list_all dual_finite (uo_data resp) \<longleftrightarrow> list_all all_finite (map ud_embedding (uo_data resp)) \<and>
      list_all all_finite (map (\<lambda>d. sv_values (ud_sparse_values d)) (uo_data resp))"
    by (auto simp: list_all_iff dual_finite_def sparse_finite_def)
  then have "list_all dual_finite (uo_data resp)"
    if "list_all (\<lambda>e. finite_output ?v g h e \<and> all_finite (sp_values (ideal_sparse ?pj h e))) encs"
    using that ideal_batch_finite [of ?v g h encs] unfolding resp(3,5) list_all_both list_all_map_iff by blast
  then have "list_all (\<lambda>e. finite_output ?v g h e \<and> all_finite (sp_values (ideal_sparse ?pj h e))) encs \<longrightarrow>
      read_dual_response (dual_response_serialize resp) = Some resp"
    by (simp add: dual_wire.get_put)
  then show ?thesis using both_answer [OF assms(1) route assms(3-5) resp(1)] resp(2-5) by blast
qed

theorem both_wire_refines_witness:
  "\<exists>out resp. answered_with (router_service sample_web sample_server False 1000 ''7f3a'' (sample_post ''/v1/embeddings%3aboth'')) out \<and>
     read_dual_response out = Some resp \<and> map ud_index (uo_data resp) = [0, 1]"
proof -
  let ?req = "sample_post ''/v1/embeddings%3aboth''"
  have r: "rq_path ?req \<in> {''/v1/embeddings:both'', ''/v1/embeddings%3Aboth'', ''/v1/embeddings%3aboth''}" "rq_method ?req = ''POST''"
    by (simp_all add: sample_post_def)
  have n: "20 \<le> (1000::nat)" by simp
  have two: "[0..<length [''ab'', ''c'']] = [0, 1]" by (simp add: upt_conv_Cons)
  show ?thesis
    using both_wire_refines [OF sample_web_documented(1) r sample_seen [OF n, of "''7f3a''"] sample_decoded(3) sample_server_facts(1-3),
        unfolded dual_request.select_convs, OF sample_premises(1-8), of False] sample_finite
    unfolding two by (simp only: simp_thms) (elim exE conjE, intro exI conjI)
qed

text \<open>
  C5: the sparse route implements the abstract service on the wire: one entry per text, in order, with the weights the model gives for that text
  alone under its own, untruncated token ids.
\<close>

theorem sparse_wire_refines:
  assumes "layers_documented w" and "map_of build_router (rq_path req) = Some (POST, Sparse_Endpoint)" and "rq_method req = ''POST''"
    and "wb_json w (seen_request w n uuid req) = Inr j" and "sparse_request_deserialize j = Some body"
    and "as_pool st = pool_of_worker env config wid wk s pool" and "can_serve env wk"
    and "as_ready st" and "live_worker_count (as_pool st) \<noteq> 0" and "valid_batch (as_max_batch st) (sr_input body)"
    and "tokenizes (en_tokenizer env) (sr_input body) encs"
    and "session_contract (en_session env) (wc_model_variant config) g h (length (pj_weight (en_projection env)))"
    and "admitted (build_shape_guard config (sh_ceiling s)) (sh_cost_model s) encs"
    and "padding_invariant h (\<lambda>e. take (length (enc_ids e))) encs"
    and "list_all (\<lambda>e. list_all (\<lambda>t. t < 2 ^ 32) (enc_ids e)) encs"
  shows "\<exists>out resp. answered_with (router_service w st elapsed n uuid req) out \<and>
    (list_all (\<lambda>e. all_finite (sp_values (ideal_sparse (en_projection env) h e))) encs \<longrightarrow> read_sparse_response out = Some resp) \<and>
    map sd_index (ss_data resp) = [0..<length (sr_input body)] \<and>
    map (\<lambda>d. map unat (sv_indices (sd_sparse_values d))) (ss_data resp) =
      map (\<lambda>e. sp_indices (ideal_sparse (en_projection env) h e)) encs \<and>
    map (\<lambda>d. sv_values (sd_sparse_values d)) (ss_data resp) =
      map (\<lambda>e. sp_values (ideal_sparse (en_projection env) h e)) encs"
proof -
  let ?pj = "en_projection env"
  obtain resp where resp: "sparse_embeddings st body = Inr resp" "map sd_index (ss_data resp) = [0..<length (sr_input body)]"
      "map (\<lambda>d. map unat (sv_indices (sd_sparse_values d))) (ss_data resp) = map (\<lambda>e. sp_indices (ideal_sparse ?pj h e)) encs"
      "map (\<lambda>d. sv_values (sd_sparse_values d)) (ss_data resp) = map (\<lambda>e. sp_values (ideal_sparse ?pj h e)) encs"
    using sparse_endpoint_refines [OF assms(6-15)] by blast
  have "list_all (\<lambda>d. sparse_finite (sd_sparse_values d)) (ss_data resp) \<longleftrightarrow>
      list_all all_finite (map (\<lambda>d. sv_values (sd_sparse_values d)) (ss_data resp))"
    by (simp add: list_all_iff sparse_finite_def)
  then have "list_all (\<lambda>e. all_finite (sp_values (ideal_sparse ?pj h e))) encs \<longrightarrow>
      read_sparse_response (sparse_response_serialize resp) = Some resp"
    unfolding resp(4) by (simp add: list_all_iff sparse_wire.get_put)
  then show ?thesis using sparse_answer [OF assms(1-5) resp(1)] resp(2-4) by blast
qed

theorem sparse_wire_refines_witness:
  "\<exists>out resp. answered_with (router_service sample_web sample_server False 1000 ''7f3a'' (sample_post ''/v1/sparse-embeddings'')) out \<and>
     read_sparse_response out = Some resp \<and> map sd_index (ss_data resp) = [0, 1]"
proof -
  let ?req = "sample_post ''/v1/sparse-embeddings''"
  have r: "map_of build_router (rq_path ?req) = Some (POST, Sparse_Endpoint)" "rq_method ?req = ''POST''"
    by (simp_all add: sample_post_def build_router_def)
  have n: "20 \<le> (1000::nat)" by simp
  have two: "[0..<length [''ab'', ''c'']] = [0, 1]" by (simp add: upt_conv_Cons)
  show ?thesis
    using sparse_wire_refines [OF sample_web_documented(1) r sample_seen [OF n, of "''7f3a''"] sample_decoded(2) sample_server_facts(1-3),
        unfolded sparse_request.select_convs, OF sample_premises(1-5,7,8), of False] sample_finite
    unfolding two by (simp only: simp_thms) (elim exE conjE, intro exI conjI)
qed

section \<open>Every answer in every interleaving\<close>

text \<open>What the abstract service promises about a reply: if it carries vectors, they are the ideal ones.\<close>

fun ideal_answer :: "(string list \<Rightarrow> fl list list) \<Rightarrow> (string list \<Rightarrow> sparse_embedding list) \<Rightarrow> embed_request \<Rightarrow> reply \<Rightarrow> bool" where
  "ideal_answer D S (Dense_Req texts tx) (Dense_Reply (Inr (vs, st))) \<longleftrightarrow> vs = D texts"
| "ideal_answer D S (Sparse_Req texts tx) (Sparse_Reply (Inr (vs, st))) \<longleftrightarrow> vs = S texts"
| "ideal_answer D S (Both_Req texts tx) (Both_Reply (Inr (vs, st))) \<longleftrightarrow> map du_dense vs = D texts \<and> map du_sparse vs = S texts"
| "ideal_answer D S _ _ \<longleftrightarrow> True"

lemma dense_only_ideal:
  assumes "tokenizes tok texts encs" and "session_contract sess v g h width"
    and "padding_invariant (dense_of v g h) (\<lambda>e r. r) encs" and "embed_dense sess tok tm texts cm v guard = Inr (vs, st)"
  shows "vs = map (ideal_dense v g h) encs"
proof (cases "admitted guard cm encs")
  case True
  then show ?thesis using dense_pointwise [OF assms(1,2) True assms(3), of tm] assms(4) by (auto simp: ideal_dense_def)
next
  case False
  then show ?thesis using not_admitted_refused [OF assms(1)] assms(4) by (metis embed_dense_def sum.simps(4))
qed

lemma sparse_only_ideal:
  assumes "tokenizes tok texts encs" and "session_contract sess v g h (length (pj_weight pj))"
    and "padding_invariant h (\<lambda>e. take (length (enc_ids e))) encs" and "embed_sparse pj sess tok tm texts cm v guard = Inr (vs, st)"
  shows "vs = map (ideal_sparse pj h) encs"
proof (cases "admitted guard cm encs")
  case True
  then show ?thesis
    using embed_sparse_batching_invariant [OF assms(1,2) True assms(3), of tm] assms(4) by (auto simp: ideal_sparse_def)
next
  case False
  have "\<exists>e. embed_sparse pj sess tok tm texts cm v guard = Inl e"
    using not_admitted_refused [OF assms(1) False] unfolding embed_sparse_def by (metis rbind.simps(1))
  then show ?thesis using assms(4) by simp
qed

lemma both_only_ideal:
  assumes "tokenizes tok texts encs" and "session_contract sess v g h (length (pj_weight pj))"
    and "padding_invariant (dense_of v g h) (\<lambda>e r. r) encs" and "padding_invariant h (\<lambda>e. take (length (enc_ids e))) encs"
    and "embed_both pj sess tok tm texts cm v guard = Inr (vs, st)"
  shows "map du_dense vs = map (ideal_dense v g h) encs \<and> map du_sparse vs = map (ideal_sparse pj h) encs"
proof -
  obtain ds ss where "embed_dense sess tok tm texts cm v guard = Inr (ds, st)" "embed_sparse pj sess tok tm texts cm v guard = Inr (ss, st)"
      "vs = map2 (\<lambda>d s. \<lparr>du_dense = d, du_sparse = s\<rparr>) ds ss"
    using assms(5) unfolding embed_both_iff_pair by blast
  moreover from this have "ds = map (ideal_dense v g h) encs" "ss = map (ideal_sparse pj h) encs"
    using dense_only_ideal [OF assms(1-3)] sparse_only_ideal [OF assms(1,2,4)] by blast+
  ultimately show ?thesis by (simp add: map2_map_map comp_def)
qed

lemma retry_value: "embed_with_trt_retry f cm = Inr v \<Longrightarrow> \<exists>cm'. f cm' = Inr v"
  by (auto simp: embed_with_trt_retry_def split: sum.splits failure.splits if_splits)

lemma dispatch_embed_success:
  assumes "dispatch_embed config failures mk what f texts tx warmed s = Some d" and "Reply j rep \<in> set (dp_effects d)"
  shows "\<exists>res. rep = mk res \<and> (\<forall>v. res = Inr v \<longrightarrow> (\<exists>cm. f cm = Inr v))"
proof -
  obtain res where "rep = mk res" "case res of Inr v \<Rightarrow> embed_with_trt_retry f (sh_cost_model s) = Inr v | Inl e \<Rightarrow> True"
    using dispatch_embed_reply_value [OF assms] by blast
  then show ?thesis using retry_value [of f "sh_cost_model s"] by (cases res) auto
qed

lemma dispatch_ideal:
  assumes m: "same_model env (wc_model_variant config) E g h pj"
    and inv: "\<And>texts. padding_invariant (dense_of (wc_model_variant config) g h) (\<lambda>e r. r) (E texts)"
      "\<And>texts. padding_invariant h (\<lambda>e. take (length (enc_ids e))) (E texts)"
    and d: "dispatch_request env config wid guard failures warmed r s = Some d" "Reply j rep \<in> set (dp_effects d)"
  shows "ideal_answer (\<lambda>texts. map (ideal_dense (wc_model_variant config) g h) (E texts)) (\<lambda>texts. map (ideal_sparse pj h) (E texts)) r rep"
proof -
  have tok: "tokenizes (en_tokenizer env) texts (E texts)" for texts using m by (simp add: same_model_def)
  have ses: "session_contract (en_session env) (wc_model_variant config) g h (length (pj_weight pj))" "en_projection env = pj"
    using m by (simp_all add: same_model_def)
  show ?thesis
  proof (cases r)
    case (Dense_Req texts tx)
    let ?f = "\<lambda>cm. embed_dense (en_session env) (en_tokenizer env) (en_timing env) texts cm (wc_model_variant config) guard"
    obtain what where "dispatch_embed config failures Dense_Reply what ?f texts tx warmed s = Some d"
      using d(1) Dense_Req ses(2) by simp
    from dispatch_embed_success [OF this d(2)] obtain res where res: "rep = Dense_Reply res" "res = Inr v \<Longrightarrow> \<exists>cm. ?f cm = Inr v" for v
      by metis
    show ?thesis
    proof (cases res)
      case (Inr v)
      then show ?thesis using Dense_Req res dense_only_ideal [OF tok ses(1) inv(1)] by (cases v) fastforce
    qed (simp add: Dense_Req res(1))
  next
    case (Sparse_Req texts tx)
    let ?f = "\<lambda>cm. embed_sparse pj (en_session env) (en_tokenizer env) (en_timing env) texts cm (wc_model_variant config) guard"
    obtain what where "dispatch_embed config failures Sparse_Reply what ?f texts tx warmed s = Some d"
      using d(1) Sparse_Req ses(2) by simp
    from dispatch_embed_success [OF this d(2)] obtain res where res: "rep = Sparse_Reply res" "res = Inr v \<Longrightarrow> \<exists>cm. ?f cm = Inr v" for v
      by metis
    show ?thesis
    proof (cases res)
      case (Inr v)
      then show ?thesis using Sparse_Req res sparse_only_ideal [OF tok ses(1) inv(2)] by (cases v) fastforce
    qed (simp add: Sparse_Req res(1))
  next
    case (Both_Req texts tx)
    let ?f = "\<lambda>cm. embed_both pj (en_session env) (en_tokenizer env) (en_timing env) texts cm (wc_model_variant config) guard"
    obtain what where "dispatch_embed config failures Both_Reply what ?f texts tx warmed s = Some d"
      using d(1) Both_Req ses(2) by simp
    from dispatch_embed_success [OF this d(2)] obtain res where res: "rep = Both_Reply res" "res = Inr v \<Longrightarrow> \<exists>cm. ?f cm = Inr v" for v
      by metis
    show ?thesis
    proof (cases res)
      case (Inr v)
      then show ?thesis using Both_Req res both_only_ideal [OF tok ses(1) inv] by (cases v) fastforce
    qed (simp add: Both_Req res(1))
  qed simp_all
qed

lemma load_error_ideal: "Reply j rep = reply_request_load_error r e \<Longrightarrow> ideal_answer D S r rep"
  by (cases r) auto

lemma config_variant: "wc_model_variant (make_worker_config config n i) = wc_model_variant config"
  by (simp add: make_worker_config_def Let_def)

text \<open>
  C2: every answer of the pool is the answer of the abstract service. For any number of workers that share one model, in every interleaving of
  callers, workers, engine notifications, unloads, reloads and changes of the cost model, the vectors of every
  successful reply are the ones the model gives for each text of that very request alone.
\<close>

theorem concurrent_answers_ideal:
  assumes "server_flow_reachable env config n cm w f" and "\<And>i. same_model (env i) (wc_model_variant config) E g h pj"
    and "\<And>texts. padding_invariant (dense_of (wc_model_variant config) g h) (\<lambda>e r. r) (E texts)"
    and "\<And>texts. padding_invariant h (\<lambda>e. take (length (enc_ids e))) (E texts)"
    and "r \<in> set (rf_submitted f)" and "reply_for (req_id r) (rf_effects f) = Some rep"
  shows "ideal_answer (\<lambda>texts. map (ideal_dense (wc_model_variant config) g h) (E texts)) (\<lambda>texts. map (ideal_sparse pj h) (E texts)) r rep"
proof -
  let ?ok = "ideal_answer (\<lambda>texts. map (ideal_dense (wc_model_variant config) g h) (E texts)) (\<lambda>texts. map (ideal_sparse pj h) (E texts))"
  have "checked_workers (server_pass env config n) (server_start env config n) (make_worker_config config n) ?ok"
  proof (rule checked_workers.intro [OF server_request_workers], unfold_locales)
    show "?ok (close_tx r) = ?ok r" for r by (cases r) (auto simp: fun_eq_iff elim!: ideal_answer.elims)
    fix i ns r wk s effs ctl wk' s' j rep
    assume "server_pass env config n i ns (Request r) wk s = (effs, ctl, wk', s')" "Reply j rep \<in> set effs"
    from iteration_reply_source [OF this [unfolded server_pass_def]] show "?ok r rep"
      using load_error_ideal dispatch_ideal [where config = "make_worker_config config n i", unfolded config_variant, OF assms(2-4)]
      by metis
  qed
  from checked_workers.reachable_kept [OF this assms(1) [unfolded server_flow_reachable_def]]
  obtain r' where r': "r' \<in> set (rf_submitted f)" "req_id r' = req_id r" "?ok r' rep"
    using reply_for_mem [OF assms(6)] by (auto simp: checked_workers.kept_def [OF \<open>checked_workers _ _ _ _\<close>])
  have "distinct (map req_id (rf_submitted f))" using server_flow_inv(1) [OF assms(1)] by (simp add: places_inv_def)
  then have "r' = r" using r'(1,2) assms(5) by (auto simp: distinct_map inj_on_def)
  then show ?thesis using r'(3) by simp
qed

lemma model_answers:
  "\<exists>effs wk' s' v. server_pass (\<lambda>i. model_env) fatal_config 1 0 [] (Request (dense_call 0)) fresh_worker s = (effs, Continue, wk', s') \<and>
     reply_for 0 effs = Some (Dense_Reply (Inr v))"
proof -
  let ?c = "make_worker_config fatal_config 1 0"
  have c: "wc_engine_propagation_tx (make_worker_config fatal_config n 0) = False"
      "build_shape_guard (make_worker_config fatal_config n 0) k = None" "wc_model_variant (make_worker_config fatal_config n 0) = Fp32" for n k
    by (simp_all add: fatal_config_def sample_config_def make_worker_config_def build_shape_guard_def Let_def)
  obtain v where v: "embed_dense (en_session model_env) (en_tokenizer model_env) (en_timing model_env) [''a''] (sh_cost_model s) Fp32 None =
      Inr v"
    using dense_pointwise [OF sample_tokenizes sample_contract admitted_None sample_invariant(1)]
    unfolding model_env_def by (simp add: sample_env_parts) metis
  obtain outcome effs warmed' where fin: "finalize_embed_route ?c 0 (Suc 0) (Inr v) {} = (outcome, effs, warmed')"
    by (cases "finalize_embed_route ?c 0 (Suc 0) (Inr v) {}")
  have o: "outcome = Outcome_Ok" using finalize_outcome [OF fin] by (simp add: classify_inference_outcome_def)
  have "dispatch_request model_env ?c 0 None 0 {} (dense_call 0) s =
      Some \<lparr>dp_outcome = Outcome_Ok, dp_skip = False, dp_effects = effs @ [Reply 0 (Dense_Reply (Inr v))], dp_warmed_local = warmed',
            dp_shared = s\<rparr>"
    using v fin o by (simp add: dispatch_embed_def embed_with_trt_retry_def c)
  then have "worker_iteration model_env ?c 0 [] (Request (dense_call 0)) fresh_worker s = (effs @ [Reply 0 (Dense_Reply (Inr v))], Continue,
      \<lparr>wk_models = True, wk_warmed_local = warmed', wk_failures = 0\<rparr>, s)"
    by (simp add: worker_iteration_def drain_peers_def c fresh_worker_def serve_loaded_def should_unload_on_outcome_def)
  then show ?thesis unfolding server_pass_def using reply_for_none [OF finalize_no_reply [OF fin]] by auto
qed

theorem concurrent_answers_ideal_witness:
  "\<exists>f vs st. server_flow_reachable (\<lambda>i. model_env) fatal_config 1 (conservative 0) () f \<and>
     reply_for 0 (rf_effects f) = Some (Dense_Reply (Inr (vs, st))) \<and> vs = map (ideal_dense Fp32 sample_g sample_h) (sample_encs [''a''])"
proof -
  let ?start = "pool_start 1 (conservative 0) () :: unit pool" and ?f2 = "first_received (conservative 0) ()"
  have variant: "wc_model_variant fatal_config = Fp32" by (simp add: fatal_config_def sample_config_def)
  have "server_start (\<lambda>i. model_env) fatal_config 1 0 (pl_shared ?start) = (Startup_Ready 20, pl_shared ?start)"
    by (simp add: server_start_def startup_worker_def prewarm_shard_def model_env_def fatal_config_def sample_env_def sample_config_def
        make_worker_config_def run_cache_gc_def pool_start_def Let_def)
  from flow_one_received [OF this] have r2: "server_flow_reachable (\<lambda>i. model_env) fatal_config 1 (conservative 0) ()
      (?f2\<lparr>rf_queue := [], rf_submitted := [dense_call 0], rf_accepted := [0]\<rparr>)" by (simp add: flow_start_def)
  obtain effs wk' s' v where it: "server_pass (\<lambda>i. model_env) fatal_config 1 0 [] (Request (dense_call 0)) fresh_worker
      (pl_shared (started_pool (conservative 0) ())) = (effs, Continue, wk', s')" "reply_for 0 effs = Some (Dense_Reply (Inr v))"
    using model_answers by blast
  note r3 = flow_first_finish [OF r2 it(1)]
  have "ideal_answer (\<lambda>texts. map (ideal_dense (wc_model_variant fatal_config) sample_g sample_h) (sample_encs texts))
      (\<lambda>texts. map (ideal_sparse sample_pj sample_h) (sample_encs texts)) (dense_call 0) (Dense_Reply (Inr v))"
    by (rule concurrent_answers_ideal [OF r3 model_env_same])
      (use sample_invariant it(2) in \<open>simp_all add: variant req_id_def\<close>)
  then show ?thesis using r3 it(2) by (cases v) (force simp: variant)
qed

end
